(* ===== verification/Rds_Prelude.thy ===== *)
theory Rds_Prelude
  imports Main "HOL-Library.Word" "HOL-Library.List_Lexorder" "HOL-Library.Sublist"
begin

text \<open>
  Shared vocabulary of the development: the Rust types the components use, the
  result type and its \<open>?\<close> operator, the checked and saturating arithmetic of
  \<open>u64\<close> and \<open>Duration\<close>, the \<open>BTreeMap\<close> as a sorted association list, the
  third-party codec and signature interfaces that are parameters of the model,
  and the generic locales for step systems and revision-ordered registers.
\<close>

section \<open>Types\<close>

type_synonym byte = "8 word"
type_synonym bytes = "byte list"

text \<open>
  \<open>u64\<close>, \<open>u32\<close>, \<open>u16\<close> and \<open>usize\<close> values that only take part in comparisons and
  in checked or saturating arithmetic are natural numbers, with the width written
  out in the operation. Counters that the source changes with the plain
  \<open>+=\<close> and \<open>-=\<close> operators are words, so that wrap-around is visible.
\<close>

type_synonym u64 = nat
type_synonym u16 = nat
type_synonym u32 = nat
type_synonym usize = nat

type_synonym ('e, 'a) result = "'e + 'a"

text \<open>Results of fallible code: \<open>Inl\<close> carries the error, \<open>Inr\<close> the value.\<close>

definition rbind :: "('e, 'a) result \<Rightarrow> ('a \<Rightarrow> ('e, 'b) result) \<Rightarrow> ('e, 'b) result" where
  "rbind m f = (case m of Inl e \<Rightarrow> Inl e | Inr x \<Rightarrow> f x)"

definition ensure :: "bool \<Rightarrow> 'e \<Rightarrow> ('e, unit) result" where
  "ensure b e = (if b then Inr () else Inl e)"

definition ok_or :: "'e \<Rightarrow> 'a option \<Rightarrow> ('e, 'a) result" where
  "ok_or e x = (case x of None \<Rightarrow> Inl e | Some y \<Rightarrow> Inr y)"

definition map_err :: "('e \<Rightarrow> 'f) \<Rightarrow> ('e, 'a) result \<Rightarrow> ('f, 'a) result" where
  "map_err f m = (case m of Inl e \<Rightarrow> Inl (f e) | Inr x \<Rightarrow> Inr x)"

definition is_ok :: "('e, 'a) result \<Rightarrow> bool" where
  "is_ok m = (case m of Inl _ \<Rightarrow> False | Inr _ \<Rightarrow> True)"

text \<open>\<open>for x in xs { check(x)?; }\<close>\<close>

fun each_ok :: "('a \<Rightarrow> ('e, unit) result) \<Rightarrow> 'a list \<Rightarrow> ('e, unit) result" where
  "each_ok c [] = Inr ()"
| "each_ok c (x # xs) = rbind (c x) (\<lambda>_. each_ok c xs)"

text \<open>
  Fallible code over a mutable state \<open>s\<close>: \<open>attempt s r k\<close> is \<open>let x = r?; k\<close> inside a
  \<open>&mut self\<close> method, which returns early with the state as it is.
\<close>

definition attempt ::
  "'s \<Rightarrow> ('e, 'a) result \<Rightarrow> ('a \<Rightarrow> 's \<times> ('e, 'b) result) \<Rightarrow> 's \<times> ('e, 'b) result" where
  "attempt s r k = (case r of Inl e \<Rightarrow> (s, Inl e) | Inr x \<Rightarrow> k x)"

text \<open>\<open>let x = self.m(..)?; k\<close> where \<open>m\<close> itself changed the state to \<open>s\<close>.\<close>

definition and_then ::
  "'s \<times> ('e, 'a) result \<Rightarrow> ('s \<Rightarrow> 'a \<Rightarrow> 's \<times> ('e, 'b) result) \<Rightarrow> 's \<times> ('e, 'b) result" where
  "and_then m k = (case m of (s, Inl e) \<Rightarrow> (s, Inl e) | (s, Inr x) \<Rightarrow> k s x)"

named_theorems res_simps \<open>unfolding of results and of the ? operator\<close>

lemma rbind_simps [simp]: "rbind (Inl e) f = Inl e" "rbind (Inr x) f = f x"
  by (simp_all add: rbind_def)

lemma rbind_Inr_iff [res_simps]: "rbind m f = Inr y \<longleftrightarrow> (\<exists>x. m = Inr x \<and> f x = Inr y)"
  by (cases m) simp_all

lemma rbind_Inl_iff [res_simps]:
  "rbind m f = Inl e \<longleftrightarrow> m = Inl e \<or> (\<exists>x. m = Inr x \<and> f x = Inl e)"
  by (cases m) simp_all

lemma ensure_Inr_iff [res_simps]: "ensure b e = Inr u \<longleftrightarrow> b"
  by (simp add: ensure_def)

lemma ensure_Inl_iff [res_simps]: "ensure b e = Inl e' \<longleftrightarrow> \<not> b \<and> e' = e"
  by (auto simp: ensure_def)

lemma ensure_simps [simp]: "ensure True e = Inr ()" "ensure False e = Inl e"
  by (simp_all add: ensure_def)

lemma ok_or_Inr_iff [res_simps]: "ok_or e x = Inr y \<longleftrightarrow> x = Some y"
  by (cases x) (simp_all add: ok_or_def)

lemma ok_or_Inl_iff [res_simps]: "ok_or e x = Inl e' \<longleftrightarrow> x = None \<and> e' = e"
  by (cases x) (auto simp: ok_or_def)

lemma ok_or_simps [simp]: "ok_or e None = Inl e" "ok_or e (Some y) = Inr y"
  by (simp_all add: ok_or_def)

lemma map_err_Inr_iff [res_simps]: "map_err f m = Inr y \<longleftrightarrow> m = Inr y"
  by (cases m) (simp_all add: map_err_def)

lemma map_err_Inl_iff [res_simps]: "map_err f m = Inl e \<longleftrightarrow> (\<exists>e'. m = Inl e' \<and> e = f e')"
  by (cases m) (auto simp: map_err_def)

lemma map_err_simps [simp]: "map_err f (Inl e) = Inl (f e)" "map_err f (Inr x) = Inr x"
  by (simp_all add: map_err_def)

lemma is_ok_simps [simp]: "is_ok (Inl e) = False" "is_ok (Inr x) = True"
  by (simp_all add: is_ok_def)

lemma is_ok_iff: "is_ok m \<longleftrightarrow> (\<exists>x. m = Inr x)"
  by (cases m) simp_all

lemma attempt_simps [simp]: "attempt s (Inl e) k = (s, Inl e)" "attempt s (Inr x) k = k x"
  by (simp_all add: attempt_def)

lemma attempt_Inr_iff [res_simps]:
  "attempt s r k = (t, Inr y) \<longleftrightarrow> (\<exists>x. r = Inr x \<and> k x = (t, Inr y))"
  by (cases r) simp_all

lemma attempt_Inl_iff [res_simps]:
  "attempt s r k = (t, Inl e) \<longleftrightarrow> r = Inl e \<and> t = s \<or> (\<exists>x. r = Inr x \<and> k x = (t, Inl e))"
  by (cases r) auto

lemma and_then_simps [simp]:
  "and_then (s, Inl e) k = (s, Inl e)" "and_then (s, Inr x) k = k s x"
  by (simp_all add: and_then_def)

lemma and_then_Inr_iff [res_simps]:
  "and_then m k = (t, Inr y) \<longleftrightarrow> (\<exists>s x. m = (s, Inr x) \<and> k s x = (t, Inr y))"
  by (cases m; cases "snd m") auto

lemma and_then_eq_iff:
  "and_then m k = (t, r) \<longleftrightarrow>
     (\<exists>e. m = (t, Inl e) \<and> r = Inl e) \<or> (\<exists>s x. m = (s, Inr x) \<and> k s x = (t, r))"
  by (cases m; cases "snd m") auto

lemma attempt_eq_iff:
  "attempt s r k = (t, x) \<longleftrightarrow>
     (\<exists>e. r = Inl e \<and> t = s \<and> x = Inl e) \<or> (\<exists>y. r = Inr y \<and> k y = (t, x))"
  by (cases r) auto

lemma each_ok_Inr_iff [res_simps]: "each_ok c xs = Inr u \<longleftrightarrow> (\<forall>x\<in>set xs. c x = Inr ())"
  by (induction xs) (auto simp: res_simps)

lemma case_replicate [simp]:
  "0 < n \<Longrightarrow> (case replicate n x of [] \<Rightarrow> d | b # r \<Rightarrow> f b r) = f x (replicate (n - 1) x)"
  by (cases n) simp_all

section \<open>Integer arithmetic of the source\<close>

definition u64_max :: u64 where
  "u64_max = 2 ^ 64 - 1"

definition sat_add64 :: "u64 \<Rightarrow> u64 \<Rightarrow> u64" where
  "sat_add64 a b = min (a + b) u64_max"

definition sat_sub64 :: "u64 \<Rightarrow> u64 \<Rightarrow> u64" where
  "sat_sub64 a b = (if b \<le> a then a - b else 0)"

definition sat_mul64 :: "u64 \<Rightarrow> u64 \<Rightarrow> u64" where
  "sat_mul64 a b = min (a * b) u64_max"

definition checked_add64 :: "u64 \<Rightarrow> u64 \<Rightarrow> u64 option" where
  "checked_add64 a b = (if a + b \<le> u64_max then Some (a + b) else None)"

definition checked_sub64 :: "u64 \<Rightarrow> u64 \<Rightarrow> u64 option" where
  "checked_sub64 a b = (if b \<le> a then Some (a - b) else None)"

lemma sat_sub64_eq [simp]: "sat_sub64 a b = a - b"
  by (simp add: sat_sub64_def)

lemma checked_add64_Some_iff [res_simps]:
  "checked_add64 a b = Some c \<longleftrightarrow> c = a + b \<and> a + b \<le> u64_max"
  by (auto simp: checked_add64_def)

lemma checked_sub64_Some_iff [res_simps]: "checked_sub64 a b = Some c \<longleftrightarrow> b \<le> a \<and> c = a - b"
  by (auto simp: checked_sub64_def)

lemma sat_add64_less_iff: "b \<le> u64_max \<Longrightarrow> sat_add64 a d < b \<longleftrightarrow> a + d < b"
  by (auto simp: sat_add64_def min_def)

section \<open>Durations\<close>

text \<open>
  \<open>std::time::Duration\<close> holds \<open>u64\<close> seconds and nanoseconds below \<open>10^9\<close>; the
  model counts nanoseconds, so \<open>Duration::MAX\<close> is \<open>2^64 * 10^9 - 1\<close> of them and
  the checked operations fail exactly outside that range.
\<close>

type_synonym duration = nat

definition nanos_per_sec :: nat where
  "nanos_per_sec = 1000000000"

definition from_secs :: "u64 \<Rightarrow> duration" where
  "from_secs s = s * nanos_per_sec"

definition as_secs :: "duration \<Rightarrow> u64" where
  "as_secs d = d div nanos_per_sec"

definition subsec_nanos :: "duration \<Rightarrow> u32" where
  "subsec_nanos d = d mod nanos_per_sec"

definition dur_max :: duration where
  "dur_max = 2 ^ 64 * nanos_per_sec - 1"

definition dur_checked_sub :: "duration \<Rightarrow> duration \<Rightarrow> duration option" where
  "dur_checked_sub a b = (if b \<le> a then Some (a - b) else None)"

definition dur_checked_add :: "duration \<Rightarrow> duration \<Rightarrow> duration option" where
  "dur_checked_add a b = (if a + b \<le> dur_max then Some (a + b) else None)"

lemma nanos_pos [simp]: "0 < nanos_per_sec"
  by (simp add: nanos_per_sec_def)

lemma as_secs_from_secs [simp]: "as_secs (from_secs s) = s"
  by (simp add: as_secs_def from_secs_def)

lemma as_secs_less_iff: "as_secs d < s \<longleftrightarrow> d < from_secs s"
  by (simp add: as_secs_def from_secs_def div_less_iff_less_mult)

lemma as_secs_ge_iff: "s \<le> as_secs d \<longleftrightarrow> from_secs s \<le> d"
  using as_secs_less_iff [of d s] by linarith

lemma as_secs_mono: "a \<le> b \<Longrightarrow> as_secs a \<le> as_secs b"
  by (simp add: as_secs_def div_le_mono)

lemma dur_checked_sub_Some_iff [res_simps]:
  "dur_checked_sub a b = Some c \<longleftrightarrow> b \<le> a \<and> c = a - b"
  by (auto simp: dur_checked_sub_def)

lemma dur_checked_add_Some_iff [res_simps]:
  "dur_checked_add a b = Some c \<longleftrightarrow> c = a + b \<and> a + b \<le> dur_max"
  by (auto simp: dur_checked_add_def)

section \<open>Ordered maps\<close>

text \<open>
  A \<open>BTreeMap\<close> is the list of its entries in ascending key order: lookup is
  \<^const>\<open>map_of\<close>, \<open>bt_put\<close> is \<open>insert\<close>, \<open>bt_after\<close> is the range above an excluded
  lower bound.
\<close>

type_synonym ('k, 'v) btree = "('k \<times> 'v) list"

definition bt_wf :: "('k::linorder, 'v) btree \<Rightarrow> bool" where
  "bt_wf m \<longleftrightarrow> sorted_wrt (<) (map fst m)"

fun bt_put :: "'k::linorder \<Rightarrow> 'v \<Rightarrow> ('k, 'v) btree \<Rightarrow> ('k, 'v) btree" where
  "bt_put k v [] = [(k, v)]"
| "bt_put k v (e # m) =
     (if fst e < k then e # bt_put k v m
      else if fst e = k then (k, v) # m
      else (k, v) # e # m)"

definition bt_after :: "'k::linorder option \<Rightarrow> ('k, 'v) btree \<Rightarrow> ('k, 'v) btree" where
  "bt_after c m = (case c of None \<Rightarrow> m | Some k \<Rightarrow> filter (\<lambda>e. k < fst e) m)"

lemma bt_wf_Nil [simp]: "bt_wf []"
  by (simp add: bt_wf_def)

lemma bt_wf_Cons [simp]: "bt_wf (e # m) \<longleftrightarrow> (\<forall>e'\<in>set m. fst e < fst e') \<and> bt_wf m"
  by (auto simp: bt_wf_def)

lemma bt_put_keys [simp]: "fst ` set (bt_put k v m) = insert k (fst ` set m)"
  by (induction m) auto

lemma bt_put_wf [intro]: "bt_wf m \<Longrightarrow> bt_wf (bt_put k v m)"
proof (induction m)
  case (Cons e m)
  have "\<forall>e'\<in>set (bt_put k v m). fst e < fst e'" if "fst e < k"
  proof
    fix e' assume "e' \<in> set (bt_put k v m)"
    then have "fst e' \<in> insert k (fst ` set m)"
      by (metis bt_put_keys imageI)
    with that Cons.prems show "fst e < fst e'" by auto
  qed
  with Cons show ?case by auto
qed simp

lemma bt_tail_None: "bt_wf (e # m) \<Longrightarrow> \<not> fst e < k \<Longrightarrow> map_of m k = None"
  by (force simp: map_of_eq_None_iff)

lemma map_of_bt_put [simp]: "bt_wf m \<Longrightarrow> map_of (bt_put k v m) = (map_of m)(k \<mapsto> v)"
proof (induction m)
  case (Cons e m)
  then show ?case
    using bt_tail_None [OF Cons.prems, of k] by (cases e) (auto simp: fun_eq_iff)
qed simp

lemma bt_put_length:
  "bt_wf m \<Longrightarrow> length (bt_put k v m) = length m + (if map_of m k = None then 1 else 0)"
proof (induction m)
  case (Cons e m)
  then show ?case
    using bt_tail_None [OF Cons.prems, of k]
    by (cases e; cases "fst e < k"; cases "fst e = k") auto
qed simp

text \<open>How many entries satisfy \<open>P\<close> after an insertion, as an equation in \<open>int\<close>.\<close>

definition bt_count :: "('v \<Rightarrow> bool) \<Rightarrow> ('k, 'v) btree \<Rightarrow> nat" where
  "bt_count P m = length (filter (\<lambda>e. P (snd e)) m)"

lemma bt_count_simps [simp]:
  "bt_count P [] = 0"
  "bt_count P (e # m) = (if P (snd e) then Suc (bt_count P m) else bt_count P m)"
  by (simp_all add: bt_count_def)

lemma bt_count_put:
  "bt_wf m \<Longrightarrow>
     int (bt_count P (bt_put k v m)) =
       int (bt_count P m)
       - (case map_of m k of None \<Rightarrow> 0 | Some old \<Rightarrow> of_bool (P old)) + of_bool (P v)"
proof (induction m)
  case (Cons e m)
  then show ?case
    using bt_tail_None [OF Cons.prems, of k]
    by (cases e; cases "fst e < k"; cases "fst e = k") auto
qed simp

lemma bt_count_pos: "map_of m k = Some v \<Longrightarrow> P v \<Longrightarrow> 0 < bt_count P m"
  by (induction m) (auto split: if_splits)

lemma bt_after_subset: "set (bt_after c m) \<subseteq> set m"
  by (auto simp: bt_after_def split: option.splits)

lemma bt_after_wf: "bt_wf m \<Longrightarrow> bt_wf (bt_after c m)"
  by (auto simp: bt_after_def bt_wf_def sorted_wrt_map sorted_wrt_filter split: option.splits)

lemma bt_mem_map_of: "bt_wf m \<Longrightarrow> (k, v) \<in> set m \<longleftrightarrow> map_of m k = Some v"
proof (induction m)
  case (Cons e m)
  then show ?case by (cases e) (auto simp: map_of_eq_None_iff split: if_splits)
qed simp

section \<open>Strings\<close>

text \<open>\<open>str::split\<close> at every character that satisfies \<open>p\<close>.\<close>

fun split_on :: "(char \<Rightarrow> bool) \<Rightarrow> string \<Rightarrow> string list" where
  "split_on p [] = [[]]"
| "split_on p (c # cs) =
     (if p c then [] # split_on p cs
      else (case split_on p cs of [] \<Rightarrow> [[c]] | w # ws \<Rightarrow> (c # w) # ws))"

lemma split_on_ne [simp]: "split_on p s \<noteq> []"
  by (cases s) (auto split: list.splits)

text \<open>\<open>str::strip_suffix\<close>, \<open>split_once\<close> and \<open>rsplit_once\<close> with a character pattern.\<close>

definition strip_last :: "char \<Rightarrow> string \<Rightarrow> string option" where
  "strip_last c s = (if s \<noteq> [] \<and> last s = c then Some (butlast s) else None)"

definition split_once :: "char \<Rightarrow> string \<Rightarrow> (string \<times> string) option" where
  "split_once c s =
     (if c \<in> set s
      then Some (takeWhile (\<lambda>x. x \<noteq> c) s, tl (dropWhile (\<lambda>x. x \<noteq> c) s)) else None)"

definition rsplit_once :: "char \<Rightarrow> string \<Rightarrow> (string \<times> string) option" where
  "rsplit_once c s = map_option (\<lambda>(a, b). (rev b, rev a)) (split_once c (rev s))"

text \<open>\<open>trim_end_matches\<close>, \<open>to_ascii_lowercase\<close> and \<open>[T]::join\<close>.\<close>

definition trim_end :: "char \<Rightarrow> string \<Rightarrow> string" where
  "trim_end c s = rev (dropWhile (\<lambda>x. x = c) (rev s))"

definition ascii_lower :: "char \<Rightarrow> char" where
  "ascii_lower c = (let n = of_char c :: nat in if 65 \<le> n \<and> n \<le> 90 then char_of (n + 32) else c)"

fun sep_by :: "char \<Rightarrow> string list \<Rightarrow> string" where
  "sep_by c [] = []"
| "sep_by c [w] = w"
| "sep_by c (w # v # ws) = w @ c # sep_by c (v # ws)"

lemma split_once_append [simp]: "c \<notin> set a \<Longrightarrow> split_once c (a @ c # b) = Some (a, b)"
  by (induction a) (auto simp: split_once_def)

lemma rsplit_once_append [simp]: "c \<notin> set b \<Longrightarrow> rsplit_once c (a @ c # b) = Some (a, b)"
  by (simp add: rsplit_once_def)

section \<open>Third-party interfaces\<close>

text \<open>
  The Ed25519 and BLAKE3 crates are parameters of the model: \<open>vk_error\<close> is the
  error text of \<open>VerifyingKey::from_bytes\<close> (\<open>None\<close> when the bytes are a key),
  \<open>verify_strict\<close> takes key, message and the 64 signature bytes. Verifying keys are
  their 32 bytes, signing keys their secret bytes.
\<close>

record crypto =
  vk_error :: "bytes \<Rightarrow> string option"
  vk_weak :: "bytes \<Rightarrow> bool"
  verify_strict :: "bytes \<Rightarrow> bytes \<Rightarrow> bytes \<Rightarrow> bool"
  sk_public :: "bytes \<Rightarrow> bytes"
  sk_sign :: "bytes \<Rightarrow> bytes \<Rightarrow> bytes"
  blake3 :: "bytes \<Rightarrow> bytes"

text \<open>What the code relies on: honestly made signatures verify and have 64 bytes.\<close>

definition signatures_ok :: "crypto \<Rightarrow> bool" where
  "signatures_ok cr \<longleftrightarrow>
     (\<forall>sk. vk_error cr (sk_public cr sk) = None) \<and>
     (\<forall>sk m. verify_strict cr (sk_public cr sk) m (sk_sign cr sk m)) \<and>
     (\<forall>sk m. length (sk_sign cr sk m) = 64)"

text \<open>
  The postcard serializer at one type: \<open>enc\<close> is \<open>to_stdvec\<close>, \<open>dec\<close> is
  \<open>take_from_bytes\<close> (the value and the bytes it did not use, or an error text).
\<close>

record 'a codec =
  enc :: "'a \<Rightarrow> bytes"
  dec :: "bytes \<Rightarrow> (string, 'a \<times> bytes) result"

definition codec_ok :: "'a codec \<Rightarrow> bool" where
  "codec_ok c \<longleftrightarrow> (\<forall>x rest. dec c (enc c x @ rest) = Inr (x, rest))"

definition from_bytes :: "'a codec \<Rightarrow> bytes \<Rightarrow> (string, 'a) result" where
  "from_bytes c bs = rbind (dec c bs) (\<lambda>(x, _). Inr x)"

lemma codec_okD: "codec_ok c \<Longrightarrow> dec c (enc c x @ rest) = Inr (x, rest)"
  by (simp add: codec_ok_def)

lemma codec_ok_dec [simp]: "codec_ok c \<Longrightarrow> dec c (enc c x) = Inr (x, [])"
  using codec_okD [of c x "[]"] by simp

lemma codec_ok_from_bytes [simp]: "codec_ok c \<Longrightarrow> from_bytes c (enc c x) = Inr x"
  by (simp add: from_bytes_def)

text \<open>The round trip at one value, which is all that some lemmas need.\<close>

definition codec_at :: "'a codec \<Rightarrow> 'a \<Rightarrow> bool" where
  "codec_at c x \<longleftrightarrow> dec c (enc c x) = Inr (x, [])"

lemma codec_ok_at: "codec_ok c \<Longrightarrow> codec_at c x"
  by (simp add: codec_at_def)

text \<open>A concrete codec that knows one value: it writes and expects a tag byte.\<close>

definition tag_codec :: "byte \<Rightarrow> 'a \<Rightarrow> 'a codec" where
  "tag_codec t x =
     \<lparr>enc = (\<lambda>_. [t]),
      dec = (\<lambda>bs. case bs of [] \<Rightarrow> Inl ''eof'' | b # r \<Rightarrow> if b = t then Inr (x, r) else Inl ''tag'')\<rparr>"

lemma tag_codec_simps [simp]:
  "enc (tag_codec t x) y = [t]"
  "dec (tag_codec t x) [] = Inl ''eof''"
  "dec (tag_codec t x) (b # r) = (if b = t then Inr (x, r) else Inl ''tag'')"
  "from_bytes (tag_codec t x) (b # r) = (if b = t then Inr x else Inl ''tag'')"
  "codec_at (tag_codec t x) x"
  by (simp_all add: tag_codec_def from_bytes_def codec_at_def)

lemma tag_codec_dec_Inr:
  "dec (tag_codec t x) bs = Inr (y, r) \<longleftrightarrow> bs = t # r \<and> y = x"
  by (cases bs) auto

lemma codec_ok_inj: "codec_ok c \<Longrightarrow> enc c x = enc c y \<Longrightarrow> x = y"
  by (metis codec_ok_from_bytes sum.inject(2))

section \<open>Step systems\<close>

inductive reach :: "('s \<Rightarrow> bool) \<Rightarrow> ('s \<Rightarrow> 's \<Rightarrow> bool) \<Rightarrow> 's \<Rightarrow> bool"
  for init step where
  reach_init: "init s \<Longrightarrow> reach init step s"
| reach_step: "reach init step s \<Longrightarrow> step s t \<Longrightarrow> reach init step t"

locale inductive_invariant =
  fixes init :: "'s \<Rightarrow> bool" and step :: "'s \<Rightarrow> 's \<Rightarrow> bool" and inv :: "'s \<Rightarrow> bool"
  assumes inv_init: "init s \<Longrightarrow> inv s"
    and inv_step: "inv s \<Longrightarrow> step s t \<Longrightarrow> inv t"
begin

lemma reach_inv: "reach init step s \<Longrightarrow> inv s"
  by (induction rule: reach.induct) (auto intro: inv_init inv_step)

end

section \<open>Revision-ordered registers\<close>

text \<open>
  The contract the publishers rely on: a register accepts a mutation only above its
  current revision floor, an accepted mutation moves the floor to its own revision,
  and nothing else moves the floor. The client lemmas are what replay protection
  means over any sequence of requests.
\<close>

locale revision_register =
  fixes inv :: "'s \<Rightarrow> bool"
    and run :: "'s \<Rightarrow> 'm \<Rightarrow> 's"
    and accepted :: "'s \<Rightarrow> 'm \<Rightarrow> bool"
    and rev_floor :: "'s \<Rightarrow> 'r::linorder"
    and revision :: "'m \<Rightarrow> 'r"
  assumes inv_run: "inv s \<Longrightarrow> inv (run s m)"
    and accepted_above: "inv s \<Longrightarrow> accepted s m \<Longrightarrow> rev_floor s < revision m"
    and accepted_floor: "inv s \<Longrightarrow> accepted s m \<Longrightarrow> rev_floor (run s m) = revision m"
    and refused_floor: "inv s \<Longrightarrow> \<not> accepted s m \<Longrightarrow> rev_floor (run s m) = rev_floor s"
begin

lemma run_floor_mono: "inv s \<Longrightarrow> rev_floor s \<le> rev_floor (run s m)"
  using accepted_above accepted_floor refused_floor
  by (cases "accepted s m") (fastforce intro: less_imp_le)+

lemma inv_runs: "inv s \<Longrightarrow> inv (foldl run s ms)"
  by (induction ms arbitrary: s) (auto intro: inv_run)

lemma runs_floor_mono: "inv s \<Longrightarrow> rev_floor s \<le> rev_floor (foldl run s ms)"
proof (induction ms arbitrary: s)
  case (Cons m ms)
  have "rev_floor s \<le> rev_floor (run s m)"
    using Cons.prems by (rule run_floor_mono)
  also have "\<dots> \<le> rev_floor (foldl run (run s m) ms)"
    using Cons.prems by (intro Cons.IH inv_run)
  finally show ?case by simp
qed simp

lemma replay_refused:
  assumes "inv s" and "accepted s m" and "revision m' \<le> revision m"
  shows "\<not> accepted (foldl run (run s m) ms) m'"
proof
  let ?t = "foldl run (run s m) ms"
  assume "accepted ?t m'"
  moreover have "inv ?t"
    using assms(1) by (intro inv_runs inv_run)
  ultimately have "rev_floor ?t < revision m'" by (intro accepted_above)
  moreover have "revision m \<le> rev_floor ?t"
    using runs_floor_mono [OF inv_run [OF assms(1)], of m ms] accepted_floor [OF assms(1,2)] by simp
  ultimately show False using assms(3) by simp
qed

end

section \<open>Fail-stop refinement\<close>

text \<open>A run of requests: the final state and the answers in order.\<close>

fun run_ops :: "('s \<Rightarrow> 'o \<Rightarrow> 's \<times> 'r) \<Rightarrow> 's \<Rightarrow> 'o list \<Rightarrow> 's \<times> 'r list" where
  "run_ops step s [] = (s, [])"
| "run_ops step s (q # qs) =
     (case step s q of (t, r) \<Rightarrow> (case run_ops step t qs of (u, rs) \<Rightarrow> (u, r # rs)))"

lemma run_ops_Cons:
  "fst (run_ops step s (q # qs)) = fst (run_ops step (fst (step s q)) qs)"
  "snd (run_ops step s (q # qs)) = snd (step s q) # snd (run_ops step (fst (step s q)) qs)"
  by (simp_all add: case_prod_beta)

lemma run_ops_length: "length (snd (run_ops step s qs)) = length qs"
  by (induction qs arbitrary: s) (auto simp: run_ops_Cons simp del: run_ops.simps(2))

text \<open>
  The contract between a durable component and its specification: each request is answered as
  the specification answers it, or the component stops; once stopped it refuses everything. The
  environment of a request (which calls fail) is an input of the component only.
\<close>

locale fail_stop_simulation =
  fixes cstep :: "'c \<Rightarrow> 'i \<times> 'o \<Rightarrow> 'c \<times> 'r"
    and astep :: "'a \<Rightarrow> 'o \<Rightarrow> 'a \<times> 'r"
    and rel :: "'c \<Rightarrow> 'a \<Rightarrow> bool"
    and stopped :: "'c \<Rightarrow> bool"
    and refused :: "'r \<Rightarrow> bool"
  assumes simulates: "rel c a \<Longrightarrow> cstep c (i, q) = (c2, r) \<Longrightarrow> astep a q = (a2, v) \<Longrightarrow>
      rel c2 a2 \<and> r = v \<or> stopped c2 \<and> refused r"
    and stays: "stopped c \<Longrightarrow> cstep c iq = (c2, r) \<Longrightarrow> stopped c2 \<and> refused r"
begin

lemma stopped_run:
  assumes "stopped c"
  shows "stopped (fst (run_ops cstep c iqs)) \<and> list_all refused (snd (run_ops cstep c iqs))"
  using assms
proof (induction iqs arbitrary: c)
  case (Cons iq iqs)
  then show ?case
    using stays [OF Cons.prems, of iq] by (cases "cstep c iq") (simp add: run_ops_Cons del: run_ops.simps(2))
qed simp

lemma run_simulated:
  assumes "rel c a" "run_ops cstep c iqs = (c2, rs)" "run_ops astep a (map snd iqs) = (a2, vs)"
  shows "\<exists>n\<le>length iqs. take n rs = take n vs \<and> list_all refused (drop n rs) \<and>
     (if n = length iqs then rel c2 a2 else stopped c2)"
  using assms
proof (induction iqs arbitrary: c a rs vs)
  case (Cons iq iqs)
  obtain i q where iq: "iq = (i, q)" by force
  obtain c1 r a1 v where s: "cstep c (i, q) = (c1, r)" "astep a q = (a1, v)" by (metis surj_pair)
  obtain rs1 where r1: "run_ops cstep c1 iqs = (c2, rs1)" "rs = r # rs1"
    using Cons.prems(2) s(1) iq by (auto split: prod.splits)
  obtain vs1 where v1: "run_ops astep a1 (map snd iqs) = (a2, vs1)" "vs = v # vs1"
    using Cons.prems(3) s(2) iq by (auto split: prod.splits)
  from simulates [OF Cons.prems(1) s] show ?case
  proof
    assume step: "rel c1 a1 \<and> r = v"
    then obtain n where "n \<le> length iqs" "take n rs1 = take n vs1" "list_all refused (drop n rs1)"
      "if n = length iqs then rel c2 a2 else stopped c2"
      using Cons.IH [OF _ r1(1) v1(1)] by blast
    then show ?thesis using step r1(2) v1(2) by (intro exI [of _ "Suc n"]) auto
  next
    assume "stopped c1 \<and> refused r"
    then show ?thesis
      using stopped_run [of c1 iqs] r1 by (intro exI [of _ 0]) auto
  qed
qed auto

end

end
