(* ===== verification/Rds_Identity.thy ===== *)
theory Rds_Identity
  imports Rds_Prelude
begin

unbundle bit_operations_syntax

text \<open>
  Endpoint identities and addresses: \<open>rds-core/src/endpoint.rs\<close> (key strings in hex
  or base32), the relay datagram header of \<open>rds-core/src/relay.rs\<close>, and the error and
  service types of \<open>rds-discovery/src/lib.rs\<close> that the signed-state components share.
  A Rust \<open>str\<close> is a HOL \<^typ>\<open>string\<close>: one \<^typ>\<open>char\<close> per UTF-8 byte, so \<open>length\<close> is the
  byte length that \<open>str::len\<close> reports.
\<close>

section \<open>Errors and service kinds\<close>

datatype discovery_error =
    Busy
  | Configuration string
  | BadSignature
  | InvalidRecord string
  | Expired
  | Stale
  | NotFound
  | Unreachable string
  | Http u16 string
  | RateLimited
  | NotEnrolled
  | Store string
  | StorageUnavailable string

definition invalid :: "string \<Rightarrow> discovery_error" where
  "invalid message = InvalidRecord message"

type_synonym endpoint_key = bytes

datatype service = SPing | SInfo | STcpForward | SDesktop | SAudio | SSync

section \<open>Key strings\<close>

datatype key_parse_error =
  InvalidKeyData | InvalidLength | FailedToDecodeHex | FailedToDecodeBase32

definition str_bytes :: "string \<Rightarrow> bytes" where
  "str_bytes s = map of_char s"

definition hex_digits :: string where
  "hex_digits = ''0123456789abcdef''"

text \<open>
  \<open>hex_write\<close> fills a 64-byte buffer, so more than 32 input bytes index past its end;
  that panic is \<open>None\<close>.
\<close>

definition hex_write :: "bytes \<Rightarrow> string option" where
  "hex_write bs =
     (if length bs \<le> 32
      then Some (concat (map (\<lambda>b. [hex_digits ! unat (drop_bit 4 b), hex_digits ! unat (b AND 15)]) bs))
      else None)"

definition hex_val :: "byte \<Rightarrow> byte option" where
  "hex_val c =
     (if 48 \<le> c \<and> c \<le> 57 then Some (c - 48)
      else if 97 \<le> c \<and> c \<le> 102 then Some (c - 97 + 10)
      else if 65 \<le> c \<and> c \<le> 70 then Some (c - 65 + 10)
      else None)"

fun hex_pairs :: "bytes \<Rightarrow> (key_parse_error, bytes) result" where
  "hex_pairs (hi # lo # rest) =
     rbind (ok_or FailedToDecodeHex (hex_val hi)) (\<lambda>h.
     rbind (ok_or FailedToDecodeHex (hex_val lo)) (\<lambda>l.
     rbind (hex_pairs rest) (\<lambda>bs. Inr ((push_bit 4 h OR l) # bs))))"
| "hex_pairs _ = Inr []"

definition ascii_upper :: "byte \<Rightarrow> byte" where
  "ascii_upper b = (if 97 \<le> b \<and> b \<le> 122 then b - 32 else b)"

definition public_key_length :: usize where
  "public_key_length = 32"

text \<open>\<open>b32\<close> is \<open>data_encoding::BASE32_NOPAD.decode\<close>.\<close>

definition decode_key_string ::
  "(bytes \<Rightarrow> bytes option) \<Rightarrow> string \<Rightarrow> (key_parse_error, bytes) result" where
  "decode_key_string b32 s =
     (if length s = public_key_length * 2 then hex_pairs (str_bytes s)
      else rbind (ok_or FailedToDecodeBase32 (b32 (map ascii_upper (str_bytes s)))) (\<lambda>bs.
           if length bs = 32 then Inr bs else Inl InvalidLength))"

definition endpoint_id_from_bytes :: "crypto \<Rightarrow> bytes \<Rightarrow> (key_parse_error, bytes) result" where
  "endpoint_id_from_bytes cr bs =
     (if vk_error cr bs = None then Inr bs else Inl InvalidKeyData)"

definition endpoint_id_try_from :: "crypto \<Rightarrow> bytes \<Rightarrow> (key_parse_error, bytes) result" where
  "endpoint_id_try_from cr bs =
     (if length bs = 32 then endpoint_id_from_bytes cr bs else Inl InvalidLength)"

definition endpoint_id_from_str ::
  "crypto \<Rightarrow> (bytes \<Rightarrow> bytes option) \<Rightarrow> string \<Rightarrow> (key_parse_error, bytes) result" where
  "endpoint_id_from_str cr b32 s = rbind (decode_key_string b32 s) (endpoint_id_from_bytes cr)"

definition endpoint_id_display :: "bytes \<Rightarrow> string option" where
  "endpoint_id_display key = hex_write key"

definition fmt_short :: "bytes \<Rightarrow> string option" where
  "fmt_short key = hex_write (take 5 key)"

section \<open>Relay datagrams\<close>

definition key_header_len :: usize where
  "key_header_len = 32"

definition max_relay_payload :: usize where
  "max_relay_payload = 64 * 1024"

definition encode_forward :: "bytes \<Rightarrow> bytes \<Rightarrow> bytes" where
  "encode_forward dst payload = dst @ payload"

definition decode_frame :: "bytes \<Rightarrow> (bytes \<times> bytes) option" where
  "decode_frame frame =
     (if length frame < key_header_len \<or> length frame > key_header_len + max_relay_payload
      then None
      else Some (take key_header_len frame, drop key_header_len frame))"

section \<open>Hex digits\<close>

lemma hex_digits_val:
  assumes "n < 16"
  shows "hex_val (of_char (hex_digits ! n)) = Some (of_nat n)"
proof -
  from assms have "n \<in> set [0..<16]" by simp
  moreover have "\<forall>n\<in>set [0..<16]. hex_val (of_char (hex_digits ! n)) = Some (of_nat n)"
    by (simp add: hex_digits_def hex_val_def upt_rec)
  ultimately show ?thesis by blast
qed

lemma nibble_high: "unat (drop_bit 4 (b :: byte)) < 16"
proof -
  have "unat b < 2 ^ LENGTH(8)" by (rule unsigned_less)
  then show ?thesis by (simp add: drop_bit_eq_div unat_div less_mult_imp_div_less)
qed

lemma nibble_low: "unat ((b :: byte) AND 15) < 16"
  using word_and_le1 [of b 15] by (simp add: word_le_nat_alt)

lemma nibbles_join: "push_bit 4 (drop_bit 4 b) OR (b AND 15) = (b :: byte)"
proof -
  have "(15 :: byte) = mask 4" by (simp add: mask_eq_exp_minus_1)
  then have "push_bit 4 (drop_bit 4 b) OR (b AND 15) = push_bit 4 (drop_bit 4 b) OR take_bit 4 b"
    by (simp add: take_bit_eq_mask)
  also have "\<dots> = b"
    by (rule bit_word_eqI) (auto simp: bit_simps not_less)
  finally show ?thesis .
qed

lemma hex_pairs_write:
  "hex_pairs (str_bytes (concat (map (\<lambda>b. [hex_digits ! unat (drop_bit 4 b),
     hex_digits ! unat (b AND 15)]) bs))) = Inr bs"
proof (induction bs)
  case (Cons b bs)
  then show ?case
    using hex_digits_val [OF nibble_high, of b] hex_digits_val [OF nibble_low, of b]
    by (simp add: str_bytes_def nibbles_join)
qed (simp add: str_bytes_def)

text \<open>Only the hex branch is taken for 64 bytes: any non-digit there is an error.\<close>

lemma hex_pairs_total:
  "hex_pairs bs = Inl e \<Longrightarrow> e = FailedToDecodeHex"
  by (induction bs rule: hex_pairs.induct) (auto simp: res_simps)

lemma hex_pairs_length: "hex_pairs bs = Inr out \<Longrightarrow> length out = length bs div 2"
  by (induction bs arbitrary: out rule: hex_pairs.induct) (auto simp: res_simps)

text \<open>
  Printing an endpoint identity and parsing it back gives the same identity: for
  every valid 32-byte key \<open>to_string\<close> does not panic and \<open>from_str\<close> of its output is
  that key, whatever the base32 decoder does.
\<close>

theorem endpoint_id_roundtrip:
  assumes "length key = 32" and "vk_error cr key = None"
  shows "\<exists>s. endpoint_id_display key = Some s \<and> length s = 64 \<and>
             endpoint_id_from_str cr b32 s = Inr key"
proof -
  let ?s = "concat (map (\<lambda>b. [hex_digits ! unat (drop_bit 4 b), hex_digits ! unat (b AND 15)]) key)"
  have len: "length ?s = 64"
    using assms(1) by (simp add: length_concat o_def sum_list_triv)
  have "endpoint_id_from_str cr b32 ?s = Inr key"
    using len assms(2) hex_pairs_write [of key]
    by (simp add: endpoint_id_from_str_def decode_key_string_def public_key_length_def
        endpoint_id_from_bytes_def)
  then show ?thesis
    using len assms(1) by (simp add: endpoint_id_display_def hex_write_def)
qed

text \<open>A concrete instance of the signature and hash parameters, for the witnesses.\<close>

definition crypto0 :: crypto where
  "crypto0 = \<lparr>vk_error = (\<lambda>_. None), vk_weak = (\<lambda>_. False),
     verify_strict = (\<lambda>k m s. s = replicate 64 (case k of [] \<Rightarrow> 0 | b # _ \<Rightarrow> b)),
     sk_public = (\<lambda>sk. sk), sk_sign = (\<lambda>sk m. replicate 64 (case sk of [] \<Rightarrow> 0 | b # _ \<Rightarrow> b)),
     blake3 = (\<lambda>m. replicate 32 (of_nat (length m)))\<rparr>"

lemma crypto0_ok: "signatures_ok crypto0"
  by (simp add: signatures_ok_def crypto0_def)

theorem endpoint_id_roundtrip_witness:
  "\<exists>s. endpoint_id_display (replicate 32 171) = Some s \<and> length s = 64 \<and>
       endpoint_id_from_str crypto0 (\<lambda>_. None) s = Inr (replicate 32 171)"
  using endpoint_id_roundtrip [of "replicate 32 171" crypto0 "\<lambda>_. None"]
  by (simp add: crypto0_def)

text \<open>
  The relay's datagram codec: a frame decodes exactly when it is a 32-byte key
  followed by at most 64 KiB of payload, and then into that key and that payload; so
  encoding followed by decoding is the identity and nothing else is accepted.
\<close>

theorem decode_frame_iff:
  "decode_frame frame = Some (key, payload) \<longleftrightarrow>
     frame = encode_forward key payload \<and> length key = key_header_len \<and>
     length payload \<le> max_relay_payload"
proof
  assume d: "decode_frame frame = Some (key, payload)"
  then have "key = take 32 frame" "payload = drop 32 frame" "32 \<le> length frame"
    "length frame \<le> 32 + max_relay_payload"
    by (auto simp: decode_frame_def key_header_len_def not_less split: if_splits)
  then show "frame = encode_forward key payload \<and> length key = key_header_len \<and>
     length payload \<le> max_relay_payload"
    by (simp add: encode_forward_def key_header_len_def)
next
  assume "frame = encode_forward key payload \<and> length key = key_header_len \<and>
     length payload \<le> max_relay_payload"
  then show "decode_frame frame = Some (key, payload)"
    by (simp add: decode_frame_def encode_forward_def)
qed

end
