(* ===== verification/Rds_Net.thy ===== *)
theory Rds_Net
  imports Rds_Identity
begin

text \<open>
  IP addresses with the parser and printer of the Rust standard library, and the TCP
  destinations of \<open>rds-core/src/tcp_target.rs\<close> built on them. The lemmas show that an
  address and a destination survive printing and parsing.
\<close>

section \<open>Addresses\<close>

text \<open>\<open>V6\<close> carries the eight 16-bit groups of the address.\<close>

datatype ip_addr = V4 byte byte byte byte | V6 "16 word list"

record socket_addr =
  sa_ip :: ip_addr
  sa_port :: u16
  sa_flowinfo :: u32
  sa_scope :: u32

fun ip_wf :: "ip_addr \<Rightarrow> bool" where
  "ip_wf (V4 a b c d) = True"
| "ip_wf (V6 gs) = (length gs = 8)"

fun is_unspecified :: "ip_addr \<Rightarrow> bool" where
  "is_unspecified (V4 a b c d) = (a = 0 \<and> b = 0 \<and> c = 0 \<and> d = 0)"
| "is_unspecified (V6 gs) = list_all (\<lambda>g. g = 0) gs"

fun is_multicast :: "ip_addr \<Rightarrow> bool" where
  "is_multicast (V4 a b c d) = (224 \<le> a \<and> a \<le> 239)"
| "is_multicast (V6 gs) = (case gs of [] \<Rightarrow> False | g # _ \<Rightarrow> drop_bit 8 g = 0xFF)"

fun is_broadcast :: "ip_addr \<Rightarrow> bool" where
  "is_broadcast (V4 a b c d) = (a = 255 \<and> b = 255 \<and> c = 255 \<and> d = 255)"
| "is_broadcast (V6 gs) = False"

definition group_high :: "16 word \<Rightarrow> byte" where "group_high g = ucast (drop_bit 8 g)"
definition group_low :: "16 word \<Rightarrow> byte" where "group_low g = ucast g"

definition group_join :: "byte \<Rightarrow> byte \<Rightarrow> 16 word" where
  "group_join hi lo = push_bit 8 (ucast hi) OR ucast lo"

definition to_ipv4_mapped :: "16 word list \<Rightarrow> ip_addr option" where
  "to_ipv4_mapped gs =
     (case gs of
        [a, b, c, d, e, f, g, h] \<Rightarrow>
          if a = 0 \<and> b = 0 \<and> c = 0 \<and> d = 0 \<and> e = 0 \<and> f = 0xFFFF
          then Some (V4 (group_high g) (group_low g) (group_high h) (group_low h)) else None
      | _ \<Rightarrow> None)"

fun to_canonical :: "ip_addr \<Rightarrow> ip_addr" where
  "to_canonical (V4 a b c d) = V4 a b c d"
| "to_canonical (V6 gs) = (case to_ipv4_mapped gs of Some v4 \<Rightarrow> v4 | None \<Rightarrow> V6 gs)"

section \<open>The standard library's parser\<close>

text \<open>A parser returns the value and the text it has not used.\<close>

type_synonym 'a parser = "string \<Rightarrow> ('a \<times> string) option"

definition digit_value :: "nat \<Rightarrow> char \<Rightarrow> nat option" where
  "digit_value radix c =
     (let n = of_char c :: nat;
          v = (if 48 \<le> n \<and> n \<le> 57 then Some (n - 48)
               else if 97 \<le> n \<and> n \<le> 122 then Some (n - 87)
               else if 65 \<le> n \<and> n \<le> 90 then Some (n - 55) else None)
      in case v of None \<Rightarrow> None | Some d \<Rightarrow> if d < radix then Some d else None)"

definition is_digit :: "nat \<Rightarrow> char \<Rightarrow> bool" where
  "is_digit radix c \<longleftrightarrow> digit_value radix c \<noteq> None"

definition digits_value :: "nat \<Rightarrow> string \<Rightarrow> nat" where
  "digits_value radix ds = foldl (\<lambda>v c. v * radix + the (digit_value radix c)) 0 ds"

definition read_number :: "nat \<Rightarrow> nat \<Rightarrow> bool \<Rightarrow> nat \<Rightarrow> nat parser" where
  "read_number radix max_digits allow_zero_prefix limit s =
     (let ds = takeWhile (is_digit radix) s
      in if ds = [] \<or> length ds > max_digits
            \<or> \<not> allow_zero_prefix \<and> hd ds = CHR ''0'' \<and> length ds > 1
            \<or> digits_value radix ds > limit
         then None else Some (digits_value radix ds, drop (length ds) s))"

definition read_separator :: "char \<Rightarrow> nat \<Rightarrow> 'a parser \<Rightarrow> 'a parser" where
  "read_separator sep index inner s =
     (if index > 0 then (case s of [] \<Rightarrow> None | c # r \<Rightarrow> if c = sep then inner r else None)
      else inner s)"

fun read_octets :: "nat \<Rightarrow> nat \<Rightarrow> byte list parser" where
  "read_octets i 0 s = Some ([], s)"
| "read_octets i (Suc n) s =
     (case read_separator CHR ''.'' i (read_number 10 3 False 255) s of
        None \<Rightarrow> None
      | Some (v, r) \<Rightarrow>
          (case read_octets (Suc i) n r of None \<Rightarrow> None | Some (vs, r2) \<Rightarrow> Some (of_nat v # vs, r2)))"

definition read_ipv4 :: "byte list parser" where
  "read_ipv4 = read_octets 0 4"

text \<open>\<open>read_groups\<close>: the groups read, whether they end in an embedded IPv4 address, the rest.\<close>

fun read_groups :: "nat \<Rightarrow> nat \<Rightarrow> nat \<Rightarrow> string \<Rightarrow> 16 word list \<times> bool \<times> string" where
  "read_groups limit i 0 s = ([], False, s)"
| "read_groups limit i (Suc n) s =
     (case (if i < limit - 1 then read_separator CHR '':'' i read_ipv4 s else None) of
        Some (vs, r) \<Rightarrow>
          ([group_join (vs ! 0) (vs ! 1), group_join (vs ! 2) (vs ! 3)], True, r)
      | None \<Rightarrow>
          (case read_separator CHR '':'' i (read_number 16 4 True 65535) s of
             None \<Rightarrow> ([], False, s)
           | Some (g, r) \<Rightarrow>
               (case read_groups limit (Suc i) n r of (gs, f, r2) \<Rightarrow> (of_nat g # gs, f, r2))))"

definition read_ipv6 :: "16 word list parser" where
  "read_ipv6 s =
     (case read_groups 8 0 8 s of (gs, v4, r) \<Rightarrow>
        if length gs = 8 then Some (gs, r)
        else if v4 then None
        else (case r of
                c # c2 # r2 \<Rightarrow>
                  if c = CHR '':'' \<and> c2 = CHR '':'' then
                    (let limit = 8 - (length gs + 1)
                     in case read_groups limit 0 limit r2 of (ts, _, r3) \<Rightarrow>
                          Some (gs @ replicate (8 - length gs - length ts) 0 @ ts, r3))
                  else None
              | _ \<Rightarrow> None))"

definition parse_all :: "'a parser \<Rightarrow> string \<Rightarrow> 'a option" where
  "parse_all p s = (case p s of Some (x, []) \<Rightarrow> Some x | _ \<Rightarrow> None)"

definition v4_of :: "byte list \<Rightarrow> ip_addr" where
  "v4_of vs = V4 (vs ! 0) (vs ! 1) (vs ! 2) (vs ! 3)"

text \<open>\<open>read_ip_addr\<close> tries IPv4 first and IPv6 only when that fails.\<close>

definition read_ip_addr :: "ip_addr parser" where
  "read_ip_addr s =
     (case read_ipv4 s of
        Some (vs, r) \<Rightarrow> Some (v4_of vs, r)
      | None \<Rightarrow> map_option (\<lambda>(gs, r). (V6 gs, r)) (read_ipv6 s))"

definition parse_ip :: "string \<Rightarrow> ip_addr option" where
  "parse_ip = parse_all read_ip_addr"

definition parse_ipv6 :: "string \<Rightarrow> 16 word list option" where
  "parse_ipv6 = parse_all read_ipv6"

section \<open>The standard library's printer\<close>

definition digit_char :: "nat \<Rightarrow> char" where
  "digit_char d = (if d < 10 then char_of (48 + d) else char_of (87 + d))"

text \<open>\<open>{}\<close> and \<open>{:x}\<close> of an unsigned integer: no leading zeros.\<close>

fun print_number :: "nat \<Rightarrow> nat \<Rightarrow> string" where
  "print_number radix n =
     (if radix < 2 \<or> n < radix then [digit_char n]
      else print_number radix (n div radix) @ [digit_char (n mod radix)])"

declare print_number.simps [simp del]

definition print_v4 :: "byte list \<Rightarrow> string" where
  "print_v4 vs = sep_by CHR ''.'' (map (\<lambda>v. print_number 10 (unat v)) vs)"

definition print_groups :: "16 word list \<Rightarrow> string" where
  "print_groups gs = sep_by CHR '':'' (map (\<lambda>g. print_number 16 (unat g)) gs)"

text \<open>
  The loop of \<open>Ipv6Addr\<close>'s \<open>Display\<close> that finds the first longest run of zero groups: index,
  current run and longest run, each run a start and a length.
\<close>

fun zero_span :: "nat \<Rightarrow> nat \<times> nat \<Rightarrow> nat \<times> nat \<Rightarrow> 16 word list \<Rightarrow> nat \<times> nat" where
  "zero_span i cur longest [] = longest"
| "zero_span i cur longest (g # gs) =
     (if g = 0 then
        (let cur2 = (if snd cur = 0 then i else fst cur, snd cur + 1)
         in zero_span (Suc i) cur2 (if snd cur2 > snd longest then cur2 else longest) gs)
      else zero_span (Suc i) (0, 0) longest gs)"

definition print_v6 :: "16 word list \<Rightarrow> string" where
  "print_v6 gs =
     (case to_ipv4_mapped gs of
        Some (V4 a b c d) \<Rightarrow> ''::ffff:'' @ print_v4 [a, b, c, d]
      | _ \<Rightarrow>
          (case zero_span 0 (0, 0) (0, 0) gs of (start, len) \<Rightarrow>
             if len > 1
             then print_groups (take start gs) @ ''::'' @ print_groups (drop (start + len) gs)
             else print_groups gs))"

fun print_ip :: "ip_addr \<Rightarrow> string" where
  "print_ip (V4 a b c d) = print_v4 [a, b, c, d]"
| "print_ip (V6 gs) = print_v6 gs"

section \<open>TCP destinations\<close>

record tcp_target =
  tt_host :: string
  tt_port :: u16

type_synonym tcp_target_error = string

definition err_port :: tcp_target_error where
  "err_port = ''TCP destination port must be 1..65535''"

definition err_host_len :: tcp_target_error where
  "err_host_len = ''TCP destination host must be 1..253 bytes before an optional final DNS dot''"

definition err_unicast :: tcp_target_error where
  "err_unicast = ''TCP destination must be a unicast address''"

definition err_hostname :: tcp_target_error where
  "err_hostname = ''invalid TCP hostname or IP address; IPv6 zones are not supported''"

definition is_alnum :: "char \<Rightarrow> bool" where
  "is_alnum c \<longleftrightarrow> digit_value 36 c \<noteq> None"

definition hostname_ok :: "string \<Rightarrow> bool" where
  "hostname_ok host \<longleftrightarrow>
     list_all (\<lambda>b. is_alnum b \<or> b = CHR ''.'' \<or> b = CHR ''-'' \<or> b = CHR ''_'') host \<and>
     \<not> list_all (\<lambda>b. is_digit 10 b \<or> b = CHR ''.'') host \<and>
     list_all (\<lambda>label. label \<noteq> [] \<and> length label \<le> 63)
       (split_on (\<lambda>c. c = CHR ''.'') (trim_end CHR ''.'' host)) \<and>
     \<not> suffix ''..'' host"

definition tcp_target_new :: "string \<Rightarrow> u16 \<Rightarrow> (tcp_target_error, tcp_target) result" where
  "tcp_target_new host port =
     rbind (ensure (port \<noteq> 0) err_port) (\<lambda>_.
     let without_root_dot = (case strip_last CHR ''.'' host of Some h \<Rightarrow> h | None \<Rightarrow> host) in
     rbind (ensure (without_root_dot \<noteq> [] \<and> length without_root_dot \<le> 253) err_host_len) (\<lambda>_.
     rbind
       (case parse_ip host of
          Some ip0 \<Rightarrow>
            (let ip = to_canonical ip0 in
             rbind (ensure (\<not> (is_unspecified ip \<or> is_multicast ip \<or> is_broadcast ip)) err_unicast)
               (\<lambda>_. Inr (print_ip ip)))
        | None \<Rightarrow>
            rbind (ensure (hostname_ok host) err_hostname) (\<lambda>_. Inr (map ascii_lower host)))
       (\<lambda>h. Inr \<lparr>tt_host = h, tt_port = port\<rparr>)))"

definition split_target :: "string \<Rightarrow> (tcp_target_error, string \<times> string) result" where
  "split_target s =
     (case s of
        c # rest \<Rightarrow>
          if c = CHR ''['' then
            rbind (ok_or ''unterminated IPv6 address'' (split_once CHR '']'' rest)) (\<lambda>(host, tail).
            rbind (ok_or ''brackets require an IPv6 literal without a zone'' (parse_ipv6 host)) (\<lambda>_.
            rbind (ok_or ''expected [IPv6]:port''
                    (case tail of c # port \<Rightarrow> if c = CHR '':'' then Some port else None | [] \<Rightarrow> None))
              (\<lambda>port. Inr (host, port))))
          else
            rbind (ok_or ''expected host:port or [IPv6]:port'' (rsplit_once CHR '':'' s)) (\<lambda>(host, port).
            rbind (ensure (CHR '':'' \<notin> set host) ''IPv6 TCP destinations require [IPv6]:port'')
              (\<lambda>_. Inr (host, port)))
      | [] \<Rightarrow> Inl ''expected host:port or [IPv6]:port'')"

definition tcp_target_from_str :: "string \<Rightarrow> (tcp_target_error, tcp_target) result" where
  "tcp_target_from_str s =
     rbind (ensure (length s \<le> 261) ''TCP destination exceeds its size limit'') (\<lambda>_.
     rbind (split_target s) (\<lambda>(host, port).
     rbind (ensure (port \<noteq> [] \<and> list_all (is_digit 10) port) err_port) (\<lambda>_.
     rbind (ensure (digits_value 10 port \<le> 65535) err_port) (\<lambda>_.
     tcp_target_new host (digits_value 10 port)))))"

definition tcp_target_to_string :: "tcp_target \<Rightarrow> string" where
  "tcp_target_to_string t =
     (if CHR '':'' \<in> set (tt_host t)
      then ''['' @ tt_host t @ '']:'' @ print_number 10 (tt_port t)
      else tt_host t @ '':'' @ print_number 10 (tt_port t))"

section \<open>Numbers survive printing and parsing\<close>

lemma of_char_code [simp]: "n < 256 \<Longrightarrow> of_char (char_of n :: char) = (n :: nat)"
  by (simp add: of_char_of)

lemma digit_value_digit_char [simp]:
  "d < r \<Longrightarrow> r \<le> 36 \<Longrightarrow> digit_value r (digit_char d) = Some d"
  by (auto simp: digit_value_def digit_char_def Let_def)

lemma is_digit_digit_char [simp]: "d < r \<Longrightarrow> r \<le> 36 \<Longrightarrow> is_digit r (digit_char d)"
  by (simp add: is_digit_def)

lemma is_digit_not_dot [simp]: "\<not> is_digit r CHR ''.''" "\<not> is_digit r CHR '':''"
  "\<not> is_digit r CHR ''['' " "\<not> is_digit r CHR '']''"
  by (simp_all add: is_digit_def digit_value_def)

lemma print_number_digits:
  "2 \<le> r \<Longrightarrow> r \<le> 36 \<Longrightarrow> c \<in> set (print_number r n) \<Longrightarrow> is_digit r c"
proof (induction r n rule: print_number.induct)
  case (1 r n)
  then show ?case
    using print_number.simps [of r n] by (auto split: if_splits)
qed

lemma digits_value_snoc [simp]:
  "digits_value r (ds @ [c]) = digits_value r ds * r + the (digit_value r c)"
  by (simp add: digits_value_def)

lemma digits_value_print [simp]:
  "2 \<le> r \<Longrightarrow> r \<le> 36 \<Longrightarrow> digits_value r (print_number r n) = n"
proof (induction r n rule: print_number.induct)
  case (1 r n)
  then show ?case
    by (subst print_number.simps) (auto simp: digits_value_def)
qed

lemma print_number_ne [simp]: "print_number r n \<noteq> []"
  by (subst print_number.simps) simp

lemma print_number_hd:
  "2 \<le> r \<Longrightarrow> r \<le> 36 \<Longrightarrow> 0 < n \<Longrightarrow> hd (print_number r n) \<noteq> CHR ''0''"
proof (induction r n rule: print_number.induct)
  case (1 r n)
  have zero: "digit_char d \<noteq> CHR ''0''" if "0 < d" "d < r" for d
  proof
    assume "digit_char d = CHR ''0''"
    then have "Some d = digit_value r CHR ''0''"
      using digit_value_digit_char [of d r] that 1(3) by simp
    then show False using that by (simp add: digit_value_def split: if_splits)
  qed
  show ?case
    using 1 zero by (subst print_number.simps) (auto simp: div_greater_zero_iff)
qed

lemma print_number_length:
  "2 \<le> r \<Longrightarrow> n < r ^ k \<Longrightarrow> 0 < k \<Longrightarrow> length (print_number r n) \<le> k"
proof (induction r n arbitrary: k rule: print_number.induct)
  case (1 r n)
  show ?case
  proof (cases "n < r")
    case True
    then show ?thesis using 1 by (subst print_number.simps) auto
  next
    case False
    then obtain j where k: "k = Suc j" "0 < j"
      using 1(3,4) by (cases k; cases "k - 1") auto
    have "n div r < r ^ j"
      using 1(2,3) k by (simp add: div_less_iff_less_mult mult.commute)
    then have "length (print_number r (n div r)) \<le> j"
      using 1(1) [of j] 1(2) False k by simp
    then show ?thesis
      using k False 1(2) by (subst print_number.simps) simp
  qed
qed

definition stops :: "nat \<Rightarrow> string \<Rightarrow> bool" where
  "stops r s \<longleftrightarrow> (case s of [] \<Rightarrow> True | c # _ \<Rightarrow> \<not> is_digit r c)"

lemma takeWhile_stops:
  "\<forall>c\<in>set ds. is_digit r c \<Longrightarrow> stops r s \<Longrightarrow> takeWhile (is_digit r) (ds @ s) = ds"
  by (cases s) (auto simp: stops_def takeWhile_tail)

lemma read_number_print:
  assumes "2 \<le> r" "r \<le> 36" "n \<le> limit" "n < r ^ k" "0 < k" "stops r s"
  shows "read_number r k z limit (print_number r n @ s) = Some (n, s)"
proof -
  have tw: "takeWhile (is_digit r) (print_number r n @ s) = print_number r n"
    using takeWhile_stops print_number_digits assms by blast
  have "\<not> (hd (print_number r n) = CHR ''0'' \<and> length (print_number r n) > 1)"
  proof (cases "n = 0")
    case True
    then show ?thesis using assms(1) by (subst (2) print_number.simps) simp
  qed (use print_number_hd assms in auto)
  then show ?thesis
    using assms print_number_length [of r n k] by (auto simp: read_number_def tw Let_def)
qed

section \<open>Addresses survive printing and parsing\<close>

lemma sep_by_Cons: "sep_by c (w # ws) = w @ concat (map (\<lambda>v. c # v) ws)"
  by (induction ws arbitrary: w) auto

lemma stops_simps [simp]:
  "stops r []" "stops r (CHR ''.'' # s)" "stops r (CHR '':'' # s)"
  by (simp_all add: stops_def)

lemma byte_print [simp]: "unat (v :: byte) \<le> 255" "unat v < 1000"
  using unsigned_less [where ?'a = nat and w = v] by simp_all

lemma group_print [simp]: "unat (g :: 16 word) \<le> 65535" "unat g < 65536"
  using unsigned_less [where ?'a = nat and w = g] by simp_all

lemma read_octets_tail:
  "stops 10 s \<Longrightarrow> 0 < i \<Longrightarrow>
   read_octets i (length vs)
     (concat (map (\<lambda>v. CHR ''.'' # print_number 10 (unat v)) vs) @ s) = Some (vs, s)"
proof (induction vs arbitrary: i)
  case (Cons v vs)
  let ?t = "concat (map (\<lambda>v. CHR ''.'' # print_number 10 (unat v)) vs) @ s"
  have "stops 10 ?t" using Cons.prems by (cases vs) simp_all
  then have "read_number 10 3 False 255 (print_number 10 (unat v) @ ?t) = Some (unat v, ?t)"
    by (intro read_number_print) simp_all
  then show ?case using Cons by (simp add: read_separator_def)
qed simp

lemma read_ipv4_print:
  assumes "stops 10 s"
  shows "read_ipv4 (print_v4 [a, b, c, d] @ s) = Some ([a, b, c, d], s)"
proof -
  let ?t = "concat (map (\<lambda>v. CHR ''.'' # print_number 10 (unat v)) [b, c, d]) @ s"
  have "read_number 10 3 False 255 (print_number 10 (unat a) @ ?t) = Some (unat a, ?t)"
    by (intro read_number_print) simp_all
  moreover have "read_octets 1 3 ?t = Some ([b, c, d], s)"
    using read_octets_tail [OF assms, of 1 "[b, c, d]"] by (simp add: numeral_3_eq_3)
  ultimately show ?thesis
    by (simp add: read_ipv4_def print_v4_def numeral_eq_Suc read_separator_def)
qed

lemma read_number_rest:
  "read_number r k z limit s = Some (v, t) \<Longrightarrow>
   \<exists>ds. s = ds @ t \<and> ds \<noteq> [] \<and> (\<forall>c\<in>set ds. is_digit r c)"
  unfolding read_number_def Let_def
  by (rule exI [of _ "takeWhile (is_digit r) s"])
     (auto simp: takeWhile_eq_take [symmetric] dropWhile_eq_drop [symmetric] dest: set_takeWhileD
           split: if_splits)

lemma read_ipv4_no_dot: "CHR ''.'' \<notin> set s \<Longrightarrow> read_ipv4 s = None"
  by (auto simp: read_ipv4_def numeral_eq_Suc read_separator_def split: option.splits list.splits
           dest!: read_number_rest)

lemma read_ipv4_no_digit: "stops 10 s \<Longrightarrow> read_ipv4 s = None"
  by (cases s)
     (auto simp: read_ipv4_def numeral_eq_Suc read_separator_def read_number_def stops_def)

text \<open>Text after which the group reader stops: the end, or the \<open>::\<close> of an elided run.\<close>

definition group_end :: "string \<Rightarrow> bool" where
  "group_end s \<longleftrightarrow> s = [] \<or> (\<exists>r. s = CHR '':'' # CHR '':'' # r)"

lemma group_end_stops: "group_end s \<Longrightarrow> stops r s"
  by (auto simp: group_end_def)

lemma read_number_stops: "stops r s \<Longrightarrow> read_number r k z limit s = None"
  by (cases s) (auto simp: read_number_def stops_def)

lemma read_groups_end:
  "group_end s \<Longrightarrow> read_groups limit i n s = ([], False, s)"
  by (cases n)
     (auto simp: group_end_def read_separator_def read_number_stops read_ipv4_no_digit
           split: option.splits if_splits)

lemma no_dot_number [simp]: "CHR ''.'' \<notin> set (print_number 16 n)"
  using print_number_digits [of 16 "CHR ''.''" n] by auto

abbreviation colon_groups :: "16 word list \<Rightarrow> string" where
  "colon_groups gs \<equiv> concat (map (\<lambda>g. CHR '':'' # print_number 16 (unat g)) gs)"

lemma read_groups_tail:
  assumes "group_end s" "CHR ''.'' \<notin> set s" "0 < i" "length gs \<le> n"
  shows "read_groups limit i n (colon_groups gs @ s) = (gs, False, s)"
  using assms(3,4)
proof (induction gs arbitrary: i n)
  case (Cons g gs)
  let ?t = "colon_groups gs @ s"
  have "stops 16 ?t" using assms(1) by (cases gs) (auto simp: group_end_stops)
  then have "read_number 16 4 True 65535 (print_number 16 (unat g) @ ?t) = Some (unat g, ?t)"
    by (intro read_number_print) simp_all
  moreover have "read_ipv4 (print_number 16 (unat g) @ ?t) = None"
    by (rule read_ipv4_no_dot) (use assms(2) in auto)
  ultimately show ?case
    using Cons by (cases n) (auto simp: read_separator_def)
qed (use assms(1) in \<open>simp add: read_groups_end\<close>)

lemma read_groups_print:
  assumes "group_end s" "CHR ''.'' \<notin> set s" "length gs \<le> n"
  shows "read_groups limit 0 n (print_groups gs @ s) = (gs, False, s)"
proof (cases gs)
  case (Cons g hs)
  let ?t = "colon_groups hs @ s"
  have "stops 16 ?t" using assms(1) by (cases hs) (auto simp: group_end_stops)
  then have "read_number 16 4 True 65535 (print_number 16 (unat g) @ ?t) = Some (unat g, ?t)"
    by (intro read_number_print) simp_all
  moreover have "read_ipv4 (print_number 16 (unat g) @ ?t) = None"
    by (rule read_ipv4_no_dot) (use assms(2) in auto)
  moreover have "read_groups limit 1 (n - 1) ?t = (hs, False, s)"
    using assms Cons by (intro read_groups_tail) auto
  ultimately show ?thesis
    using assms(3) Cons
    by (cases n) (auto simp: read_separator_def print_groups_def sep_by_Cons comp_def)
qed (use assms(1) in \<open>simp add: print_groups_def read_groups_end\<close>)

text \<open>The run the printer elides lies inside the address and holds only zeros.\<close>

definition zero_run :: "16 word list \<Rightarrow> nat \<times> nat \<Rightarrow> bool" where
  "zero_run gs run \<longleftrightarrow>
     fst run + snd run \<le> length gs \<and> (\<forall>j. fst run \<le> j \<and> j < fst run + snd run \<longrightarrow> gs ! j = 0)"

lemma zero_span_run:
  assumes "zero_run (ps @ gs) longest" "zero_run ps cur" "snd cur = 0 \<or> fst cur + snd cur = length ps"
  shows "zero_run (ps @ gs) (zero_span (length ps) cur longest gs)"
  using assms
proof (induction gs arbitrary: ps cur longest)
  case (Cons g gs)
  show ?case
  proof (cases "g = 0")
    case True
    define cur2 where "cur2 = (if snd cur = 0 then length ps else fst cur, snd cur + 1)"
    have run: "zero_run (ps @ [g]) cur2" "fst cur2 + snd cur2 = length (ps @ [g])"
      using Cons.prems(2,3) True by (auto simp: zero_run_def cur2_def nth_append)
    then have "zero_run (ps @ g # gs) cur2"
      by (auto simp: zero_run_def nth_append)
    moreover have "zero_span (length ps) cur longest (g # gs) =
        zero_span (length (ps @ [g])) cur2 (if snd cur2 > snd longest then cur2 else longest) gs"
      using True by (simp add: cur2_def Let_def)
    ultimately show ?thesis
      using Cons.IH [of "ps @ [g]" "if snd cur2 > snd longest then cur2 else longest" cur2]
        Cons.prems(1) run by (simp split: if_splits)
  next
    case False
    have "zero_run (ps @ [g]) (0, 0)" by (simp add: zero_run_def)
    then show ?thesis
      using Cons.IH [of "ps @ [g]" longest "(0, 0)"] Cons.prems(1) False by simp
  qed
qed (simp add: zero_run_def)

lemma zero_span_ok: "zero_run gs (zero_span 0 (0, 0) (0, 0) gs)"
  using zero_span_run [of "[]" gs "(0, 0)" "(0, 0)"] by (simp add: zero_run_def)

lemma zero_run_split:
  assumes "zero_run gs (start, len)"
  shows "take start gs @ replicate len 0 @ drop (start + len) gs = gs"
proof (rule nth_equalityI)
  show "length (take start gs @ replicate len 0 @ drop (start + len) gs) = length gs"
    using assms by (auto simp: zero_run_def)
next
  fix i
  assume "i < length (take start gs @ replicate len 0 @ drop (start + len) gs)"
  then show "(take start gs @ replicate len 0 @ drop (start + len) gs) ! i = gs ! i"
    using assms by (auto simp: zero_run_def nth_append min_def)
qed

lemma group_end_simps [simp]: "group_end []" "group_end (CHR '':'' # CHR '':'' # r)"
  by (auto simp: group_end_def)

lemma no_dot_groups [simp]: "CHR ''.'' \<notin> set (print_groups gs)"
  by (cases gs) (auto simp: print_groups_def sep_by_Cons)

lemma read_ipv6_print:
  assumes "length gs = 8" "to_ipv4_mapped gs = None"
  shows "read_ipv6 (print_v6 gs) = Some (gs, []) \<and> CHR ''.'' \<notin> set (print_v6 gs)"
proof (cases "zero_span 0 (0, 0) (0, 0) gs")
  case (Pair start len)
  let ?h = "take start gs" and ?t = "drop (start + len) gs"
  have run: "zero_run gs (start, len)"
    using zero_span_ok [of gs] Pair by simp
  show ?thesis
  proof (cases "len > 1")
    case True
    have l: "start + len \<le> 8" using run assms by (simp add: zero_run_def)
    have "read_groups 8 0 8 (print_groups ?h @ ''::'' @ print_groups ?t)
          = (?h, False, ''::'' @ print_groups ?t)"
      by (rule read_groups_print) (use l in auto)
    moreover have "read_groups (7 - start) 0 (7 - start) (print_groups ?t @ []) = (?t, False, [])"
      by (rule read_groups_print) (use l True assms in auto)
    ultimately show ?thesis
      using l True assms zero_run_split [OF run]
      by (simp add: read_ipv6_def print_v6_def Pair min_def)
  next
    case False
    then show ?thesis
      using read_groups_print [of "[]" gs 8 8] assms by (simp add: read_ipv6_def print_v6_def Pair)
  qed
qed

lemma group_halves [simp]: "group_join (group_high g) (group_low g) = g"
  by (rule bit_word_eqI)
     (auto simp: group_join_def group_high_def group_low_def bit_simps)

lemma to_ipv4_mapped_SomeD:
  "to_ipv4_mapped gs = Some ip \<Longrightarrow>
   \<exists>g h. gs = [0, 0, 0, 0, 0, 0xFFFF, g, h] \<and>
         ip = V4 (group_high g) (group_low g) (group_high h) (group_low h)"
  by (auto simp: to_ipv4_mapped_def split: list.splits if_splits)

lemma read_number_ffff:
  "read_number 16 4 True 65535 (''ffff:'' @ s) = Some (65535, CHR '':'' # s)"
proof -
  have "print_number 16 65535 = ''ffff''"
    by (simp add: print_number.simps digit_char_def char_of_def bit_0)
  then show ?thesis
    using read_number_print [of 16 65535 65535 4 "CHR '':'' # s" True] by simp
qed

lemma read_ipv4_ffff: "read_ipv4 (''ffff:'' @ s) = None"
  by (rule read_ipv4_no_digit) (simp add: stops_def is_digit_def digit_value_def)

lemma read_ipv6_mapped:
  assumes "gs = [0, 0, 0, 0, 0, 0xFFFF, g, h]"
  shows "read_ipv6 (''::ffff:'' @ print_v4 [group_high g, group_low g, group_high h, group_low h])
         = Some (gs, [])"
proof -
  let ?v = "print_v4 [group_high g, group_low g, group_high h, group_low h]"
  have "read_groups 7 1 6 (CHR '':'' # ?v) = ([g, h], True, [])"
    using read_ipv4_print [of "[]" "group_high g" "group_low g" "group_high h" "group_low h"]
    by (simp add: eval_nat_numeral read_separator_def)
  then have "read_groups 7 0 7 (''ffff:'' @ ?v) = ([0xFFFF, g, h], True, [])"
    using read_ipv4_ffff [of ?v] read_number_ffff [of ?v] read_groups.simps(2) [of 7 0 6 "''ffff:'' @ ?v"]
    by (simp add: read_separator_def)
  moreover have "replicate 5 (0 :: 16 word) = [0, 0, 0, 0, 0]"
    by (simp add: numeral_eq_Suc)
  ultimately show ?thesis
    using assms by (simp add: read_ipv6_def read_groups_end)
qed

lemma parse_ip_print: "ip_wf ip \<Longrightarrow> parse_ip (print_ip ip) = Some ip"
proof (cases ip)
  case (V4 a b c d)
  then show ?thesis
    using read_ipv4_print [of "[]" a b c d]
    by (simp add: parse_ip_def parse_all_def read_ip_addr_def v4_of_def)
next
  case (V6 gs)
  assume "ip_wf ip"
  then have len: "length gs = 8" using V6 by simp
  show ?thesis
  proof (cases "to_ipv4_mapped gs")
    case None
    then show ?thesis
      using V6 read_ipv6_print [OF len None]
      by (simp add: parse_ip_def parse_all_def read_ip_addr_def read_ipv4_no_dot)
  next
    case (Some m)
    then obtain g h where gs: "gs = [0, 0, 0, 0, 0, 0xFFFF, g, h]"
      and m: "m = V4 (group_high g) (group_low g) (group_high h) (group_low h)"
      using to_ipv4_mapped_SomeD by blast
    have "read_ipv4 (print_v6 gs) = None"
      using Some m by (simp add: print_v6_def read_ipv4_no_digit)
    then show ?thesis
      using V6 Some m read_ipv6_mapped [OF gs]
      by (simp add: parse_ip_def parse_all_def read_ip_addr_def print_v6_def)
  qed
qed

lemma read_groups_length:
  "i + n = limit \<Longrightarrow> read_groups limit i n s = (gs, f, r) \<Longrightarrow> length gs \<le> n"
proof (induction limit i n s arbitrary: gs f r rule: read_groups.induct)
  case (2 limit i n s)
  show ?case
  proof (cases "if i < limit - 1 then read_separator CHR '':'' i read_ipv4 s else None")
    case None
    then show ?thesis
      using 2 by (fastforce split: option.splits prod.splits)
  next
    case (Some p)
    then show ?thesis
      using 2(2,3) by (cases p) (auto split: if_splits)
  qed
qed simp

lemma read_ipv6_length: "read_ipv6 s = Some (gs, r) \<Longrightarrow> length gs = 8"
  by (auto simp: read_ipv6_def Let_def split: prod.splits if_splits list.splits
           dest!: read_groups_length [rotated])

lemma parse_ip_wf: "parse_ip s = Some ip \<Longrightarrow> ip_wf ip"
  by (auto simp: parse_ip_def parse_all_def read_ip_addr_def v4_of_def
           split: option.splits list.splits dest!: read_ipv6_length)

lemma ipv4_mapped_V4: "to_ipv4_mapped gs = Some ip \<Longrightarrow> \<exists>a b c d. ip = V4 a b c d"
  using to_ipv4_mapped_SomeD by blast

lemma to_canonical_idem [simp]: "to_canonical (to_canonical ip) = to_canonical ip"
  by (cases ip) (auto dest!: ipv4_mapped_V4 split: option.splits)

lemma to_canonical_wf: "ip_wf ip \<Longrightarrow> ip_wf (to_canonical ip)"
  by (cases ip) (auto dest!: ipv4_mapped_V4 split: option.splits)

lemma to_canonical_V6: "to_canonical ip = V6 gs \<Longrightarrow> to_ipv4_mapped gs = None"
  by (cases ip) (auto dest!: ipv4_mapped_V4 split: option.splits)

section \<open>Printed addresses\<close>

lemma print_byte_length: "length (print_number 10 (unat (v :: byte))) \<le> 3"
  by (rule print_number_length) simp_all

lemma print_group_length: "length (print_number 16 (unat (g :: 16 word))) \<le> 4"
  by (rule print_number_length) simp_all

lemma print_groups_length: "length (print_groups gs) \<le> 5 * length gs"
proof (cases gs)
  case (Cons g hs)
  have "length (colon_groups hs) \<le> 5 * length hs"
    by (induction hs) (use print_group_length in \<open>auto simp: add_mono intro: order_trans\<close>)
  then show ?thesis
    using Cons print_group_length [of g] by (simp add: print_groups_def sep_by_Cons comp_def)
qed (simp add: print_groups_def)

lemma print_groups_chars: "c \<in> set (print_groups gs) \<Longrightarrow> is_digit 16 c \<or> c = CHR '':''"
  using print_number_digits [of 16 c] by (cases gs) (auto simp: print_groups_def sep_by_Cons split: if_splits)

lemma print_v4_chars: "c \<in> set (print_v4 vs) \<Longrightarrow> is_digit 10 c \<or> c = CHR ''.''"
  using print_number_digits [of 10 c] by (cases vs) (auto simp: print_v4_def sep_by_Cons split: if_splits)

lemma print_v4_length: "length (print_v4 [a, b, c, d]) \<le> 15" "3 \<le> length (print_v4 [a, b, c, d])"
  using print_byte_length [of a] print_byte_length [of b] print_byte_length [of c]
    print_byte_length [of d]
  by (simp_all add: print_v4_def)

lemma print_v6_shape:
  assumes "length gs = 8" "to_ipv4_mapped gs = None"
  shows "length (print_v6 gs) \<le> 40" "CHR '':'' \<in> set (print_v6 gs)"
    "c \<in> set (print_v6 gs) \<Longrightarrow> is_digit 16 c \<or> c = CHR '':''"
proof -
  obtain start len where span: "zero_span 0 (0, 0) (0, 0) gs = (start, len)" by force
  have "start + len \<le> 8"
    using zero_span_ok [of gs] span assms by (simp add: zero_run_def)
  then show "length (print_v6 gs) \<le> 40"
    using assms print_groups_length [of "take start gs"] print_groups_length [of gs]
      print_groups_length [of "drop (start + len) gs"]
    by (auto simp: print_v6_def span)
  obtain g h hs where "gs = g # h # hs" using assms by (cases gs; cases "tl gs") auto
  then have "CHR '':'' \<in> set (print_groups gs)" by (simp add: print_groups_def)
  then show "CHR '':'' \<in> set (print_v6 gs)" using assms by (simp add: print_v6_def span)
  show "is_digit 16 c \<or> c = CHR '':''" if "c \<in> set (print_v6 gs)"
    using that assms print_groups_chars by (auto simp: print_v6_def span split: if_splits)
qed

section \<open>Destinations survive printing and parsing\<close>

lemma parse_ip_no_colon:
  assumes "parse_ip s = Some ip" "CHR '':'' \<notin> set s"
  shows "list_all (\<lambda>c. is_digit 10 c \<or> c = CHR ''.'') s"
proof -
  have oct: "\<exists>p. t = p @ r \<and> list_all (\<lambda>c. is_digit 10 c \<or> c = CHR ''.'') p"
    if "read_octets i n t = Some (vs, r)" for i n t vs r
    using that
  proof (induction i n t arbitrary: vs r rule: read_octets.induct)
    case (2 i n t)
    then obtain v u ws where v: "read_separator CHR ''.'' i (read_number 10 3 False 255) t = Some (v, u)"
      and w: "read_octets (Suc i) n u = Some (ws, r)"
      by (auto split: option.splits prod.splits)
    obtain p where "u = p @ r" "list_all (\<lambda>c. is_digit 10 c \<or> c = CHR ''.'') p"
      using 2(1) [OF v refl w] by blast
    moreover obtain q where "t = q @ u" "list_all (\<lambda>c. is_digit 10 c \<or> c = CHR ''.'') q"
      using v by (auto simp: read_separator_def list_all_iff split: if_splits list.splits
          dest!: read_number_rest intro: that [of "CHR ''.'' # _"])
    ultimately show ?case by (intro exI [of _ "q @ p"]) simp
  qed simp
  have grp: "length gs \<le> 2 \<and> CHR '':'' \<notin> set r"
    if "read_groups 8 0 8 s = (gs, f, r)" for gs f r
  proof -
    have stop: "read_groups 8 1 7 t = ([], False, t)" if "CHR '':'' \<notin> set t" for t
      using that read_groups.simps(2) [of 8 1 6 t] by (cases t) (auto simp: read_separator_def)
    have step: "read_groups 8 0 8 s =
        (case read_ipv4 s of
           Some (vs, r) \<Rightarrow> ([group_join (vs ! 0) (vs ! 1), group_join (vs ! 2) (vs ! 3)], True, r)
         | None \<Rightarrow> (case read_number 16 4 True 65535 s of
                     None \<Rightarrow> ([], False, s)
                   | Some (g, r) \<Rightarrow>
                       (case read_groups 8 1 7 r of (gs, f, r2) \<Rightarrow> (of_nat g # gs, f, r2))))"
      using read_groups.simps(2) [of 8 0 7 s] by (simp add: read_separator_def cong: option.case_cong)
    show ?thesis
    proof (cases "read_ipv4 s")
      case (Some p)
      then obtain vs u where p: "read_ipv4 s = Some (vs, u)" by (cases p) auto
      then obtain q where "s = q @ u" using oct [of 0 4 s vs u] by (auto simp: read_ipv4_def)
      then show ?thesis using that assms(2) p step by auto
    next
      case None
      then show ?thesis
      proof (cases "read_number 16 4 True 65535 s")
        case (Some p)
        then obtain g u where p: "read_number 16 4 True 65535 s = Some (g, u)" by (cases p) auto
        then have "CHR '':'' \<notin> set u" using read_number_rest [OF p] assms(2) by auto
        then show ?thesis using that None p step stop [of u] by auto
      qed (use that None step assms(2) in auto)
    qed
  qed
  have "read_ipv6 s = None"
    using grp by (fastforce simp: read_ipv6_def split: prod.splits list.splits)
  then show ?thesis
    using assms(1)
    by (fastforce simp: parse_ip_def parse_all_def read_ip_addr_def read_ipv4_def
        split: option.splits list.splits dest!: oct)
qed

lemma of_char_less: "of_char (c :: char) < (256 :: nat)"
  by (cases c) (simp add: of_char_def horner_sum_simps split: if_splits)

lemma char_code_eq: "c = d \<longleftrightarrow> of_char c = (of_char d :: nat)"
  by (metis char_of_char)

lemma ascii_lower_idem [simp]: "ascii_lower (ascii_lower c) = ascii_lower c"
  by (auto simp: ascii_lower_def Let_def)

lemma ascii_lower_alnum [simp]: "is_alnum c \<Longrightarrow> is_alnum (ascii_lower c)"
  by (auto simp: ascii_lower_def is_alnum_def digit_value_def Let_def split: if_splits)

lemma ascii_lower_digit [simp]: "is_digit 10 (ascii_lower c) = is_digit 10 c"
  by (auto simp: ascii_lower_def is_digit_def digit_value_def Let_def)

lemma ascii_lower_punct [simp]:
  "(ascii_lower c = CHR ''.'') = (c = CHR ''.'')" "(ascii_lower c = CHR ''-'') = (c = CHR ''-'')"
  "(ascii_lower c = CHR ''_'') = (c = CHR ''_'')"
  by (auto simp: ascii_lower_def Let_def char_code_eq)

lemma split_on_map: "split_on p (map f s) = map (map f) (split_on (\<lambda>c. p (f c)) s)"
  by (induction s) (auto split: list.splits)

lemma trim_end_lower: "trim_end CHR ''.'' (map ascii_lower h) = map ascii_lower (trim_end CHR ''.'' h)"
  by (simp add: trim_end_def rev_map dropWhile_map comp_def)

lemma dots_lower: "suffix ''..'' (map ascii_lower h) \<longleftrightarrow> suffix ''..'' h"
proof -
  have "(CHR ''.'' = ascii_lower c) = (c = CHR ''.'')" for c
    using ascii_lower_punct(1) [of c] by metis
  then have "prefix ''..'' (map ascii_lower s) \<longleftrightarrow> prefix ''..'' s" for s
    by (cases s; cases "tl s") auto
  then show ?thesis by (simp add: suffix_to_prefix rev_map)
qed

lemma hostname_ok_lower: "hostname_ok h \<Longrightarrow> hostname_ok (map ascii_lower h)"
  by (auto simp: hostname_ok_def trim_end_lower split_on_map dots_lower list_all_iff)

lemma hostname_ok_chars:
  "hostname_ok h \<Longrightarrow> CHR '':'' \<notin> set h \<and> CHR ''['' \<notin> set h"
  by (auto simp: hostname_ok_def list_all_iff is_alnum_def digit_value_def)

definition root_dot :: "string \<Rightarrow> string" where
  "root_dot host = (case strip_last CHR ''.'' host of Some h \<Rightarrow> h | None \<Rightarrow> host)"

lemma root_dot_length: "length (root_dot h) \<le> length h" "length h \<le> length (root_dot h) + 1"
  by (auto simp: root_dot_def strip_last_def split: option.splits)

lemma root_dot_lower: "root_dot (map ascii_lower h) = map ascii_lower (root_dot h)"
  by (auto simp: root_dot_def strip_last_def map_butlast last_map)

text \<open>The host a destination holds is one that \<open>new\<close> accepts and leaves as it is.\<close>

lemma tcp_target_new_cases:
  assumes "tcp_target_new host port = Inr t"
  obtains (Ip) ip where "port \<noteq> 0" "ip_wf ip" "to_canonical ip = ip"
      "\<not> (is_unspecified ip \<or> is_multicast ip \<or> is_broadcast ip)"
      "t = \<lparr>tt_host = print_ip ip, tt_port = port\<rparr>"
  | (Name) "port \<noteq> 0" "root_dot host \<noteq> []" "length (root_dot host) \<le> 253" "hostname_ok host"
      "t = \<lparr>tt_host = map ascii_lower host, tt_port = port\<rparr>"
proof (cases "parse_ip host")
  case None
  then show ?thesis
    using assms by (intro Name) (auto simp: tcp_target_new_def root_dot_def Let_def res_simps)
next
  case (Some ip)
  then show ?thesis
    using assms by (intro Ip [of "to_canonical ip"])
      (auto simp: tcp_target_new_def Let_def res_simps intro: to_canonical_wf parse_ip_wf)
qed

lemma print_ip_shape:
  assumes "ip_wf ip" "to_canonical ip = ip"
  shows "length (print_ip ip) \<le> 40" "root_dot (print_ip ip) \<noteq> []"
    "CHR '']'' \<notin> set (print_ip ip)" "CHR ''['' \<notin> set (print_ip ip)"
    "CHR '':'' \<in> set (print_ip ip) \<longleftrightarrow> (\<exists>gs. ip = V6 gs)"
proof -
  have "length (print_ip ip) \<le> 40 \<and> CHR '']'' \<notin> set (print_ip ip) \<and> CHR ''['' \<notin> set (print_ip ip) \<and>
    (CHR '':'' \<in> set (print_ip ip) \<longleftrightarrow> (\<exists>gs. ip = V6 gs))"
  proof (cases ip)
    case (V4 a b c d)
    note v4 = print_v4_chars [of _ "[a, b, c, d]"]
    show ?thesis
      using V4 print_v4_length(1) [of a b c d] v4 [of "CHR '']''"] v4 [of "CHR ''[''"] v4 [of "CHR '':''"]
      by auto
  next
    case (V6 gs)
    then have m: "length gs = 8" "to_ipv4_mapped gs = None" using assms to_canonical_V6 [of ip gs] by simp_all
    show ?thesis
      using V6 print_v6_shape(1,2) [OF m] print_v6_shape(3) [OF m, of "CHR '']''"]
        print_v6_shape(3) [OF m, of "CHR ''[''"] by auto
  qed
  then show "length (print_ip ip) \<le> 40" "CHR '']'' \<notin> set (print_ip ip)" "CHR ''['' \<notin> set (print_ip ip)"
    "CHR '':'' \<in> set (print_ip ip) \<longleftrightarrow> (\<exists>gs. ip = V6 gs)" by blast+
  show "root_dot (print_ip ip) \<noteq> []"
  proof (cases ip)
    case (V4 a b c d)
    then show ?thesis using print_v4_length(2) [of a b c d] root_dot_length(2) [of "print_ip ip"] by auto
  next
    case (V6 gs)
    then have "to_ipv4_mapped gs = None" "length gs = 8" using assms to_canonical_V6 [of ip gs] by simp_all
    then have "CHR ''.'' \<notin> set (print_ip ip)" "print_ip ip \<noteq> []"
      using V6 read_ipv6_print [of gs] print_v6_shape(2) [of gs] by auto
    then show ?thesis
      using last_in_set [of "print_ip ip"] by (cases "last (print_ip ip) = CHR ''.''")
        (simp_all add: root_dot_def strip_last_def)
  qed
qed

lemma tcp_target_new_stable:
  assumes "tcp_target_new host port = Inr t"
  shows "tcp_target_new (tt_host t) port = Inr t"
  using assms
proof (cases rule: tcp_target_new_cases)
  case (Ip ip)
  note shape = print_ip_shape [OF Ip(2,3)]
  have "length (root_dot (print_ip ip)) \<le> 253"
    using shape(1) root_dot_length(1) [of "print_ip ip"] by simp
  then show ?thesis
    using Ip shape(2) parse_ip_print [OF Ip(2)]
    by (simp add: tcp_target_new_def root_dot_def [symmetric] Let_def)
next
  case Name
  have "parse_ip (map ascii_lower host) = None"
  proof (rule ccontr)
    assume "parse_ip (map ascii_lower host) \<noteq> None"
    then show False
      using parse_ip_no_colon hostname_ok_chars [OF hostname_ok_lower [OF Name(4)]]
        hostname_ok_lower [OF Name(4)] by (auto simp: hostname_ok_def)
  qed
  then show ?thesis
    using Name hostname_ok_lower [OF Name(4)]
    by (simp add: tcp_target_new_def root_dot_def [symmetric] Let_def root_dot_lower comp_def)
qed

lemma tcp_target_roundtrip_lemma:
  assumes t: "tcp_target_new host port = Inr t" and port: "port \<le> 65535"
  shows "tcp_target_from_str (tcp_target_to_string t) = Inr t"
proof -
  let ?p = "print_number 10 port"
  have digits: "list_all (is_digit 10) ?p" "digits_value 10 ?p = port" "length ?p \<le> 5"
    using print_number_digits [of 10 _ port] port print_number_length [of 10 port 5]
    by (auto simp: list_all_iff)
  then have colon: "CHR '':'' \<notin> set ?p" by (auto simp: list_all_iff)
  have "split_target (tcp_target_to_string t) = Inr (tt_host t, ?p)
        \<and> length (tcp_target_to_string t) \<le> 261"
    using t
  proof (cases rule: tcp_target_new_cases)
    case (Ip ip)
    note shape = print_ip_shape [OF Ip(2,3)]
    show ?thesis
    proof (cases ip)
      case (V4 a b c d)
      then obtain x xs where "print_ip ip = x # xs" "x \<noteq> CHR ''[''"
        using shape(4) print_v4_length(2) [of a b c d] by (cases "print_ip ip") auto
      then show ?thesis
        using Ip V4 shape(1,5) digits(3) colon rsplit_once_append [of "CHR '':''" ?p "print_ip ip"]
        by (auto simp: split_target_def tcp_target_to_string_def)
    next
      case (V6 gs)
      then have "parse_ipv6 (print_ip ip) = Some gs"
        using Ip(2) read_ipv6_print [of gs] to_canonical_V6 [of ip gs] Ip(3)
        by (simp add: parse_ipv6_def parse_all_def)
      then show ?thesis
        using Ip V6 shape(1,3,5) digits(3) by (auto simp: split_target_def tcp_target_to_string_def)
    qed
  next
    case Name
    note h = hostname_ok_chars [OF hostname_ok_lower [OF Name(4)]]
    obtain x xs where "map ascii_lower host = x # xs" "x \<noteq> CHR ''[''"
      using h Name(2) root_dot_length(1) [of host] by (cases "map ascii_lower host") auto
    then show ?thesis
      using Name h digits(3) colon root_dot_length(2) [of host]
        rsplit_once_append [of "CHR '':''" ?p "map ascii_lower host"]
      by (auto simp: split_target_def tcp_target_to_string_def)
  qed
  moreover have "tt_port t = port"
    using t by (cases rule: tcp_target_new_cases) auto
  ultimately show ?thesis
    using digits port tcp_target_new_stable [OF t] by (simp add: tcp_target_from_str_def)
qed

text \<open>
  C38. A TCP destination that \<open>TcpTarget::new\<close> accepts (any host, a 16-bit port) prints to a text
  that \<open>FromStr\<close> parses back to the very same destination, for host names, IPv4 and IPv6
  addresses alike.
\<close>

theorem tcp_target_roundtrip:
  "tcp_target_new host port = Inr t \<Longrightarrow> port \<le> 65535 \<Longrightarrow>
   tcp_target_from_str (tcp_target_to_string t) = Inr t"
  by (rule tcp_target_roundtrip_lemma)

lemma tcp_target_localhost:
  "tcp_target_new ''LocalHost'' 80 = Inr \<lparr>tt_host = ''localhost'', tt_port = 80\<rparr>"
proof -
  have "parse_ip ''LocalHost'' = None"
    using parse_ip_no_colon [of "''LocalHost''"]
    by (cases "parse_ip ''LocalHost''") (auto simp: is_digit_def digit_value_def)
  then show ?thesis
    by (simp add: tcp_target_new_def strip_last_def hostname_ok_def is_alnum_def is_digit_def
        digit_value_def trim_end_def suffix_def ascii_lower_def char_of_def bit_0)
qed

theorem tcp_target_roundtrip_witness:
  "tcp_target_new ''LocalHost'' 80 = Inr \<lparr>tt_host = ''localhost'', tt_port = 80\<rparr> \<and>
   tcp_target_from_str (tcp_target_to_string \<lparr>tt_host = ''localhost'', tt_port = 80\<rparr>)
     = Inr \<lparr>tt_host = ''localhost'', tt_port = 80\<rparr>"
  using tcp_target_roundtrip [OF tcp_target_localhost] tcp_target_localhost by simp

end
