(* ===== verification/Rds_Clock.thy ===== *)
theory Rds_Clock
  imports Rds_Identity
begin

text \<open>
  Leases on signed data (\<open>rds-discovery/src/clock.rs\<close>): a lease is accepted at one
  reading of the wall clock and of the operating system's continuous clock, and is
  usable only while both stay inside the interval fixed at acceptance. The lemmas say
  how long a lease lasts, exactly, and that nothing after acceptance prolongs it.
\<close>

section \<open>Readings and leases\<close>

record reading =
  r_boot :: bytes
  r_wall :: duration
  r_continuous :: duration

record lease =
  l_boot :: bytes
  l_issued_at :: u64
  l_expires_at :: u64
  l_accepted_wall :: duration
  l_accepted_continuous :: duration
  l_deadline :: duration

text \<open>
  \<open>Reading::sample\<close>: \<open>sec\<close> and \<open>nsec\<close> are what \<open>clock_gettime\<close> reported, \<open>wall\<close> is
  \<open>None\<close> when the system time precedes the epoch.
\<close>

definition sample ::
  "(string, bytes) result \<Rightarrow> int \<Rightarrow> int \<Rightarrow> duration option \<Rightarrow> (discovery_error, reading) result" where
  "sample boot sec nsec wall =
     rbind (ensure (0 \<le> sec) (invalid ''negative monotonic clock'')) (\<lambda>_.
     rbind (ensure (0 \<le> nsec \<and> nsec < 2 ^ 32) (invalid ''invalid monotonic clock'')) (\<lambda>_.
     rbind (ensure (nsec < 1000000000) (invalid ''invalid monotonic clock'')) (\<lambda>_.
     rbind (ok_or (invalid ''clock before epoch'') wall) (\<lambda>w.
     rbind (map_err invalid boot) (\<lambda>b.
     Inr \<lparr>r_boot = b, r_wall = w, r_continuous = from_secs (nat sec) + nat nsec\<rparr>)))))"

definition lease_new :: "u64 \<Rightarrow> u64 \<Rightarrow> reading \<Rightarrow> (discovery_error, lease) result" where
  "lease_new issued expires now =
     rbind (ensure (\<not> issued > as_secs (r_wall now)) (invalid ''signed data is from the future'')) (\<lambda>_.
     rbind (ok_or Expired
             (case dur_checked_sub (from_secs expires) (r_wall now) of
                None \<Rightarrow> None | Some d \<Rightarrow> if d = 0 then None else Some d)) (\<lambda>remaining.
     rbind (ok_or (invalid ''signed-data deadline overflow'')
             (dur_checked_add (r_continuous now) remaining)) (\<lambda>deadline.
     Inr \<lparr>l_boot = r_boot now, l_issued_at = issued, l_expires_at = expires,
          l_accepted_wall = r_wall now, l_accepted_continuous = r_continuous now,
          l_deadline = deadline\<rparr>)))"

definition valid_at :: "lease \<Rightarrow> reading \<Rightarrow> bool" where
  "valid_at l now \<longleftrightarrow>
     r_boot now = l_boot l
     \<and> r_wall now \<ge> l_accepted_wall l
     \<and> as_secs (r_wall now) \<ge> l_issued_at l
     \<and> as_secs (r_wall now) < l_expires_at l
     \<and> r_continuous now \<ge> l_accepted_continuous l
     \<and> r_continuous now < l_deadline l"

text \<open>The two subtractions of \<open>remaining_at\<close> panic below zero; \<open>None\<close> is that panic.\<close>

definition remaining_at :: "lease \<Rightarrow> reading \<Rightarrow> duration option" where
  "remaining_at l now =
     (if \<not> valid_at l now then Some 0
      else case dur_checked_sub (from_secs (l_expires_at l)) (r_wall now) of
             None \<Rightarrow> None
           | Some w \<Rightarrow>
               (case dur_checked_sub (l_deadline l) (r_continuous now) of
                  None \<Rightarrow> None | Some c \<Rightarrow> Some (min w c)))"

definition matches_interval :: "lease \<Rightarrow> u64 \<Rightarrow> u64 \<Rightarrow> bool" where
  "matches_interval l issued expires \<longleftrightarrow>
     l_issued_at l = issued
     \<and> l_expires_at l = expires
     \<and> as_secs (l_accepted_wall l) \<ge> issued
     \<and> as_secs (l_accepted_wall l) < expires
     \<and> dur_checked_sub (l_deadline l) (l_accepted_continuous l)
         = dur_checked_sub (from_secs expires) (l_accepted_wall l)"

section \<open>Acceptance\<close>

lemma lease_new_Inr_iff:
  "lease_new issued expires now = Inr l \<longleftrightarrow>
     issued \<le> as_secs (r_wall now) \<and> r_wall now < from_secs expires \<and>
     r_continuous now + (from_secs expires - r_wall now) \<le> dur_max \<and>
     l = \<lparr>l_boot = r_boot now, l_issued_at = issued, l_expires_at = expires,
          l_accepted_wall = r_wall now, l_accepted_continuous = r_continuous now,
          l_deadline = r_continuous now + (from_secs expires - r_wall now)\<rparr>"
  by (auto simp: lease_new_def res_simps dur_checked_sub_def not_less split: option.splits if_splits)

lemma lease_new_Inr_fields:
  assumes "lease_new issued expires now = Inr l"
  shows "l_boot l = r_boot now" "l_issued_at l = issued" "l_expires_at l = expires"
    "l_accepted_wall l = r_wall now" "l_accepted_continuous l = r_continuous now"
    "l_deadline l = r_continuous now + (from_secs expires - r_wall now)"
    "issued \<le> as_secs (r_wall now)" "r_wall now < from_secs expires"
  using assms by (simp_all add: lease_new_Inr_iff)

lemma lease_new_valid: "lease_new issued expires now = Inr l \<Longrightarrow> valid_at l now"
  by (auto simp: lease_new_Inr_iff valid_at_def as_secs_less_iff)

lemma lease_new_matches: "lease_new issued expires now = Inr l \<Longrightarrow> matches_interval l issued expires"
  by (auto simp: lease_new_Inr_iff matches_interval_def as_secs_less_iff dur_checked_sub_def)

text \<open>The deadline of a lease that agrees with its signed interval is the exact difference.\<close>

lemma matches_interval_deadline:
  assumes "matches_interval l issued expires"
  shows "l_deadline l = l_accepted_continuous l + (from_secs expires - l_accepted_wall l)"
    and "l_accepted_wall l < from_secs expires"
  using assms
  by (auto simp: matches_interval_def as_secs_less_iff dur_checked_sub_def split: if_splits)

section \<open>How long a lease lasts\<close>

text \<open>A later reading on the same boot: both clocks advanced by \<open>w\<close> and \<open>c\<close>.\<close>

definition advance :: "reading \<Rightarrow> duration \<Rightarrow> duration \<Rightarrow> reading" where
  "advance now w c = now\<lparr>r_wall := r_wall now + w, r_continuous := r_continuous now + c\<rparr>"

lemma advance_simps [simp]:
  "r_boot (advance now w c) = r_boot now"
  "r_wall (advance now w c) = r_wall now + w"
  "r_continuous (advance now w c) = r_continuous now + c"
  by (simp_all add: advance_def)

lemma remaining_at_valid:
  "valid_at l now \<Longrightarrow>
     remaining_at l now = Some (min (from_secs (l_expires_at l) - r_wall now)
                                    (l_deadline l - r_continuous now))"
  by (auto simp: remaining_at_def valid_at_def as_secs_less_iff dur_checked_sub_def)

lemma remaining_at_invalid: "\<not> valid_at l now \<Longrightarrow> remaining_at l now = Some 0"
  by (simp add: remaining_at_def)

lemma valid_at_advance_iff:
  assumes "valid_at l now"
  shows "valid_at l (advance now w c) \<longleftrightarrow>
           r_wall now + w < from_secs (l_expires_at l) \<and> r_continuous now + c < l_deadline l"
proof -
  have "l_issued_at l \<le> as_secs (r_wall now + w)"
    using assms as_secs_mono [of "r_wall now" "r_wall now + w"] by (simp add: valid_at_def)
  with assms show ?thesis
    by (auto simp: valid_at_def as_secs_less_iff)
qed

text \<open>
  The remaining time of a lease is exact and its computation never panics: for a
  valid lease and any common advance \<open>d\<close> of both clocks, the lease is still valid after
  \<open>d\<close> if and only if \<open>d\<close> is below the reported remainder; a lease that is not valid
  reports zero.
\<close>

theorem remaining_at_exact:
  "\<exists>r. remaining_at l now = Some r \<and> (0 < r \<longleftrightarrow> valid_at l now) \<and>
       (valid_at l now \<longrightarrow> (\<forall>d. valid_at l (advance now d d) \<longleftrightarrow> d < r))"
proof (cases "valid_at l now")
  case True
  then have "r_wall now < from_secs (l_expires_at l)" "r_continuous now < l_deadline l"
    by (auto simp: valid_at_def as_secs_less_iff)
  then show ?thesis
    using True by (auto simp: remaining_at_valid valid_at_advance_iff)
next
  case False
  then show ?thesis by (simp add: remaining_at_invalid)
qed

definition reading0 :: reading where
  "reading0 = \<lparr>r_boot = replicate 16 3, r_wall = from_secs 1000, r_continuous = from_secs 10\<rparr>"

definition lease0 :: lease where
  "lease0 = \<lparr>l_boot = replicate 16 3, l_issued_at = 1000, l_expires_at = 1060,
     l_accepted_wall = from_secs 1000, l_accepted_continuous = from_secs 10,
     l_deadline = from_secs 70\<rparr>"

lemma lease0_new: "lease_new 1000 1060 reading0 = Inr lease0"
  by (simp add: lease_new_Inr_iff lease0_def reading0_def as_secs_def from_secs_def
      nanos_per_sec_def dur_max_def)

lemma lease0_valid: "valid_at lease0 reading0"
  by (rule lease_new_valid [OF lease0_new])

theorem remaining_at_exact_witness:
  "valid_at lease0 reading0 \<and> valid_at lease0 (advance reading0 (from_secs 59) (from_secs 59)) \<and>
   \<not> valid_at lease0 (advance reading0 (from_secs 60) (from_secs 60))"
proof -
  obtain r where r: "remaining_at lease0 reading0 = Some r"
    "valid_at lease0 reading0 \<longrightarrow> (\<forall>d. valid_at lease0 (advance reading0 d d) \<longleftrightarrow> d < r)"
    using remaining_at_exact [of lease0 reading0] by blast
  have "r = from_secs 60"
    using r(1) lease0_valid by (simp add: remaining_at_valid lease0_def reading0_def from_secs_def)
  with r(2) lease0_valid show ?thesis by (simp add: from_secs_def nanos_per_sec_def)
qed

text \<open>
  C29. A lease cannot be prolonged. Whatever the wall clock is later set to, a lease
  accepted for an interval ending at \<open>expires\<close> is valid at a later reading only if that
  reading is from the same boot, its wall time lies in the signed interval and the
  continuous clock has advanced by less than the lifetime that was left at acceptance.
\<close>

theorem lease_never_outlives_interval:
  assumes "lease_new issued expires now = Inr l" and "valid_at l later"
  shows "r_boot later = r_boot now \<and>
         issued \<le> as_secs (r_wall later) \<and> as_secs (r_wall later) < expires \<and>
         r_wall now \<le> r_wall later \<and> r_continuous now \<le> r_continuous later \<and>
         r_continuous later - r_continuous now < from_secs expires - r_wall now"
  using lease_new_Inr_fields [OF assms(1)] assms(2)
  by (auto simp: valid_at_def)

theorem lease_never_outlives_interval_witness:
  "lease_new 1000 1060 reading0 = Inr lease0 \<and> valid_at lease0 (advance reading0 5 7) \<and>
   r_continuous (advance reading0 5 7) - r_continuous reading0 < from_secs 1060 - r_wall reading0"
proof -
  have v: "valid_at lease0 (advance reading0 5 7)"
    by (simp add: valid_at_advance_iff [OF lease0_valid])
      (simp add: lease0_def reading0_def from_secs_def nanos_per_sec_def)
  show ?thesis
    using lease0_new v lease_never_outlives_interval [OF lease0_new v] by simp
qed

text \<open>Once over, a lease stays over while the clocks of one boot do not run backwards.\<close>

lemma valid_at_antimono:
  assumes "valid_at l (advance now w c)" and "l_accepted_wall l \<le> r_wall now"
    and "l_accepted_continuous l \<le> r_continuous now" and "l_issued_at l \<le> as_secs (r_wall now)"
  shows "valid_at l now"
  using assms as_secs_mono [of "r_wall now" "r_wall now + w"]
  by (auto simp: valid_at_def)

end
