(* ===== verification/Rds_Authority.thy ===== *)
theory Rds_Authority
  imports Rds_Clock
begin

text \<open>
  Authorities, snapshot stamps and rotations (\<open>rds-discovery/src/authority.rs\<close>): the
  rules every signed policy stream shares. The lemmas characterise when a signature, a
  stamp, a lifetime and an authority transition are accepted.
\<close>

section \<open>Authorities and stamps\<close>

record authority =
  a_key :: endpoint_key
  a_epoch :: u64

record snapshot_stamp =
  st_authority :: authority
  st_revision :: u64

definition authority_new :: "bytes \<Rightarrow> u64 \<Rightarrow> (discovery_error, authority) result" where
  "authority_new key epoch =
     rbind (ensure (epoch \<noteq> 0) (invalid ''authority epoch must be positive'')) (\<lambda>_.
     Inr \<lparr>a_key = key, a_epoch = epoch\<rparr>)"

definition verifying_key :: "crypto \<Rightarrow> authority \<Rightarrow> (discovery_error, bytes) result" where
  "verifying_key cr a =
     rbind (ensure (a_epoch a \<noteq> 0) (invalid ''authority epoch must be positive'')) (\<lambda>_.
     (case vk_error cr (a_key a) of Some e \<Rightarrow> Inl (invalid e) | None \<Rightarrow> Inr (a_key a)))"

definition stamp_verify :: "snapshot_stamp \<Rightarrow> bytes \<Rightarrow> (discovery_error, unit) result" where
  "stamp_verify st key =
     rbind (ensure (\<not> (st_revision st = 0 \<or> a_epoch (st_authority st) = 0))
             (invalid ''snapshot epoch and revision must be positive'')) (\<lambda>_.
     ensure (a_key (st_authority st) = key) BadSignature)"

definition stamp_new :: "bytes \<Rightarrow> u64 \<Rightarrow> u64 \<Rightarrow> (discovery_error, snapshot_stamp) result" where
  "stamp_new key epoch revision =
     rbind (authority_new key epoch) (\<lambda>a.
     let st = \<lparr>st_authority = a, st_revision = revision\<rparr>
     in rbind (stamp_verify st key) (\<lambda>_. Inr st))"

definition newer_than :: "snapshot_stamp \<Rightarrow> snapshot_stamp \<Rightarrow> (discovery_error, unit) result" where
  "newer_than self previous =
     ensure (\<not> (st_authority self \<noteq> st_authority previous
                \<or> st_revision self \<le> st_revision previous)) Stale"

definition lifetime :: "u64 \<Rightarrow> u64 \<Rightarrow> u64 \<Rightarrow> u64 \<Rightarrow> (discovery_error, unit) result" where
  "lifetime issued expires now max_ttl =
     rbind (ensure (\<not> (issued > now \<or> expires \<le> issued \<or> expires - issued > max_ttl))
             (invalid ''invalid policy validity interval'')) (\<lambda>_.
     ensure (\<not> now \<ge> expires) Expired)"

section \<open>Domain-separated signatures\<close>

definition auth_sign :: "crypto \<Rightarrow> bytes \<Rightarrow> bytes \<Rightarrow> bytes \<Rightarrow> bytes" where
  "auth_sign cr domain payload sk = sk_sign cr sk (domain @ payload)"

definition auth_verify ::
  "crypto \<Rightarrow> bytes \<Rightarrow> bytes \<Rightarrow> bytes \<Rightarrow> bytes \<Rightarrow> usize \<Rightarrow> (discovery_error, unit) result" where
  "auth_verify cr domain payload signature key limit =
     rbind (ensure (\<not> length payload > limit) (invalid ''signed payload exceeds limit'')) (\<lambda>_.
     rbind (ensure (length signature = 64) (invalid ''signature is not 64 bytes'')) (\<lambda>_.
     ensure (verify_strict cr key (domain @ payload) signature) BadSignature))"

section \<open>Rotation receipts\<close>

record signed_rotation =
  rot_payload :: bytes
  rot_previous_signature :: bytes
  rot_next_signature :: bytes

record rotation_payload =
  rp_previous :: authority
  rp_next :: authority
  rp_issued_at :: u64
  rp_expires_at :: u64

definition rotation_domain :: bytes where
  "rotation_domain = str_bytes ''rds/authority-rotation/v1'' @ [0]"

definition max_rotation_ttl :: u64 where
  "max_rotation_ttl = 3600"

definition rotation_verify_at ::
  "crypto \<Rightarrow> rotation_payload codec \<Rightarrow> signed_rotation \<Rightarrow> authority \<Rightarrow> u64 \<Rightarrow>
     (discovery_error, rotation_payload) result" where
  "rotation_verify_at cr cd rot current now =
     rbind (verifying_key cr current) (\<lambda>ck.
     rbind (auth_verify cr rotation_domain (rot_payload rot) (rot_previous_signature rot) ck 1024) (\<lambda>_.
     rbind (map_err invalid (from_bytes cd (rot_payload rot))) (\<lambda>payload.
     rbind (ensure (\<not> (rp_previous payload \<noteq> current
                       \<or> checked_add64 (a_epoch current) 1 \<noteq> Some (a_epoch (rp_next payload))
                       \<or> a_key (rp_next payload) = a_key current))
             (invalid ''invalid authority transition'')) (\<lambda>_.
     rbind (verifying_key cr (rp_next payload)) (\<lambda>nk.
     rbind (auth_verify cr rotation_domain (rot_payload rot) (rot_next_signature rot) nk 1024) (\<lambda>_.
     rbind (lifetime (rp_issued_at payload) (rp_expires_at payload) now max_rotation_ttl) (\<lambda>_.
     Inr payload)))))))"

definition rotation_verify_committed ::
  "crypto \<Rightarrow> rotation_payload codec \<Rightarrow> signed_rotation \<Rightarrow> authority \<Rightarrow>
     (discovery_error, rotation_payload) result" where
  "rotation_verify_committed cr cd rot current =
     rbind (verifying_key cr current) (\<lambda>ck.
     rbind (auth_verify cr rotation_domain (rot_payload rot) (rot_previous_signature rot) ck 1024) (\<lambda>_.
     rbind (map_err invalid (from_bytes cd (rot_payload rot))) (\<lambda>payload.
     rotation_verify_at cr cd rot current (rp_issued_at payload))))"

definition rotation_sign ::
  "crypto \<Rightarrow> rotation_payload codec \<Rightarrow> rotation_payload \<Rightarrow> bytes \<Rightarrow> bytes \<Rightarrow>
     (discovery_error, signed_rotation) result" where
  "rotation_sign cr cd payload previous next_key =
     (let bs = enc cd payload;
          signed = \<lparr>rot_payload = bs,
                    rot_previous_signature = auth_sign cr rotation_domain bs previous,
                    rot_next_signature = auth_sign cr rotation_domain bs next_key\<rparr>
      in rbind (rotation_verify_at cr cd signed (rp_previous payload) (rp_issued_at payload)) (\<lambda>_.
         Inr signed))"

section \<open>Characterisations\<close>

lemma verifying_key_Inr_iff [res_simps]:
  "verifying_key cr a = Inr k \<longleftrightarrow> a_epoch a \<noteq> 0 \<and> vk_error cr (a_key a) = None \<and> k = a_key a"
  by (auto simp: verifying_key_def res_simps split: option.splits)

lemma stamp_verify_Inr_iff [res_simps]:
  "stamp_verify st key = Inr u \<longleftrightarrow>
     0 < st_revision st \<and> 0 < a_epoch (st_authority st) \<and> a_key (st_authority st) = key"
  by (auto simp: stamp_verify_def res_simps)

lemma newer_than_Inr_iff [res_simps]:
  "newer_than a b = Inr u \<longleftrightarrow> st_authority a = st_authority b \<and> st_revision b < st_revision a"
  by (auto simp: newer_than_def res_simps)

lemma lifetime_Inr_iff [res_simps]:
  "lifetime issued expires now ttl = Inr u \<longleftrightarrow>
     issued \<le> now \<and> now < expires \<and> expires - issued \<le> ttl"
  by (auto simp: lifetime_def res_simps)

lemma auth_verify_Inr_iff [res_simps]:
  "auth_verify cr domain payload sig key limit = Inr u \<longleftrightarrow>
     length payload \<le> limit \<and> length sig = 64 \<and> verify_strict cr key (domain @ payload) sig"
  by (auto simp: auth_verify_def res_simps)

lemma auth_sign_verifies:
  "signatures_ok cr \<Longrightarrow> length payload \<le> limit \<Longrightarrow>
     auth_verify cr domain payload (auth_sign cr domain payload sk) (sk_public cr sk) limit = Inr ()"
  by (simp add: res_simps auth_sign_def signatures_ok_def)

definition rotation_accepts ::
  "crypto \<Rightarrow> rotation_payload codec \<Rightarrow> signed_rotation \<Rightarrow> authority \<Rightarrow> rotation_payload \<Rightarrow> bool" where
  "rotation_accepts cr cd rot current p \<longleftrightarrow>
     from_bytes cd (rot_payload rot) = Inr p \<and> length (rot_payload rot) \<le> 1024 \<and>
     rp_previous p = current \<and> a_epoch current \<noteq> 0 \<and>
     a_epoch (rp_next p) = a_epoch current + 1 \<and> a_epoch current + 1 \<le> u64_max \<and>
     a_key (rp_next p) \<noteq> a_key current \<and>
     vk_error cr (a_key current) = None \<and> vk_error cr (a_key (rp_next p)) = None \<and>
     length (rot_previous_signature rot) = 64 \<and> length (rot_next_signature rot) = 64 \<and>
     verify_strict cr (a_key current) (rotation_domain @ rot_payload rot) (rot_previous_signature rot) \<and>
     verify_strict cr (a_key (rp_next p)) (rotation_domain @ rot_payload rot) (rot_next_signature rot)"

lemma rotation_verify_at_Inr_iff:
  "rotation_verify_at cr cd rot current now = Inr p \<longleftrightarrow>
     rotation_accepts cr cd rot current p \<and>
     rp_issued_at p \<le> now \<and> now < rp_expires_at p \<and>
     rp_expires_at p - rp_issued_at p \<le> max_rotation_ttl"
  by (auto simp: rotation_verify_at_def rotation_accepts_def res_simps checked_add64_def
      split: if_splits)

text \<open>
  C28. A rotation receipt is accepted at time \<open>now\<close> exactly when both the current and the
  next authority signed it, it starts from the current authority, raises the epoch by
  one without overflow, changes the key, and \<open>now\<close> lies in a delivery window of at most
  an hour. A key that the current authority did not approve can therefore never take
  over trust.
\<close>

theorem rotation_verify_at_iff:
  "rotation_verify_at cr cd rot current now = Inr p \<longleftrightarrow>
     rotation_accepts cr cd rot current p \<and>
     rp_issued_at p \<le> now \<and> now < rp_expires_at p \<and>
     rp_expires_at p - rp_issued_at p \<le> max_rotation_ttl"
  by (rule rotation_verify_at_Inr_iff)

lemma rotation_verify_committed_iff:
  "rotation_verify_committed cr cd rot current = Inr p \<longleftrightarrow>
     rotation_verify_at cr cd rot current (rp_issued_at p) = Inr p"
  by (auto simp: rotation_verify_committed_def rotation_verify_at_def res_simps)

text \<open>A receipt accepted inside its window is still accepted when protected state is reloaded.\<close>

lemma rotation_committed_after_accept:
  "rotation_verify_at cr cd rot current now = Inr p \<Longrightarrow>
     rotation_verify_committed cr cd rot current = Inr p"
  by (auto simp: rotation_verify_committed_iff rotation_verify_at_Inr_iff)

text \<open>Following a chain of receipts from a bootstrap authority.\<close>

fun follow_rotations ::
  "crypto \<Rightarrow> rotation_payload codec \<Rightarrow> authority \<Rightarrow> signed_rotation list \<Rightarrow>
     (discovery_error, authority) result" where
  "follow_rotations cr cd a [] = Inr a"
| "follow_rotations cr cd a (r # rs) =
     rbind (rotation_verify_committed cr cd r a) (\<lambda>p. follow_rotations cr cd (rp_next p) rs)"

lemma follow_rotations_snoc:
  "follow_rotations cr cd a (rs @ [r]) =
     rbind (follow_rotations cr cd a rs) (\<lambda>b.
     rbind (rotation_verify_committed cr cd r b) (\<lambda>p. Inr (rp_next p)))"
  by (induction rs arbitrary: a) (auto simp: rbind_def split: sum.splits)

text \<open>
  Along any accepted chain of receipts the epoch counts the receipts: the authority
  reached after \<open>n\<close> rotations has the bootstrap epoch plus \<open>n\<close>, so no two different
  positions of a chain share an epoch and an old authority never returns.
\<close>

theorem follow_rotations_epoch:
  assumes "follow_rotations cr cd a rs = Inr b"
  shows "a_epoch b = a_epoch a + length rs"
  using assms
proof (induction rs arbitrary: a)
  case (Cons r rs)
  then obtain p where p: "rotation_verify_committed cr cd r a = Inr p"
    and rest: "follow_rotations cr cd (rp_next p) rs = Inr b"
    by (auto simp: res_simps)
  from p have "a_epoch (rp_next p) = a_epoch a + 1"
    by (simp add: rotation_verify_committed_iff rotation_verify_at_Inr_iff rotation_accepts_def)
  with Cons.IH [OF rest] show ?case by simp
qed simp

section \<open>A concrete transition\<close>

definition auth_a :: authority where
  "auth_a = \<lparr>a_key = replicate 32 7, a_epoch = 1\<rparr>"

definition auth_b :: authority where
  "auth_b = \<lparr>a_key = replicate 32 9, a_epoch = 2\<rparr>"

definition rot_payload0 :: rotation_payload where
  "rot_payload0 = \<lparr>rp_previous = auth_a, rp_next = auth_b, rp_issued_at = 1000, rp_expires_at = 1300\<rparr>"

definition rotation0 :: signed_rotation where
  "rotation0 = \<lparr>rot_payload = [1], rot_previous_signature = replicate 64 7,
     rot_next_signature = replicate 64 9\<rparr>"

lemma rotation0_accepts: "rotation_accepts crypto0 (tag_codec 1 rot_payload0) rotation0 auth_a rot_payload0"
  by (simp add: rotation_accepts_def rotation0_def rot_payload0_def auth_a_def auth_b_def
      crypto0_def u64_max_def)

theorem follow_rotations_epoch_witness:
  "follow_rotations crypto0 (tag_codec 1 rot_payload0) auth_a [rotation0] = Inr auth_b \<and>
   a_epoch auth_b = a_epoch auth_a + length [rotation0]"
proof -
  have "rotation_verify_at crypto0 (tag_codec 1 rot_payload0) rotation0 auth_a 1000 = Inr rot_payload0"
    using rotation0_accepts
    by (simp add: rotation_verify_at_Inr_iff rot_payload0_def max_rotation_ttl_def)
  then have f: "follow_rotations crypto0 (tag_codec 1 rot_payload0) auth_a [rotation0] = Inr auth_b"
    by (simp add: rotation_committed_after_accept rot_payload0_def)
  show ?thesis using f follow_rotations_epoch [OF f] by blast
qed

end
