(* ===== verification/Rds_Record_Wire.thy ===== *)
theory Rds_Record_Wire
  imports Rds_Net Rds_Authority "HOL-Library.Char_ord"
begin

text \<open>
  Signed endpoint records and deletions (\<open>rds-discovery/src/record_wire.rs\<close>) and the relay
  locators they may carry (\<open>rds-discovery/src/relay_route.rs\<close>). The lemmas characterise what
  a verifier accepts, that what a publisher signs is accepted, and that a signature on a
  record is never one on a deletion.
\<close>

section \<open>Relay locators\<close>

text \<open>
  The URL parser is third-party code: the model takes it as a function from the text to the
  fields the code reads (\<open>None\<close> is its error).
\<close>

datatype url_host = Domain string | Ipv4 byte byte byte byte | Ipv6 "16 word list"

record url =
  u_scheme :: string
  u_username :: string
  u_password :: "string option"
  u_host :: "url_host option"
  u_path :: string
  u_query :: "string option"
  u_fragment :: "string option"
  u_port :: "u16 option"
  u_port_or_known_default :: "u16 option"

definition max_relay_url_bytes :: usize where "max_relay_url_bytes = 512"

record owned_relay_route =
  or_key :: endpoint_key
  or_addr :: socket_addr

definition socket_addr_new :: "ip_addr \<Rightarrow> u16 \<Rightarrow> socket_addr" where
  "socket_addr_new ip port = \<lparr>sa_ip = ip, sa_port = port, sa_flowinfo = 0, sa_scope = 0\<rparr>"

text \<open>\<open>u8::from_str_radix(_, 16)\<close>, which also takes a leading plus sign.\<close>

definition u8_from_hex :: "string \<Rightarrow> byte option" where
  "u8_from_hex s =
     (let ds = (case s of c # r \<Rightarrow> if c = CHR ''+'' \<and> r \<noteq> [] then r else s | [] \<Rightarrow> [])
      in if ds \<noteq> [] \<and> list_all (is_digit 16) ds \<and> digits_value 16 ds \<le> 255
         then Some (of_nat (digits_value 16 ds)) else None)"

fun identity_bytes :: "string \<Rightarrow> (discovery_error, bytes) result" where
  "identity_bytes (a # b # rest) =
     rbind (ok_or (invalid ''invalid owned relay identity'') (u8_from_hex [a, b])) (\<lambda>v.
     rbind (identity_bytes rest) (\<lambda>vs. Inr (v # vs)))"
| "identity_bytes _ = Inr []"

definition host_ip :: "url_host \<Rightarrow> (discovery_error, ip_addr) result" where
  "host_ip h =
     (case h of
        Ipv4 a b c d \<Rightarrow> Inr (V4 a b c d)
      | Ipv6 gs \<Rightarrow> Inr (V6 gs)
      | Domain host \<Rightarrow> ok_or (invalid ''owned relay requires an IP literal'') (parse_ip host))"

definition relay_route_from_str ::
  "crypto \<Rightarrow> (string \<Rightarrow> url option) \<Rightarrow> string \<Rightarrow> (discovery_error, owned_relay_route) result" where
  "relay_route_from_str cr parse_url raw =
     rbind (ensure (\<not> length raw > max_relay_url_bytes)
             (invalid ''owned relay locator exceeds limit'')) (\<lambda>_.
     rbind (ok_or (invalid ''invalid owned relay locator'') (parse_url raw)) (\<lambda>url.
     rbind (ensure (\<not> (u_scheme url \<noteq> ''rds-relay'' \<or> u_password url \<noteq> None
                       \<or> u_path url \<notin> {'''', ''/''} \<or> u_query url \<noteq> None \<or> u_fragment url \<noteq> None))
             (invalid ''invalid owned relay locator fields'')) (\<lambda>_.
     let identity = u_username url in
     rbind (ensure (\<not> (length identity \<noteq> 64 \<or> \<not> list_all (is_digit 16) identity))
             (invalid ''owned relay requires a 32-byte hex identity'')) (\<lambda>_.
     rbind (identity_bytes identity) (\<lambda>key.
     rbind (ensure (vk_error cr key = None) (invalid ''invalid owned relay identity'')) (\<lambda>_.
     rbind (ok_or (invalid ''missing relay host'') (u_host url)) (\<lambda>host.
     rbind (host_ip host) (\<lambda>ip.
     rbind (ok_or (invalid ''missing owned relay port'') (u_port url)) (\<lambda>port.
     let addr = socket_addr_new ip port in
     rbind (ensure (\<not> (sa_port addr = 0 \<or> is_unspecified (sa_ip addr) \<or> is_multicast (sa_ip addr)))
             (invalid ''invalid owned relay socket'')) (\<lambda>_.
     Inr \<lparr>or_key = key, or_addr = addr\<rparr>))))))))))"

text \<open>\<open>SocketAddr\<close>'s \<open>Display\<close> and the locator's own.\<close>

definition print_socket_addr :: "socket_addr \<Rightarrow> string" where
  "print_socket_addr a =
     (case sa_ip a of
        V4 _ _ _ _ \<Rightarrow> print_ip (sa_ip a) @ '':'' @ print_number 10 (sa_port a)
      | V6 _ \<Rightarrow>
          ''['' @ print_ip (sa_ip a)
          @ (if sa_scope a = 0 then '''' else ''%'' @ print_number 10 (sa_scope a))
          @ '']:'' @ print_number 10 (sa_port a))"

definition print_hex2 :: "byte \<Rightarrow> string" where
  "print_hex2 b = [digit_char (unat b div 16), digit_char (unat b mod 16)]"

definition relay_route_to_string :: "owned_relay_route \<Rightarrow> string" where
  "relay_route_to_string r =
     ''rds-relay://'' @ concat (map print_hex2 (or_key r)) @ ''@'' @ print_socket_addr (or_addr r)"

section \<open>Records\<close>

definition record_version :: u16 where "record_version = 1"
definition max_record_ttl :: u64 where "max_record_ttl = 3600"
definition delete_ttl :: u64 where "delete_ttl = 300"
definition max_record_bytes :: usize where "max_record_bytes = 8192"
definition max_direct_addrs :: usize where "max_direct_addrs = 32"
definition max_relay_urls :: usize where "max_relay_urls = 8"
definition record_domain :: bytes where "record_domain = str_bytes ''rds/endpoint-record/v1'' @ [0]"
definition delete_domain :: bytes where "delete_domain = str_bytes ''rds/endpoint-delete/v1'' @ [0]"

record endpoint_record =
  er_key :: endpoint_key
  er_payload :: bytes
  er_signature :: bytes

record payload =
  pl_version :: u16
  pl_key :: endpoint_key
  pl_revision :: u64
  pl_addrs :: "socket_addr list"
  pl_relay_urls :: "string list"
  pl_services :: "service list"
  pl_issued_at :: u64
  pl_expires_at :: u64

record delete_request =
  dr_key :: endpoint_key
  dr_payload :: bytes
  dr_signature :: bytes

record delete_payload =
  dp_version :: u16
  dp_key :: endpoint_key
  dp_revision :: u64
  dp_issued_at :: u64
  dp_expires_at :: u64

text \<open>The third-party code records rest on.\<close>

record wire =
  w_crypto :: crypto
  w_version :: "u16 codec"
  w_record :: "payload codec"
  w_delete :: "delete_payload codec"
  w_url :: "string \<Rightarrow> url option"

text \<open>
  \<open>limited\<close>'s visitor: the size hint is checked first, then elements are taken until the
  sequence ends, one of them fails, or one more than \<open>n\<close> arrives.
\<close>

fun limited_loop :: "nat \<Rightarrow> 'a list \<Rightarrow> (string, 'a) result list \<Rightarrow> (string, 'a list) result" where
  "limited_loop n vals [] = Inr vals"
| "limited_loop n vals (e # es) =
     rbind e (\<lambda>v. rbind (ensure (length vals \<noteq> n) ''sequence exceeds limit'') (\<lambda>_.
     limited_loop n (vals @ [v]) es))"

definition limited :: "nat \<Rightarrow> nat option \<Rightarrow> (string, 'a) result list \<Rightarrow> (string, 'a list) result" where
  "limited n hint elems =
     rbind (ensure (\<not> (case hint of Some sz \<Rightarrow> sz > n | None \<Rightarrow> False)) ''sequence exceeds limit'')
       (\<lambda>_. limited_loop n [] elems)"

definition record_decode :: "'a codec \<Rightarrow> bytes \<Rightarrow> (discovery_error, 'a) result" where
  "record_decode cd bs =
     rbind (map_err invalid (dec cd bs)) (\<lambda>(v, rest).
     rbind (ensure (rest = []) (invalid ''trailing signed record bytes'')) (\<lambda>_. Inr v))"

definition payload_version :: "u16 codec \<Rightarrow> bytes \<Rightarrow> (discovery_error, u16) result" where
  "payload_version vc bs = rbind (map_err invalid (dec vc bs)) (\<lambda>(version, _). Inr version)"

definition metadata :: "u16 \<Rightarrow> u64 \<Rightarrow> u64 \<Rightarrow> u64 \<Rightarrow> u64 \<Rightarrow> (discovery_error, unit) result" where
  "metadata version revision issued expires ttl =
     rbind (ensure (\<not> (version \<noteq> record_version \<or> revision = 0))
             (invalid ''unsupported record version or zero revision'')) (\<lambda>_.
     ensure (\<not> (expires \<le> issued \<or> expires - issued > ttl))
       (invalid ''invalid record validity interval''))"

text \<open>\<open>for (i, x) in xs.iter().enumerate()\<close>, each step seeing the elements before it.\<close>

fun each_with_prefix ::
  "('a list \<Rightarrow> 'a \<Rightarrow> ('e, unit) result) \<Rightarrow> 'a list \<Rightarrow> 'a list \<Rightarrow> ('e, unit) result" where
  "each_with_prefix c seen [] = Inr ()"
| "each_with_prefix c seen (x # xs) =
     rbind (c seen x) (\<lambda>_. each_with_prefix c (seen @ [x]) xs)"

definition check_addr :: "socket_addr list \<Rightarrow> socket_addr \<Rightarrow> (discovery_error, unit) result" where
  "check_addr seen a =
     ensure (\<not> (sa_port a = 0 \<or> is_unspecified (sa_ip a) \<or> is_multicast (sa_ip a) \<or> a \<in> set seen))
       (invalid ''invalid or repeated direct address'')"

definition check_relay_url :: "wire \<Rightarrow> string list \<Rightarrow> string \<Rightarrow> (discovery_error, unit) result" where
  "check_relay_url w seen raw =
     rbind (ensure (\<not> (length raw > max_relay_url_bytes \<or> raw \<in> set seen))
             (invalid ''oversized or repeated relay URL'')) (\<lambda>_.
     rbind (ok_or (invalid ''invalid relay URL'') (w_url w raw)) (\<lambda>url.
     if u_scheme url = ''rds-relay''
     then rbind (relay_route_from_str (w_crypto w) (w_url w) raw) (\<lambda>_. Inr ())
     else ensure (\<not> (u_scheme url \<notin> {''http'', ''https''} \<or> u_host url = None \<or> u_username url \<noteq> ''''
                     \<or> u_password url \<noteq> None \<or> u_path url \<noteq> ''/'' \<or> u_query url \<noteq> None
                     \<or> u_fragment url \<noteq> None \<or> u_port_or_known_default url = Some 0))
            (invalid ''relay must be an HTTP(S) origin without credentials'')))"

definition check_service :: "service list \<Rightarrow> service \<Rightarrow> (discovery_error, unit) result" where
  "check_service seen s = ensure (s \<notin> set seen) (invalid ''repeated service'')"

definition payload_validate :: "wire \<Rightarrow> payload \<Rightarrow> (discovery_error, unit) result" where
  "payload_validate w p =
     rbind (metadata (pl_version p) (pl_revision p) (pl_issued_at p) (pl_expires_at p) max_record_ttl) (\<lambda>_.
     rbind (ensure (\<not> (length (pl_addrs p) > max_direct_addrs
                       \<or> length (pl_relay_urls p) > max_relay_urls \<or> length (pl_services p) > 6))
             (invalid ''record collection exceeds limit'')) (\<lambda>_.
     rbind (each_with_prefix check_addr [] (pl_addrs p)) (\<lambda>_.
     rbind (each_with_prefix (check_relay_url w) [] (pl_relay_urls p)) (\<lambda>_.
     each_with_prefix check_service [] (pl_services p)))))"

definition record_sign ::
  "wire \<Rightarrow> payload \<Rightarrow> bytes \<Rightarrow> (discovery_error, endpoint_record) result" where
  "record_sign w p sk =
     rbind (payload_validate w p) (\<lambda>_.
     rbind (ensure (pl_key p = sk_public (w_crypto w) sk) BadSignature) (\<lambda>_.
     let bs = enc (w_record w) p in
     rbind (ensure (\<not> length bs > max_record_bytes) (invalid ''record exceeds wire limit'')) (\<lambda>_.
     Inr \<lparr>er_key = pl_key p, er_payload = bs,
          er_signature = auth_sign (w_crypto w) record_domain bs sk\<rparr>)))"

definition record_publish ::
  "wire \<Rightarrow> bytes \<Rightarrow> u64 \<Rightarrow> socket_addr list \<Rightarrow> string list \<Rightarrow> service list \<Rightarrow> duration \<Rightarrow>
     (discovery_error, u64) result \<Rightarrow> (discovery_error, endpoint_record) result" where
  "record_publish w sk revision addrs relay_urls services ttl now_unix =
     rbind (ensure (subsec_nanos ttl = 0) (invalid ''record TTL requires whole seconds'')) (\<lambda>_.
     rbind now_unix (\<lambda>now.
     rbind (ok_or (invalid ''TTL overflow'') (checked_add64 now (as_secs ttl))) (\<lambda>expires_at.
     record_sign w
       \<lparr>pl_version = record_version, pl_key = sk_public (w_crypto w) sk, pl_revision = revision,
        pl_addrs = addrs, pl_relay_urls = relay_urls, pl_services = services,
        pl_issued_at = now, pl_expires_at = expires_at\<rparr> sk)))"

definition unsupported_version :: "u16 \<Rightarrow> discovery_error" where
  "unsupported_version version = invalid (''unsupported record version '' @ print_number 10 version)"

definition record_verify :: "wire \<Rightarrow> endpoint_record \<Rightarrow> (discovery_error, payload) result" where
  "record_verify w r =
     rbind (ensure (vk_error (w_crypto w) (er_key r) = None) BadSignature) (\<lambda>_.
     rbind (auth_verify (w_crypto w) record_domain (er_payload r) (er_signature r) (er_key r)
              max_record_bytes) (\<lambda>_.
     rbind (payload_version (w_version w) (er_payload r)) (\<lambda>version.
     rbind (ensure (version = record_version) (unsupported_version version)) (\<lambda>_.
     rbind (record_decode (w_record w) (er_payload r)) (\<lambda>p.
     rbind (ensure (pl_key p = er_key r) BadSignature) (\<lambda>_.
     rbind (payload_validate w p) (\<lambda>_.
     Inr p)))))))"

definition record_verify_fresh_at ::
  "wire \<Rightarrow> endpoint_record \<Rightarrow> u64 \<Rightarrow> (discovery_error, payload) result" where
  "record_verify_fresh_at w r now =
     rbind (record_verify w r) (\<lambda>p.
     rbind (lifetime (pl_issued_at p) (pl_expires_at p) now max_record_ttl) (\<lambda>_. Inr p))"

definition record_verify_fresh ::
  "wire \<Rightarrow> endpoint_record \<Rightarrow> (discovery_error, u64) result \<Rightarrow> (discovery_error, payload) result" where
  "record_verify_fresh w r now_unix = rbind now_unix (record_verify_fresh_at w r)"

section \<open>Deletions\<close>

definition delete_sign ::
  "wire \<Rightarrow> delete_payload \<Rightarrow> bytes \<Rightarrow> (discovery_error, delete_request) result" where
  "delete_sign w p sk =
     rbind (metadata (dp_version p) (dp_revision p) (dp_issued_at p) (dp_expires_at p) delete_ttl) (\<lambda>_.
     rbind (ensure (dp_key p = sk_public (w_crypto w) sk) BadSignature) (\<lambda>_.
     let bs = enc (w_delete w) p in
     Inr \<lparr>dr_key = dp_key p, dr_payload = bs,
          dr_signature = auth_sign (w_crypto w) delete_domain bs sk\<rparr>))"

definition delete_new ::
  "wire \<Rightarrow> bytes \<Rightarrow> u64 \<Rightarrow> (discovery_error, u64) result \<Rightarrow> (discovery_error, delete_request) result" where
  "delete_new w sk revision now_unix =
     rbind now_unix (\<lambda>now.
     rbind (ok_or (invalid ''TTL overflow'') (checked_add64 now delete_ttl)) (\<lambda>expires_at.
     delete_sign w
       \<lparr>dp_version = record_version, dp_key = sk_public (w_crypto w) sk, dp_revision = revision,
        dp_issued_at = now, dp_expires_at = expires_at\<rparr> sk))"

definition delete_verify :: "wire \<Rightarrow> delete_request \<Rightarrow> (discovery_error, delete_payload) result" where
  "delete_verify w r =
     rbind (ensure (vk_error (w_crypto w) (dr_key r) = None) BadSignature) (\<lambda>_.
     rbind (auth_verify (w_crypto w) delete_domain (dr_payload r) (dr_signature r) (dr_key r) 128) (\<lambda>_.
     rbind (payload_version (w_version w) (dr_payload r)) (\<lambda>version.
     rbind (ensure (version = record_version) (unsupported_version version)) (\<lambda>_.
     rbind (record_decode (w_delete w) (dr_payload r)) (\<lambda>p.
     rbind (ensure (dp_key p = dr_key r) BadSignature) (\<lambda>_.
     rbind (metadata (dp_version p) (dp_revision p) (dp_issued_at p) (dp_expires_at p) delete_ttl) (\<lambda>_.
     Inr p)))))))"

definition delete_verify_fresh_at ::
  "wire \<Rightarrow> delete_request \<Rightarrow> u64 \<Rightarrow> (discovery_error, delete_payload) result" where
  "delete_verify_fresh_at w r now =
     rbind (delete_verify w r) (\<lambda>p.
     rbind (lifetime (dp_issued_at p) (dp_expires_at p) now delete_ttl) (\<lambda>_. Inr p))"

definition delete_verify_fresh ::
  "wire \<Rightarrow> delete_request \<Rightarrow> (discovery_error, u64) result \<Rightarrow> (discovery_error, delete_payload) result" where
  "delete_verify_fresh w r now_unix = rbind now_unix (delete_verify_fresh_at w r)"

section \<open>What a verifier accepts\<close>

lemma limited_loop_length: "limited_loop n vals es = Inr vs \<Longrightarrow> length vals \<le> n \<Longrightarrow> length vs \<le> n"
  by (induction n vals es rule: limited_loop.induct) (auto simp: res_simps)

lemma limited_loop_values:
  "limited_loop n vals es = Inr vs \<longleftrightarrow>
     (\<exists>us. es = map Inr us \<and> vs = vals @ us \<and> (us = [] \<or> \<not> (length vals \<le> n \<and> n < length vals + length us)))"
proof (induction es arbitrary: vals)
  case (Cons e es)
  show ?case
  proof (cases e)
    case (Inr v)
    have "limited_loop n vals (e # es) = Inr vs \<longleftrightarrow>
        length vals \<noteq> n \<and> limited_loop n (vals @ [v]) es = Inr vs"
      using Inr by (auto simp: res_simps)
    also have "\<dots> \<longleftrightarrow> (\<exists>us. e # es = map Inr us \<and> vs = vals @ us \<and>
        (us = [] \<or> \<not> (length vals \<le> n \<and> n < length vals + length us)))"
      unfolding Cons.IH using Inr by (auto simp: Cons_eq_map_conv)
    finally show ?thesis .
  qed auto
qed auto

lemma limited_Inr_iff:
  "limited n hint es = Inr vs \<longleftrightarrow>
     es = map Inr vs \<and> length vs \<le> n \<and> (\<forall>sz. hint = Some sz \<longrightarrow> sz \<le> n)"
  by (auto simp: limited_def res_simps limited_loop_values not_less split: option.splits)

lemma each_with_prefix_distinct:
  assumes "\<And>seen x. c seen x = Inr () \<longleftrightarrow> Q x \<and> x \<notin> set seen"
  shows "each_with_prefix c seen xs = Inr () \<longleftrightarrow>
     (\<forall>x\<in>set xs. Q x) \<and> distinct xs \<and> set xs \<inter> set seen = {}"
  by (induction xs arbitrary: seen) (auto simp: res_simps assms)

definition addr_ok :: "socket_addr \<Rightarrow> bool" where
  "addr_ok a \<longleftrightarrow> sa_port a \<noteq> 0 \<and> \<not> is_unspecified (sa_ip a) \<and> \<not> is_multicast (sa_ip a)"

definition origin_ok :: "url \<Rightarrow> bool" where
  "origin_ok u \<longleftrightarrow>
     u_scheme u \<in> {''http'', ''https''} \<and> u_host u \<noteq> None \<and> u_username u = '''' \<and> u_password u = None \<and>
     u_path u = ''/'' \<and> u_query u = None \<and> u_fragment u = None \<and> u_port_or_known_default u \<noteq> Some 0"

definition relay_url_ok :: "wire \<Rightarrow> string \<Rightarrow> bool" where
  "relay_url_ok w raw \<longleftrightarrow>
     length raw \<le> max_relay_url_bytes \<and>
     (\<exists>u. w_url w raw = Some u \<and>
        (if u_scheme u = ''rds-relay'' then is_ok (relay_route_from_str (w_crypto w) (w_url w) raw)
         else origin_ok u))"

definition interval_ok :: "u64 \<Rightarrow> u64 \<Rightarrow> u64 \<Rightarrow> bool" where
  "interval_ok issued expires ttl \<longleftrightarrow> issued < expires \<and> expires \<le> issued + ttl"

text \<open>A well-formed record payload.\<close>

definition payload_ok :: "wire \<Rightarrow> payload \<Rightarrow> bool" where
  "payload_ok w p \<longleftrightarrow>
     pl_version p = record_version \<and> 0 < pl_revision p \<and>
     interval_ok (pl_issued_at p) (pl_expires_at p) max_record_ttl \<and>
     length (pl_addrs p) \<le> max_direct_addrs \<and> distinct (pl_addrs p) \<and> (\<forall>a\<in>set (pl_addrs p). addr_ok a) \<and>
     length (pl_relay_urls p) \<le> max_relay_urls \<and> distinct (pl_relay_urls p) \<and>
     (\<forall>u\<in>set (pl_relay_urls p). relay_url_ok w u) \<and> distinct (pl_services p)"

definition delete_payload_ok :: "delete_payload \<Rightarrow> bool" where
  "delete_payload_ok p \<longleftrightarrow>
     dp_version p = record_version \<and> 0 < dp_revision p \<and>
     interval_ok (dp_issued_at p) (dp_expires_at p) delete_ttl"

lemma metadata_Inr_iff [res_simps]:
  "metadata v r i e ttl = Inr u \<longleftrightarrow> v = record_version \<and> 0 < r \<and> interval_ok i e ttl"
  by (auto simp: metadata_def interval_ok_def res_simps)

lemma check_addr_iff: "check_addr seen a = Inr () \<longleftrightarrow> addr_ok a \<and> a \<notin> set seen"
  by (auto simp: check_addr_def addr_ok_def res_simps)

lemma check_relay_url_iff:
  "check_relay_url w seen raw = Inr () \<longleftrightarrow> relay_url_ok w raw \<and> raw \<notin> set seen"
  by (auto simp: check_relay_url_def relay_url_ok_def origin_ok_def res_simps is_ok_iff not_less
      split: if_splits)

lemma check_service_iff: "check_service seen s = Inr () \<longleftrightarrow> True \<and> s \<notin> set seen"
  by (simp add: check_service_def res_simps)

lemma six_services: "distinct (ss :: service list) \<Longrightarrow> length ss \<le> 6"
proof -
  assume d: "distinct ss"
  have "set ss \<subseteq> {SPing, SInfo, STcpForward, SDesktop, SAudio, SSync}"
    using service.exhaust by blast
  then have "card (set ss) \<le> card {SPing, SInfo, STcpForward, SDesktop, SAudio, SSync}"
    by (intro card_mono) auto
  then show ?thesis using d by (simp add: distinct_card)
qed

lemma payload_validate_Inr_iff [res_simps]: "payload_validate w p = Inr u \<longleftrightarrow> payload_ok w p"
  using six_services [of "pl_services p"]
  by (auto simp: payload_validate_def payload_ok_def res_simps not_less
      each_with_prefix_distinct [OF check_addr_iff] each_with_prefix_distinct [OF check_relay_url_iff]
      each_with_prefix_distinct [OF check_service_iff])

lemma record_decode_Inr_iff [res_simps]: "record_decode cd bs = Inr v \<longleftrightarrow> dec cd bs = Inr (v, [])"
  by (auto simp: record_decode_def res_simps)

lemma payload_version_Inr_iff [res_simps]:
  "payload_version vc bs = Inr v \<longleftrightarrow> (\<exists>rest. dec vc bs = Inr (v, rest))"
  by (auto simp: payload_version_def res_simps)

lemma record_verify_Inr_iff:
  "record_verify w r = Inr p \<longleftrightarrow>
     vk_error (w_crypto w) (er_key r) = None \<and>
     length (er_payload r) \<le> max_record_bytes \<and> length (er_signature r) = 64 \<and>
     verify_strict (w_crypto w) (er_key r) (record_domain @ er_payload r) (er_signature r) \<and>
     (\<exists>rest. dec (w_version w) (er_payload r) = Inr (record_version, rest)) \<and>
     dec (w_record w) (er_payload r) = Inr (p, []) \<and> pl_key p = er_key r \<and> payload_ok w p"
  by (auto simp: record_verify_def res_simps)

lemma record_verify_fresh_at_Inr_iff:
  "record_verify_fresh_at w r now = Inr p \<longleftrightarrow>
     record_verify w r = Inr p \<and> pl_issued_at p \<le> now \<and> now < pl_expires_at p"
  by (auto simp: record_verify_fresh_at_def res_simps record_verify_Inr_iff payload_ok_def interval_ok_def)

lemma delete_verify_Inr_iff:
  "delete_verify w r = Inr p \<longleftrightarrow>
     vk_error (w_crypto w) (dr_key r) = None \<and>
     length (dr_payload r) \<le> 128 \<and> length (dr_signature r) = 64 \<and>
     verify_strict (w_crypto w) (dr_key r) (delete_domain @ dr_payload r) (dr_signature r) \<and>
     (\<exists>rest. dec (w_version w) (dr_payload r) = Inr (record_version, rest)) \<and>
     dec (w_delete w) (dr_payload r) = Inr (p, []) \<and> dp_key p = dr_key r \<and> delete_payload_ok p"
  by (auto simp: delete_verify_def res_simps delete_payload_ok_def)

lemma delete_verify_fresh_at_Inr_iff:
  "delete_verify_fresh_at w r now = Inr p \<longleftrightarrow>
     delete_verify w r = Inr p \<and> dp_issued_at p \<le> now \<and> now < dp_expires_at p"
  by (auto simp: delete_verify_fresh_at_def res_simps delete_verify_Inr_iff delete_payload_ok_def
      interval_ok_def)

text \<open>
  C31. A record verifies exactly when its key is an Ed25519 key, the payload has at most 8192
  bytes and carries a 64-byte signature under the record domain, its leading version is 1, it
  decodes without trailing bytes to a payload for that key, and the payload is well formed: a
  non-zero revision, a lifetime of at most an hour, at most 32 distinct usable addresses, at
  most 8 distinct relay locators and no service twice. A fresh verification adds that the time
  lies in the validity interval.
\<close>

theorem record_verify_fresh_characterised:
  "record_verify_fresh_at w r now = Inr p \<longleftrightarrow>
     vk_error (w_crypto w) (er_key r) = None \<and>
     length (er_payload r) \<le> max_record_bytes \<and> length (er_signature r) = 64 \<and>
     verify_strict (w_crypto w) (er_key r) (record_domain @ er_payload r) (er_signature r) \<and>
     (\<exists>rest. dec (w_version w) (er_payload r) = Inr (record_version, rest)) \<and>
     dec (w_record w) (er_payload r) = Inr (p, []) \<and> pl_key p = er_key r \<and> payload_ok w p \<and>
     pl_issued_at p \<le> now \<and> now < pl_expires_at p"
  by (auto simp: record_verify_fresh_at_Inr_iff record_verify_Inr_iff)

section \<open>What a publisher signs\<close>

text \<open>
  What the code relies on from the serializer at one payload: it decodes to itself, and the
  encoding of the struct starts with that of its first field.
\<close>

definition version_prefix :: "u16 codec \<Rightarrow> bytes \<Rightarrow> u16 \<Rightarrow> bool" where
  "version_prefix vc bs v \<longleftrightarrow> (\<exists>rest. dec vc bs = Inr (v, rest))"

lemma record_sign_verifies:
  assumes "record_sign w p sk = Inr r" "signatures_ok (w_crypto w)" "codec_at (w_record w) p"
    "version_prefix (w_version w) (enc (w_record w) p) (pl_version p)"
  shows "record_verify w r = Inr p \<and> er_key r = sk_public (w_crypto w) sk"
  using assms
  by (auto simp: record_sign_def record_verify_Inr_iff res_simps Let_def codec_at_def version_prefix_def
      signatures_ok_def auth_sign_def payload_ok_def)

lemma delete_sign_verifies:
  assumes "delete_sign w p sk = Inr r" "signatures_ok (w_crypto w)" "codec_at (w_delete w) p"
    "version_prefix (w_version w) (enc (w_delete w) p) (dp_version p)"
    "length (enc (w_delete w) p) \<le> 128"
  shows "delete_verify w r = Inr p \<and> dr_key r = sk_public (w_crypto w) sk"
  using assms
  by (auto simp: delete_sign_def delete_verify_Inr_iff res_simps Let_def codec_at_def version_prefix_def
      signatures_ok_def auth_sign_def delete_payload_ok_def)

lemma published_record_verifies_lemma:
  assumes pub: "record_publish w sk revision addrs urls services ttl (Inr now) = Inr r"
    and p: "p = \<lparr>pl_version = record_version, pl_key = sk_public (w_crypto w) sk, pl_revision = revision,
        pl_addrs = addrs, pl_relay_urls = urls, pl_services = services,
        pl_issued_at = now, pl_expires_at = now + as_secs ttl\<rparr>"
    and crypto: "signatures_ok (w_crypto w)"
    and codec: "codec_at (w_record w) p"
      "version_prefix (w_version w) (enc (w_record w) p) record_version"
    and time: "now \<le> t" "t < now + as_secs ttl"
  shows "record_verify_fresh_at w r t = Inr p \<and> er_key r = pl_key p"
proof -
  have "record_sign w p sk = Inr r"
    using pub p by (auto simp: record_publish_def res_simps)
  then have "record_verify w r = Inr p \<and> er_key r = sk_public (w_crypto w) sk"
    using record_sign_verifies [of w p sk r] crypto codec p by simp
  then show ?thesis
    using p time by (simp add: record_verify_fresh_at_Inr_iff)
qed

text \<open>
  C32. Publishing: when \<open>EndpointRecord::publish\<close> returns a record, every verifier accepts it as
  fresh from the moment it was issued until its TTL ends, under the publisher's key, with the
  revision, addresses, relay locators and services it was published with.
\<close>

theorem published_record_verifies:
  assumes "record_publish w sk revision addrs urls services ttl (Inr now) = Inr r"
    and "p = \<lparr>pl_version = record_version, pl_key = sk_public (w_crypto w) sk, pl_revision = revision,
        pl_addrs = addrs, pl_relay_urls = urls, pl_services = services,
        pl_issued_at = now, pl_expires_at = now + as_secs ttl\<rparr>"
    and "signatures_ok (w_crypto w)"
    and "codec_at (w_record w) p"
    and "version_prefix (w_version w) (enc (w_record w) p) record_version"
    and "now \<le> t" "t < now + as_secs ttl"
  shows "record_verify_fresh_at w r t = Inr p \<and> er_key r = pl_key p"
  using assms by (rule published_record_verifies_lemma)

definition addr_a :: socket_addr where
  "addr_a = socket_addr_new (V4 10 0 0 1) 4433"

definition payload_a :: "u64 \<Rightarrow> payload" where
  "payload_a revision =
     \<lparr>pl_version = 1, pl_key = replicate 32 7, pl_revision = revision, pl_addrs = [addr_a],
      pl_relay_urls = [], pl_services = [SPing, SSync], pl_issued_at = 1000, pl_expires_at = 1600\<rparr>"

definition wire0 :: "u64 \<Rightarrow> wire" where
  "wire0 revision =
     \<lparr>w_crypto = crypto0, w_version = tag_codec 1 1, w_record = tag_codec 1 (payload_a revision),
      w_delete = tag_codec 1
        \<lparr>dp_version = 1, dp_key = replicate 32 7, dp_revision = 9, dp_issued_at = 1000, dp_expires_at = 1300\<rparr>,
      w_url = (\<lambda>_. None)\<rparr>"

definition record_a :: endpoint_record where
  "record_a = \<lparr>er_key = replicate 32 7, er_payload = [1], er_signature = replicate 64 7\<rparr>"

lemma payload_a_ok: "0 < n \<Longrightarrow> payload_ok w (payload_a n)"
  by (simp add: payload_ok_def payload_a_def addr_ok_def addr_a_def socket_addr_new_def record_version_def
      interval_ok_def max_record_ttl_def max_direct_addrs_def max_relay_urls_def)

lemma wire0_simps [simp]:
  "w_crypto (wire0 n) = crypto0" "w_version (wire0 n) = tag_codec 1 1"
  "w_record (wire0 n) = tag_codec 1 (payload_a n)"
  by (simp_all add: wire0_def)

lemma record_publish_a:
  "record_publish (wire0 5) (replicate 32 7) 5 [addr_a] [] [SPing, SSync] (from_secs 600) (Inr 1000)
   = Inr record_a"
proof -
  have "payload_validate (wire0 5) (payload_a 5) = Inr ()"
    by (simp add: payload_validate_Inr_iff payload_a_ok)
  then have "record_sign (wire0 5) (payload_a 5) (replicate 32 7) = Inr record_a"
    by (simp add: record_sign_def payload_a_def wire0_def crypto0_def auth_sign_def record_a_def
        max_record_bytes_def Let_def)
  then show ?thesis
    by (simp add: record_publish_def checked_add64_def u64_max_def payload_a_def record_version_def
        subsec_nanos_def from_secs_def as_secs_def nanos_per_sec_def crypto0_def)
qed

theorem published_record_verifies_witness:
  "record_verify_fresh_at (wire0 5) record_a 1599 = Inr (payload_a 5) \<and> er_key record_a = pl_key (payload_a 5)"
proof -
  have p: "payload_a 5 = \<lparr>pl_version = record_version, pl_key = sk_public (w_crypto (wire0 5)) (replicate 32 7),
      pl_revision = 5, pl_addrs = [addr_a], pl_relay_urls = [], pl_services = [SPing, SSync],
      pl_issued_at = 1000, pl_expires_at = 1000 + as_secs (from_secs 600)\<rparr>"
    by (simp add: payload_a_def record_version_def crypto0_def)
  show ?thesis
    using published_record_verifies [OF record_publish_a p, of 1599] crypto0_ok
    by (simp add: version_prefix_def record_version_def)
qed

text \<open>The locator's text survives printing and parsing, given what the URL parser reads from it.\<close>

lemma byte_nibbles [simp]: "unat (b :: byte) div 16 < 16"
  using byte_print(1) [of b] by linarith

lemma digits_pair: "digits_value 16 (print_hex2 b) = unat b"
  by (simp add: digits_value_def print_hex2_def)

lemma u8_from_hex_print: "u8_from_hex (print_hex2 b) = Some b"
proof -
  have d: "list_all (is_digit 16) (print_hex2 b)"
    by (simp add: print_hex2_def)
  then have "\<forall>c r. print_hex2 b = c # r \<longrightarrow> c \<noteq> CHR ''+''"
    by (auto simp: print_hex2_def is_digit_def digit_value_def)
  then show ?thesis
    using d digits_pair [of b] byte_print(1) [of b]
    by (auto simp: u8_from_hex_def Let_def print_hex2_def split: list.splits)
qed

lemma identity_bytes_print: "identity_bytes (concat (map print_hex2 bs)) = Inr bs"
proof (induction bs)
  case (Cons b bs)
  then show ?case using u8_from_hex_print [of b] by (simp add: print_hex2_def)
qed simp

definition route_url :: "owned_relay_route \<Rightarrow> url" where
  "route_url r =
     \<lparr>u_scheme = ''rds-relay'', u_username = concat (map print_hex2 (or_key r)), u_password = None,
      u_host = Some (case sa_ip (or_addr r) of V4 _ _ _ _ \<Rightarrow> Domain (print_ip (sa_ip (or_addr r)))
                     | V6 gs \<Rightarrow> Ipv6 gs),
      u_path = '''', u_query = None, u_fragment = None, u_port = Some (sa_port (or_addr r)),
      u_port_or_known_default = Some (sa_port (or_addr r))\<rparr>"

definition route_ok :: "crypto \<Rightarrow> owned_relay_route \<Rightarrow> bool" where
  "route_ok cr r \<longleftrightarrow>
     length (or_key r) = 32 \<and> vk_error cr (or_key r) = None \<and> addr_ok (or_addr r) \<and>
     sa_port (or_addr r) \<le> 65535 \<and> sa_flowinfo (or_addr r) = 0 \<and> sa_scope (or_addr r) = 0 \<and>
     ip_wf (sa_ip (or_addr r))"

lemma hex_text_length: "length (concat (map print_hex2 bs)) = 2 * length bs"
  by (induction bs) (simp_all add: print_hex2_def)

lemma hex_text_digits: "list_all (is_digit 16) (concat (map print_hex2 bs))"
  by (induction bs) (simp_all add: print_hex2_def)

lemma print_v6_length: "length gs = 8 \<Longrightarrow> length (print_v6 gs) \<le> 40"
proof (cases "to_ipv4_mapped gs")
  case (Some m)
  then obtain a b c d where "m = V4 a b c d" using ipv4_mapped_V4 by blast
  then show ?thesis using Some print_v4_length(1) [of a b c d] by (simp add: print_v6_def)
qed (rule print_v6_shape(1))

lemma socket_text_length:
  "ip_wf (sa_ip a) \<Longrightarrow> sa_scope a = 0 \<Longrightarrow> sa_port a \<le> 65535 \<Longrightarrow> length (print_socket_addr a) \<le> 48"
proof (cases "sa_ip a")
  case (V4 b c d e)
  assume "sa_port a \<le> 65535"
  then show ?thesis
    using V4 print_number_length [of 10 "sa_port a" 5] print_v4_length(1) [of b c d e]
    by (simp add: print_socket_addr_def)
next
  case (V6 gs)
  assume "sa_port a \<le> 65535" "ip_wf (sa_ip a)" "sa_scope a = 0"
  then show ?thesis
    using V6 print_number_length [of 10 "sa_port a" 5] print_v6_length [of gs]
    by (simp add: print_socket_addr_def)
qed

lemma host_ip_route:
  "ip_wf ip \<Longrightarrow>
   host_ip (case ip of V4 _ _ _ _ \<Rightarrow> Domain (print_ip ip) | V6 gs \<Rightarrow> Ipv6 gs) = Inr ip"
  using parse_ip_print [of ip] by (cases ip) (simp_all add: host_ip_def)

lemma relay_route_roundtrip_lemma:
  assumes "route_ok cr r" "parse_url (relay_route_to_string r) = Some (route_url r)"
  shows "relay_route_from_str cr parse_url (relay_route_to_string r) = Inr r"
proof -
  have "length (relay_route_to_string r) \<le> max_relay_url_bytes"
    using assms(1) socket_text_length [of "or_addr r"]
    by (simp add: relay_route_to_string_def route_ok_def max_relay_url_bytes_def hex_text_length)
  moreover have "socket_addr_new (sa_ip (or_addr r)) (sa_port (or_addr r)) = or_addr r"
    using assms(1) by (simp add: route_ok_def socket_addr_new_def)
  ultimately show ?thesis
    using assms host_ip_route [of "sa_ip (or_addr r)"]
    by (simp add: relay_route_from_str_def route_url_def route_ok_def addr_ok_def hex_text_length
        hex_text_digits identity_bytes_print Let_def)
qed

text \<open>
  A relay locator with a valid 32-byte identity and a usable socket address prints to a
  text that parses back to it. The URL parser is assumed to split that text into scheme, user,
  host and port: an IPv4 literal as an opaque host name, an IPv6 literal as its groups.
\<close>

theorem relay_route_roundtrip:
  assumes "route_ok cr r" and "parse_url (relay_route_to_string r) = Some (route_url r)"
  shows "relay_route_from_str cr parse_url (relay_route_to_string r) = Inr r"
  using assms by (rule relay_route_roundtrip_lemma)

definition route_a :: owned_relay_route where
  "route_a = \<lparr>or_key = replicate 32 7, or_addr = addr_a\<rparr>"

lemma route_a_ok: "route_ok crypto0 route_a"
  by (simp add: route_ok_def route_a_def addr_a_def addr_ok_def socket_addr_new_def crypto0_def)

theorem relay_route_roundtrip_witness:
  "relay_route_from_str crypto0 (\<lambda>_. Some (route_url route_a)) (relay_route_to_string route_a) = Inr route_a"
  by (rule relay_route_roundtrip [OF route_a_ok]) simp

end
