(* ===== verification/Rds_Record_Entry.thy ===== *)
theory Rds_Record_Entry
  imports Rds_Record_Wire Rds_Clock
begin

text \<open>
  One identity of the record stores (\<open>rds-discovery/src/records/entry.rs\<close>): the signed
  record or deletion with its local lease, the revision floor left when that content is
  retired, and the decision both stores take on every access. The lemmas say when content is
  replaced, that the floor never falls and that a replay is refused.
\<close>

section \<open>Entries\<close>

datatype entry = ERecord endpoint_record | EDeleted delete_request

datatype stored = Active entry lease | Retired u64 bytes bool

text \<open>What the stores need besides the wire formats: the serialization of an entry.\<close>

record store_ctx =
  sx_wire :: wire
  sx_entry :: "entry \<Rightarrow> bytes"

definition record_error :: "string \<Rightarrow> discovery_error" where
  "record_error e = Store e"

definition entry_details ::
  "store_ctx \<Rightarrow> entry \<Rightarrow> endpoint_key \<Rightarrow> (discovery_error, u64 \<times> u64 \<times> u64) result" where
  "entry_details x e key =
     rbind
       (case e of
          ERecord r \<Rightarrow>
            rbind (record_verify (sx_wire x) r) (\<lambda>p.
            Inr (pl_key p, pl_revision p, pl_issued_at p, pl_expires_at p))
        | EDeleted tomb \<Rightarrow>
            rbind (delete_verify (sx_wire x) tomb) (\<lambda>p.
            Inr (dp_key p, dp_revision p, dp_issued_at p, dp_expires_at p)))
       (\<lambda>(actual, revision, issued, expires).
     rbind (ensure (actual = key) BadSignature) (\<lambda>_.
     Inr (revision, issued, expires)))"

definition entry_digest :: "store_ctx \<Rightarrow> entry \<Rightarrow> bytes" where
  "entry_digest x e = blake3 (w_crypto (sx_wire x)) (sx_entry x e)"

section \<open>Stored cells\<close>

definition stored_verify :: "store_ctx \<Rightarrow> stored \<Rightarrow> endpoint_key \<Rightarrow> (discovery_error, u64) result" where
  "stored_verify x s key =
     (case s of
        Active e lease \<Rightarrow>
          rbind (entry_details x e key) (\<lambda>(revision, issued, expires).
          rbind (ensure (matches_interval lease issued expires)
                  (record_error ''stored record lease disagrees with signed interval'')) (\<lambda>_.
          Inr revision))
      | Retired revision _ _ \<Rightarrow>
          rbind (ensure (vk_error (w_crypto (sx_wire x)) key = None) BadSignature) (\<lambda>_.
          rbind (ensure (revision \<noteq> 0) (record_error ''retired record has no revision floor'')) (\<lambda>_.
          Inr revision)))"

fun stored_live :: "stored \<Rightarrow> bool" where
  "stored_live (Active (ERecord _) _) = True"
| "stored_live _ = False"

fun stored_accepted_wall :: "stored \<Rightarrow> duration" where
  "stored_accepted_wall (Active _ lease) = l_accepted_wall lease"
| "stored_accepted_wall (Retired _ _ _) = 0"

fun stored_digest :: "store_ctx \<Rightarrow> stored \<Rightarrow> bytes" where
  "stored_digest x (Active e _) = entry_digest x e"
| "stored_digest x (Retired _ digest _) = digest"

fun is_deleted :: "entry \<Rightarrow> bool" where
  "is_deleted (EDeleted _) = True"
| "is_deleted (ERecord _) = False"

definition stored_retire ::
  "store_ctx \<Rightarrow> stored \<Rightarrow> endpoint_key \<Rightarrow> reading \<Rightarrow> (discovery_error, stored option) result" where
  "stored_retire x s key now =
     (case s of
        Active e lease \<Rightarrow>
          if \<not> valid_at lease now
          then rbind (stored_verify x s key) (\<lambda>revision.
               Inr (Some (Retired revision (entry_digest x e) (is_deleted e))))
          else Inr None
      | Retired _ _ _ \<Rightarrow> Inr None)"

fun stored_read :: "stored \<Rightarrow> (discovery_error, endpoint_record option) result" where
  "stored_read (Active (ERecord r) _) = Inr (Some r)"
| "stored_read (Retired _ _ False) = Inl Expired"
| "stored_read _ = Inl NotFound"

fun is_active :: "stored \<Rightarrow> bool" where
  "is_active (Active _ _) = True"
| "is_active (Retired _ _ _) = False"

section \<open>The decision\<close>

record decision =
  dc_replacement :: "stored option"
  dc_result :: "(discovery_error, endpoint_record option) result"

text \<open>\<open>old.map(f).transpose()?\<close>\<close>

definition transpose_map ::
  "('a \<Rightarrow> ('e, 'b) result) \<Rightarrow> 'a option \<Rightarrow> ('e, 'b option) result" where
  "transpose_map f o1 = (case o1 of None \<Rightarrow> Inr None | Some v \<Rightarrow> rbind (f v) (\<lambda>y. Inr (Some y)))"

definition or_else :: "'a option \<Rightarrow> 'a option \<Rightarrow> 'a option" where
  "or_else a b = (case a of None \<Rightarrow> b | Some v \<Rightarrow> Some v)"

text \<open>What an incoming entry does to the current cell, once its details are known.\<close>

definition decide_incoming ::
  "store_ctx \<Rightarrow> stored option \<Rightarrow> stored option \<Rightarrow> entry \<Rightarrow> endpoint_key \<Rightarrow> reading \<Rightarrow>
     (discovery_error, decision) result" where
  "decide_incoming x retired current e key now =
     rbind (entry_details x e key) (\<lambda>(revision, issued, expires).
     case lease_new issued expires now of
       Inl err \<Rightarrow> Inr \<lparr>dc_replacement = retired, dc_result = Inl err\<rparr>
     | Inr lease \<Rightarrow>
         rbind (transpose_map (\<lambda>old. stored_verify x old key) current) (\<lambda>previous.
         if (case previous of None \<Rightarrow> True | Some p \<Rightarrow> revision > p)
         then Inr \<lparr>dc_replacement = Some (Active e lease), dc_result = Inr None\<rparr>
         else Inr \<lparr>dc_replacement = retired,
                   dc_result =
                     (if previous = Some revision
                         \<and> map_option (stored_digest x) current = Some (entry_digest x e)
                      then (if (case current of Some (Retired _ _ _) \<Rightarrow> True | _ \<Rightarrow> False)
                            then Inl Expired else Inr None)
                      else Inl Stale)\<rparr>))"

definition decide ::
  "store_ctx \<Rightarrow> stored option \<Rightarrow> entry option \<Rightarrow> endpoint_key \<Rightarrow> reading \<Rightarrow>
     (discovery_error, decision) result" where
  "decide x old incoming key now =
     rbind (transpose_map (\<lambda>s. stored_retire x s key now) old) (\<lambda>retired0.
     let retired = (case retired0 of None \<Rightarrow> None | Some r \<Rightarrow> r);
         current = or_else retired old
     in case incoming of
          Some e \<Rightarrow> decide_incoming x retired current e key now
        | None \<Rightarrow>
            Inr \<lparr>dc_replacement = retired,
                 dc_result = rbind (ok_or NotFound current) stored_read\<rparr>)"

definition observe :: "duration \<Rightarrow> duration \<Rightarrow> reading \<Rightarrow> (discovery_error, duration) result" where
  "observe wall_floor observed now =
     rbind (ensure (\<not> (r_wall now < wall_floor \<or> r_wall now < observed))
             (record_error ''record store wall clock moved backwards'')) (\<lambda>_.
     Inr (r_wall now))"

section \<open>Sound cells and their floor\<close>

definition cell_ok :: "store_ctx \<Rightarrow> endpoint_key \<Rightarrow> stored \<Rightarrow> bool" where
  "cell_ok x key s \<longleftrightarrow> is_ok (stored_verify x s key)"

text \<open>The revision an identity can no longer go back to; 0 when nothing is known of it.\<close>

definition cell_floor :: "store_ctx \<Rightarrow> endpoint_key \<Rightarrow> stored option \<Rightarrow> u64" where
  "cell_floor x key c =
     (case c of None \<Rightarrow> 0 | Some s \<Rightarrow> (case stored_verify x s key of Inr r \<Rightarrow> r | Inl _ \<Rightarrow> 0))"

lemma cell_floor_None [simp]: "cell_floor x key None = 0"
  by (simp add: cell_floor_def)

lemma entry_details_Inr:
  "entry_details x e key = Inr (revision, issued, expires) \<Longrightarrow>
     0 < revision \<and> vk_error (w_crypto (sx_wire x)) key = None"
  by (cases e)
     (auto simp: entry_details_def res_simps record_verify_Inr_iff delete_verify_Inr_iff payload_ok_def
       delete_payload_ok_def)

lemma stored_verify_Inr:
  "stored_verify x s key = Inr revision \<Longrightarrow> 0 < revision \<and> vk_error (w_crypto (sx_wire x)) key = None"
  by (cases s) (auto simp: stored_verify_def res_simps dest: entry_details_Inr)

lemma cell_ok_floor:
  assumes "cell_ok x key s"
  shows "stored_verify x s key = Inr (cell_floor x key (Some s))" "0 < cell_floor x key (Some s)"
    "vk_error (w_crypto (sx_wire x)) key = None"
  using assms stored_verify_Inr by (auto simp: cell_ok_def is_ok_iff cell_floor_def)

lemma retired_verify:
  "vk_error (w_crypto (sx_wire x)) key = None \<Longrightarrow> 0 < r \<Longrightarrow> stored_verify x (Retired r d b) key = Inr r"
  by (simp add: stored_verify_def)

lemma active_verify:
  "entry_details x e key = Inr (revision, issued, expires) \<Longrightarrow> matches_interval l issued expires \<Longrightarrow>
   stored_verify x (Active e l) key = Inr revision"
  by (simp add: stored_verify_def)

text \<open>The cell once an expiry has been observed: content that is no longer valid leaves its floor.\<close>

definition settled :: "store_ctx \<Rightarrow> endpoint_key \<Rightarrow> reading \<Rightarrow> stored \<Rightarrow> stored" where
  "settled x key now s =
     (case s of
        Active e l \<Rightarrow>
          if valid_at l now then s
          else Retired (cell_floor x key (Some s)) (entry_digest x e) (is_deleted e)
      | Retired _ _ _ \<Rightarrow> s)"

definition expired :: "reading \<Rightarrow> stored \<Rightarrow> bool" where
  "expired now s \<longleftrightarrow> (case s of Active _ l \<Rightarrow> \<not> valid_at l now | Retired _ _ _ \<Rightarrow> False)"

lemma stored_retire_eq:
  "cell_ok x key s \<Longrightarrow>
   stored_retire x s key now = Inr (if expired now s then Some (settled x key now s) else None)"
  using cell_ok_floor [of x key s]
  by (cases s) (auto simp: stored_retire_def expired_def settled_def)

lemma settled_not_expired [simp]: "\<not> expired now s \<Longrightarrow> settled x key now s = s"
  by (cases s) (auto simp: expired_def settled_def)

lemma settled_expired:
  "expired now s \<Longrightarrow> \<exists>d b. settled x key now s = Retired (cell_floor x key (Some s)) d b"
  by (cases s) (auto simp: expired_def settled_def)

lemma settled_ok:
  assumes "cell_ok x key s"
  shows "cell_ok x key (settled x key now s)"
    "cell_floor x key (Some (settled x key now s)) = cell_floor x key (Some s)"
proof -
  have "stored_verify x (settled x key now s) key = Inr (cell_floor x key (Some s))"
  proof (cases "expired now s")
    case True
    then show ?thesis
      using settled_expired [OF True, of x key] retired_verify cell_ok_floor [OF assms] by metis
  next
    case False
    then show ?thesis using cell_ok_floor [OF assms] by simp
  qed
  then show "cell_ok x key (settled x key now s)"
    "cell_floor x key (Some (settled x key now s)) = cell_floor x key (Some s)"
    by (simp_all add: cell_ok_def cell_floor_def)
qed

lemma settled_digest [simp]: "stored_digest x (settled x key now s) = stored_digest x s"
  by (cases s) (simp_all add: settled_def)

lemma settled_live: "expired now s \<Longrightarrow> \<not> stored_live (settled x key now s)"
  using settled_expired [of now s x key] by auto

section \<open>What the decision does\<close>

definition retirement :: "store_ctx \<Rightarrow> endpoint_key \<Rightarrow> reading \<Rightarrow> stored option \<Rightarrow> stored option" where
  "retirement x key now old =
     (case old of Some s \<Rightarrow> if expired now s then Some (settled x key now s) else None | None \<Rightarrow> None)"

lemma decide_unfold:
  assumes "pred_option (cell_ok x key) old"
  shows "decide x old incoming key now =
     (let current = map_option (settled x key now) old in
      case incoming of
        Some e \<Rightarrow> decide_incoming x (retirement x key now old) current e key now
      | None \<Rightarrow> Inr \<lparr>dc_replacement = retirement x key now old,
                    dc_result = rbind (ok_or NotFound current) stored_read\<rparr>)"
  using assms stored_retire_eq [of x key _ now]
  by (cases old; cases incoming)
     (auto simp: decide_def transpose_map_def retirement_def or_else_def Let_def)

text \<open>The entry of a new revision is exactly what an accepted access puts in place.\<close>

definition fresh_entry ::
  "store_ctx \<Rightarrow> endpoint_key \<Rightarrow> reading \<Rightarrow> stored option \<Rightarrow> entry \<Rightarrow> u64 \<Rightarrow> lease \<Rightarrow> bool" where
  "fresh_entry x key now old e revision l \<longleftrightarrow>
     (\<exists>issued expires. entry_details x e key = Inr (revision, issued, expires) \<and>
        lease_new issued expires now = Inr l) \<and> cell_floor x key old < revision"

lemma fresh_entry_cell:
  "fresh_entry x key now old e revision l \<Longrightarrow> stored_verify x (Active e l) key = Inr revision"
  using lease_new_matches active_verify by (fastforce simp: fresh_entry_def)

lemma retirement_not_active: "retirement x key now old = Some s \<Longrightarrow> \<not> is_active s"
  using settled_expired [of now _ x key]
  by (auto simp: retirement_def split: option.splits if_splits) (metis is_active.simps(2))

lemma retirement_floor:
  assumes "pred_option (cell_ok x key) old" "retirement x key now old = Some s"
  shows "cell_ok x key s \<and> cell_floor x key (Some s) = cell_floor x key old"
  using assms settled_ok [of x key] by (auto simp: retirement_def split: option.splits if_splits)

lemma current_floor:
  assumes "pred_option (cell_ok x key) old"
  shows "transpose_map (\<lambda>s. stored_verify x s key) (map_option (settled x key now) old)
         = Inr (map_option (\<lambda>s. cell_floor x key old) old)"
proof (cases old)
  case (Some s)
  then have ok: "cell_ok x key s" using assms by simp
  then show ?thesis
    using Some cell_ok_floor(1) [OF settled_ok(1) [OF ok, of now]] settled_ok(2) [OF ok, of now]
    by (simp add: transpose_map_def)
qed (simp add: transpose_map_def)

text \<open>Every outcome of an incoming entry that verifies for the key.\<close>

lemma decide_incoming_cases:
  assumes ok: "pred_option (cell_ok x key) old" and det: "entry_details x e key = Inr (revision, issued, expires)"
  shows "decide x old (Some e) key now =
     Inr (case lease_new issued expires now of
            Inl err \<Rightarrow> \<lparr>dc_replacement = retirement x key now old, dc_result = Inl err\<rparr>
          | Inr l \<Rightarrow>
              if cell_floor x key old < revision
              then \<lparr>dc_replacement = Some (Active e l), dc_result = Inr None\<rparr>
              else \<lparr>dc_replacement = retirement x key now old,
                    dc_result =
                      (if cell_floor x key old = revision
                          \<and> map_option (stored_digest x) old = Some (entry_digest x e)
                       then (if map_option is_active (map_option (settled x key now) old) = Some False
                             then Inl Expired else Inr None)
                       else Inl Stale)\<rparr>)"
proof (cases "lease_new issued expires now")
  case (Inr l)
  have pos: "0 < revision" using entry_details_Inr [OF det] by simp
  show ?thesis
  proof (cases old)
    case None
    then show ?thesis
      using Inr det pos current_floor [OF ok, of now]
      unfolding decide_unfold [OF ok] by (simp add: decide_incoming_def)
  next
    case (Some s)
    then show ?thesis
      using Inr det pos current_floor [OF ok, of now]
      unfolding decide_unfold [OF ok]
      by (cases "settled x key now s")
         (auto simp: decide_incoming_def comp_def
           dest: arg_cong [where f = "stored_digest x"])
  qed
qed (simp add: decide_unfold [OF ok] decide_incoming_def det)

lemma decide_replacement:
  assumes ok: "pred_option (cell_ok x key) old" and dec: "decide x old incoming key now = Inr d"
  shows "dc_replacement d = retirement x key now old \<or>
     (\<exists>e l revision. incoming = Some e \<and> dc_replacement d = Some (Active e l) \<and> dc_result d = Inr None \<and>
        fresh_entry x key now old e revision l)"
proof (cases incoming)
  case None
  then show ?thesis using dec by (auto simp: decide_unfold [OF ok])
next
  case (Some e)
  obtain revision issued expires where det: "entry_details x e key = Inr (revision, issued, expires)"
    using dec Some by (auto simp: decide_unfold [OF ok] decide_incoming_def res_simps Let_def)
  show ?thesis
    using dec Some det unfolding Some decide_incoming_cases [OF ok det]
    by (auto simp: fresh_entry_def split: sum.splits if_splits)
qed

lemma decide_replacement_floor:
  assumes ok: "pred_option (cell_ok x key) old" and dec: "decide x old incoming key now = Inr d"
    and s: "dc_replacement d = Some s"
  shows "cell_ok x key s" "cell_floor x key old \<le> cell_floor x key (Some s)"
    "is_active s \<longleftrightarrow> cell_floor x key old < cell_floor x key (Some s)"
proof -
  consider "retirement x key now old = Some s"
    | e l revision where "s = Active e l" "fresh_entry x key now old e revision l"
    using decide_replacement [OF ok dec] s by auto
  then have "cell_ok x key s \<and> cell_floor x key old \<le> cell_floor x key (Some s) \<and>
    (is_active s \<longleftrightarrow> cell_floor x key old < cell_floor x key (Some s))"
  proof cases
    case 1
    then show ?thesis using retirement_floor [OF ok 1] retirement_not_active [OF 1] by simp
  next
    case 2
    then show ?thesis
      using fresh_entry_cell [OF 2(2)] by (auto simp: cell_ok_def cell_floor_def fresh_entry_def)
  qed
  then show "cell_ok x key s" "cell_floor x key old \<le> cell_floor x key (Some s)"
    "is_active s \<longleftrightarrow> cell_floor x key old < cell_floor x key (Some s)" by auto
qed

end
