(* ===== verification/Rds_Observation.thy ===== *)
theory Rds_Observation
  imports Rds_Prelude
begin

text \<open>
  The metadata-only publication of a component's state (\<open>rds-discovery/src/observation.rs\<close>):
  an owner marks the value unknown while it works and publishes it when it is done.
\<close>

text \<open>\<open>Published\<close>: whether a transaction is open, and the value (\<open>observation.rs\<close>).\<close>

type_synonym 'a published = "bool \<times> 'a"

definition pub_begin :: "'a published \<Rightarrow> 'a published" where
  "pub_begin p = (True, snd p)"

definition pub_finish :: "('a \<Rightarrow> 'a) \<Rightarrow> 'a published \<Rightarrow> 'a published" where
  "pub_finish update p = (False, update (snd p))"

definition pub_snapshot :: "'a published \<Rightarrow> 'a option" where
  "pub_snapshot p = (if \<not> fst p then Some (snd p) else None)"

lemma pub_snapshot_finish [simp]: "pub_snapshot (pub_finish f p) = Some (f (snd p))"
  by (simp add: pub_snapshot_def pub_finish_def)

lemma pub_snapshot_begin [simp]: "pub_snapshot (pub_begin p) = None" "snd (pub_begin p) = snd p"
  by (simp_all add: pub_snapshot_def pub_begin_def)

end
