(* ===== verification/Rds_Record_Memory.thy ===== *)
theory Rds_Record_Memory
  imports Rds_Record_Entry Rds_Observation
begin

text \<open>
  The in-memory record store (\<open>rds-discovery/src/records/memory.rs\<close>) behind the
  \<open>RecordStore\<close> trait of \<open>rds-discovery/src/lib.rs\<close>. A mutation's admission callback is a
  parameter that threads its own state, so that the lemmas can say when it is called.
\<close>

section \<open>State\<close>

record record_snapshot =
  rs_healthy :: bool
  rs_durable :: bool
  rs_generation :: "u64 option"
  rs_records :: u64
  rs_identities :: u64
  rs_capacity :: u64

record memory =
  me_entries :: "(bytes, stored) btree"
  me_observed_wall :: duration
  me_live :: "64 word"
  me_cursor :: "bytes option"

record memory_store =
  ms_inner :: memory
  ms_poisoned :: bool
  ms_capacity :: usize
  ms_observed :: "record_snapshot published"

definition max_identities :: usize where "max_identities = 4096"
definition gc_batch :: usize where "gc_batch = 64"

definition memory_empty :: memory where
  "memory_empty = \<lparr>me_entries = [], me_observed_wall = 0, me_live = 0, me_cursor = None\<rparr>"

definition memory_default :: memory_store where
  "memory_default =
     \<lparr>ms_inner = memory_empty, ms_poisoned = False, ms_capacity = max_identities,
      ms_observed = (False, \<lparr>rs_healthy = True, rs_durable = False, rs_generation = None, rs_records = 0,
                            rs_identities = 0, rs_capacity = max_identities\<rparr>)\<rparr>"

definition with_capacity :: "usize \<Rightarrow> (discovery_error, memory_store) result" where
  "with_capacity identities =
     rbind (ensure (\<not> (identities = 0 \<or> identities > max_identities))
             (Configuration ''record capacity must be 1..=4096 identities'')) (\<lambda>_.
     Inr (memory_default\<lparr>ms_capacity := identities,
            ms_observed := pub_finish (\<lambda>s. s\<lparr>rs_capacity := identities\<rparr>) (ms_observed memory_default)\<rparr>))"

section \<open>Operations\<close>

text \<open>The admission callback: whether the identity is known, and its own state.\<close>

type_synonym 'a admit = "bool \<Rightarrow> 'a \<Rightarrow> 'a \<times> (discovery_error, unit) result"

definition admit_all :: "'a admit" where
  "admit_all known a = (a, Inr ())"

definition memory_observed_access ::
  "(memory \<times> 'a \<Rightarrow> (memory \<times> 'a) \<times> (discovery_error, 'b) result) \<Rightarrow> memory_store \<times> 'a \<Rightarrow>
     (memory_store \<times> 'a) \<times> (discovery_error, 'b) result" where
  "memory_observed_access work sa =
     (case sa of (s, a) \<Rightarrow>
        if ms_poisoned s
        then ((s\<lparr>ms_observed := pub_finish (\<lambda>n. n\<lparr>rs_healthy := False\<rparr>) (ms_observed s)\<rparr>, a),
              Inl (record_error ''poisoned lock: another task failed inside''))
        else (case work (ms_inner s, a) of ((m, a2), r) \<Rightarrow>
                ((s\<lparr>ms_inner := m,
                    ms_observed := pub_finish
                      (\<lambda>n. n\<lparr>rs_records := unat (me_live m), rs_identities := length (me_entries m)\<rparr>)
                      (pub_begin (ms_observed s))\<rparr>, a2), r)))"

definition memory_put :: "bytes \<Rightarrow> stored \<Rightarrow> memory \<Rightarrow> memory" where
  "memory_put key replacement m =
     m\<lparr>me_live := me_live m
          - of_bool (case map_of (me_entries m) key of Some old \<Rightarrow> stored_live old | None \<Rightarrow> False)
          + of_bool (stored_live replacement),
       me_entries := bt_put key replacement (me_entries m)\<rparr>"

definition memory_access_admitted ::
  "store_ctx \<Rightarrow> usize \<Rightarrow> endpoint_key \<Rightarrow> entry option \<Rightarrow> (discovery_error, reading) result \<Rightarrow> 'a admit \<Rightarrow>
     memory \<times> 'a \<Rightarrow> (memory \<times> 'a) \<times> (discovery_error, endpoint_record option) result" where
  "memory_access_admitted x capacity key e clock admit ma =
     (case ma of (m0, a) \<Rightarrow>
        attempt (m0, a) clock (\<lambda>now.
        attempt (m0, a) (observe 0 (me_observed_wall m0) now) (\<lambda>wall.
        let m = m0\<lparr>me_observed_wall := wall\<rparr> in
        attempt (m, a) (decide x (map_of (me_entries m) key) e key now) (\<lambda>d.
        case dc_replacement d of
          None \<Rightarrow> ((m, a), dc_result d)
        | Some replacement \<Rightarrow>
            (let known = (map_of (me_entries m) key \<noteq> None) in
             attempt (m, a)
               (ensure (\<not> (\<not> known \<and> length (me_entries m) \<ge> capacity))
                 (record_error ''record identity capacity exceeded'')) (\<lambda>_.
             and_then
               (if is_active replacement then (case admit known a of (a2, r) \<Rightarrow> ((m, a2), r))
                else ((m, a), Inr ()))
               (\<lambda>(m, a2) _. ((memory_put key replacement m, a2), dc_result d))))))))"

fun memory_collect_loop ::
  "store_ctx \<Rightarrow> reading \<Rightarrow> bytes list \<Rightarrow> nat \<Rightarrow> memory \<Rightarrow> memory \<times> (discovery_error, nat) result" where
  "memory_collect_loop x now [] retired m = (m, Inr retired)"
| "memory_collect_loop x now (key # keys) retired m =
     (case map_of (me_entries m) key of
        None \<Rightarrow> memory_collect_loop x now keys retired m
      | Some old \<Rightarrow>
          attempt m (stored_retire x old key now) (\<lambda>r.
          case r of
            None \<Rightarrow> memory_collect_loop x now keys retired m
          | Some cell \<Rightarrow>
              memory_collect_loop x now keys (retired + 1)
                (m\<lparr>me_live := me_live m - of_bool (stored_live old),
                   me_entries := bt_put key cell (me_entries m)\<rparr>)))"

definition memory_collect_at ::
  "store_ctx \<Rightarrow> (discovery_error, reading) result \<Rightarrow> memory \<times> 'a \<Rightarrow>
     (memory \<times> 'a) \<times> (discovery_error, nat) result" where
  "memory_collect_at x clock ma =
     (case ma of (m0, a) \<Rightarrow>
        attempt (m0, a) clock (\<lambda>now.
        attempt (m0, a) (observe 0 (me_observed_wall m0) now) (\<lambda>wall.
        let m = m0\<lparr>me_observed_wall := wall\<rparr>;
            keys = map fst (take gc_batch (bt_after (me_cursor m) (me_entries m)));
            m2 = m\<lparr>me_cursor := (if length keys = gc_batch then Some (last keys) else None)\<rparr>
        in case memory_collect_loop x now keys 0 m2 of (m3, r) \<Rightarrow> ((m3, a), r))))"

section \<open>The trait\<close>

definition memory_put_admitted ::
  "store_ctx \<Rightarrow> endpoint_record \<Rightarrow> (discovery_error, reading) result \<Rightarrow> 'a admit \<Rightarrow> memory_store \<times> 'a \<Rightarrow>
     (memory_store \<times> 'a) \<times> (discovery_error, unit) result" where
  "memory_put_admitted x r clock admit sa =
     attempt sa (record_verify (sx_wire x) r) (\<lambda>p.
     and_then
       (memory_observed_access
         (memory_access_admitted x (ms_capacity (fst sa)) (pl_key p) (Some (ERecord r)) clock admit) sa)
       (\<lambda>sa _. (sa, Inr ())))"

definition memory_get ::
  "store_ctx \<Rightarrow> endpoint_key \<Rightarrow> (discovery_error, reading) result \<Rightarrow> memory_store \<times> 'a \<Rightarrow>
     (memory_store \<times> 'a) \<times> (discovery_error, endpoint_record) result" where
  "memory_get x key clock sa =
     and_then
       (memory_observed_access
         (memory_access_admitted x (ms_capacity (fst sa)) key None clock admit_all) sa)
       (\<lambda>sa r. (sa, ok_or NotFound r))"

definition memory_remove_admitted ::
  "store_ctx \<Rightarrow> delete_request \<Rightarrow> (discovery_error, reading) result \<Rightarrow> 'a admit \<Rightarrow> memory_store \<times> 'a \<Rightarrow>
     (memory_store \<times> 'a) \<times> (discovery_error, unit) result" where
  "memory_remove_admitted x tomb clock admit sa =
     attempt sa (delete_verify (sx_wire x) tomb) (\<lambda>p.
     and_then
       (memory_observed_access
         (memory_access_admitted x (ms_capacity (fst sa)) (dp_key p) (Some (EDeleted tomb)) clock admit) sa)
       (\<lambda>sa _. (sa, Inr ())))"

definition memory_collect_expired ::
  "store_ctx \<Rightarrow> (discovery_error, reading) result \<Rightarrow> memory_store \<times> 'a \<Rightarrow>
     (memory_store \<times> 'a) \<times> (discovery_error, nat) result" where
  "memory_collect_expired x clock sa = memory_observed_access (memory_collect_at x clock) sa"

definition memory_len :: "memory_store \<Rightarrow> usize" where
  "memory_len s = (if ms_poisoned s then 0 else bt_count stored_live (me_entries (ms_inner s)))"

section \<open>Invariant\<close>

text \<open>
  The catalog of identities: in key order, within the capacity, every cell sound; the live
  counter is exact, so its subtraction never wraps.
\<close>

definition catalog_ok :: "store_ctx \<Rightarrow> (bytes, stored) btree \<Rightarrow> bool" where
  "catalog_ok x es \<longleftrightarrow> bt_wf es \<and> (\<forall>k s. map_of es k = Some s \<longrightarrow> cell_ok x k s)"

definition memory_inv :: "store_ctx \<Rightarrow> usize \<Rightarrow> memory \<Rightarrow> bool" where
  "memory_inv x capacity m \<longleftrightarrow>
     catalog_ok x (me_entries m) \<and> length (me_entries m) \<le> capacity \<and> capacity \<le> max_identities \<and>
     me_live m = of_nat (bt_count stored_live (me_entries m))"

definition catalog_floor :: "store_ctx \<Rightarrow> (bytes, stored) btree \<Rightarrow> bytes \<Rightarrow> u64" where
  "catalog_floor x es k = cell_floor x k (map_of es k)"

lemma catalog_ok_Nil [simp]: "catalog_ok x []"
  by (simp add: catalog_ok_def)

lemma catalog_ok_get: "catalog_ok x es \<Longrightarrow> pred_option (cell_ok x k) (map_of es k)"
  by (cases "map_of es k") (auto simp: catalog_ok_def)

lemma catalog_ok_put: "catalog_ok x es \<Longrightarrow> cell_ok x k s \<Longrightarrow> catalog_ok x (bt_put k s es)"
  by (auto simp: catalog_ok_def split: if_splits)

lemma catalog_floor_put:
  "bt_wf es \<Longrightarrow> catalog_floor x (bt_put k s es) j =
     (if j = k then cell_floor x k (Some s) else catalog_floor x es j)"
  by (simp add: catalog_floor_def)

lemma live_counter_put:
  assumes "bt_wf es" "l = of_nat (bt_count stored_live es)"
  shows "l - of_bool (case map_of es k of Some old \<Rightarrow> stored_live old | None \<Rightarrow> False)
           + of_bool (stored_live s) = (of_nat (bt_count stored_live (bt_put k s es)) :: 64 word)"
proof -
  have "(of_int (int (bt_count stored_live (bt_put k s es))) :: 64 word) =
      of_int (int (bt_count stored_live es)
       - (case map_of es k of None \<Rightarrow> 0 | Some old \<Rightarrow> of_bool (stored_live old)) + of_bool (stored_live s))"
    by (simp only: bt_count_put [OF assms(1)])
  then show ?thesis
    using assms(2) by (cases "map_of es k") (auto simp: of_bool_def)
qed

lemma memory_put_inv:
  assumes "memory_inv x capacity m" "cell_ok x k s"
    "map_of (me_entries m) k \<noteq> None \<or> length (me_entries m) < capacity"
  shows "memory_inv x capacity (memory_put k s m)"
proof -
  have "length (bt_put k s (me_entries m)) \<le> capacity"
    using assms bt_put_length [of "me_entries m" k s] by (auto simp: memory_inv_def catalog_ok_def)
  then show ?thesis
    using assms catalog_ok_put [of x "me_entries m" k s] live_counter_put [of "me_entries m" "me_live m" k s]
    by (simp add: memory_inv_def memory_put_def catalog_ok_def)
qed

section \<open>Access\<close>

text \<open>Whether an access installs a new revision, and everything else it can do.\<close>

definition raises ::
  "store_ctx \<Rightarrow> endpoint_key \<Rightarrow> (bytes, stored) btree \<Rightarrow> duration \<Rightarrow> entry option \<Rightarrow>
     (discovery_error, reading) result \<Rightarrow> entry \<Rightarrow> reading \<Rightarrow> lease \<Rightarrow> u64 \<Rightarrow> bool" where
  "raises x key es wall incoming clock e now l revision \<longleftrightarrow>
     incoming = Some e \<and> clock = Inr now \<and> wall \<le> r_wall now \<and>
     fresh_entry x key now (map_of es key) e revision l"

lemma observe_Inr_iff [res_simps]:
  "observe f w now = Inr v \<longleftrightarrow> f \<le> r_wall now \<and> w \<le> r_wall now \<and> v = r_wall now"
  by (auto simp: observe_def res_simps)

lemma memory_access_new:
  assumes inv: "memory_inv x capacity m"
    and new: "raises x key (me_entries m) (me_observed_wall m) incoming clock e now l revision"
  shows "memory_access_admitted x capacity key incoming clock admit (m, a) =
     (let m1 = m\<lparr>me_observed_wall := r_wall now\<rparr>; known = (map_of (me_entries m) key \<noteq> None) in
      if \<not> known \<and> capacity \<le> length (me_entries m)
      then ((m1, a), Inl (record_error ''record identity capacity exceeded''))
      else case admit known a of
             (a2, Inl err) \<Rightarrow> ((m1, a2), Inl err)
           | (a2, Inr _) \<Rightarrow> ((memory_put key (Active e l) m1, a2), Inr None))"
proof -
  obtain issued expires where d: "entry_details x e key = Inr (revision, issued, expires)"
    "lease_new issued expires now = Inr l" "cell_floor x key (map_of (me_entries m) key) < revision"
    using new by (auto simp: raises_def fresh_entry_def)
  have ok: "pred_option (cell_ok x key) (map_of (me_entries m) key)"
    using inv by (simp add: memory_inv_def catalog_ok_get)
  have "decide x (map_of (me_entries m) key) (Some e) key now
        = Inr \<lparr>dc_replacement = Some (Active e l), dc_result = Inr None\<rparr>"
    using d by (simp add: decide_incoming_cases [OF ok d(1)])
  moreover have "observe 0 (me_observed_wall m) now = Inr (r_wall now)"
    using new by (simp add: raises_def res_simps)
  ultimately show ?thesis
    using new
    by (auto simp: memory_access_admitted_def raises_def Let_def ensure_def split: prod.splits sum.splits)
qed

lemma decide_not_fresh:
  assumes ok: "pred_option (cell_ok x key) old" and dec: "decide x old incoming key now = Inr d"
    and "\<nexists>e l revision. incoming = Some e \<and> fresh_entry x key now old e revision l"
  shows "dc_replacement d = retirement x key now old"
  using decide_replacement [OF ok dec] assms(3) by blast

text \<open>Every other access leaves the callback alone and keeps all floors; it may retire the cell.\<close>

lemma memory_access_old:
  assumes inv: "memory_inv x capacity m"
    and old: "\<nexists>e now l revision. raises x key (me_entries m) (me_observed_wall m) incoming clock e now l revision"
    and run: "memory_access_admitted x capacity key incoming clock admit (m, a) = ((m2, a2), r)"
  shows "a2 = a \<and> memory_inv x capacity m2 \<and>
     (me_entries m2 = me_entries m \<or>
      (\<exists>now s. map_of (me_entries m) key = Some s \<and> me_entries m2 = bt_put key (settled x key now s) (me_entries m)))"
proof -
  let ?c = "map_of (me_entries m) key"
  have ok: "pred_option (cell_ok x key) ?c"
    using inv by (simp add: memory_inv_def catalog_ok_get)
  have keep: "memory_inv x capacity (m\<lparr>me_observed_wall := w\<rparr>)" for w
    using inv by (simp add: memory_inv_def)
  show ?thesis
  proof (cases "\<exists>now d. clock = Inr now \<and> me_observed_wall m \<le> r_wall now \<and>
      decide x ?c incoming key now = Inr d")
    case False
    then show ?thesis
      using run inv keep
      by (auto simp: memory_access_admitted_def attempt_eq_iff res_simps Let_def)
  next
    case True
    then obtain now d where c: "clock = Inr now" "me_observed_wall m \<le> r_wall now"
      and d: "decide x ?c incoming key now = Inr d" by blast
    then have ret: "dc_replacement d = retirement x key now ?c"
      using old by (intro decide_not_fresh [OF ok d]) (auto simp: raises_def)
    have obs: "observe 0 (me_observed_wall m) now = Inr (r_wall now)"
      using c by (simp add: res_simps)
    show ?thesis
    proof (cases "retirement x key now ?c")
      case None
      then show ?thesis
        using run c d ret obs keep by (auto simp: memory_access_admitted_def Let_def)
    next
      case (Some s)
      then obtain s0 where s0: "?c = Some s0" "s = settled x key now s0"
        by (auto simp: retirement_def split: option.splits if_splits)
      have "memory_inv x capacity (memory_put key s (m\<lparr>me_observed_wall := r_wall now\<rparr>))"
        using keep retirement_floor [OF ok Some] s0 by (intro memory_put_inv) auto
      moreover have "m2 = memory_put key s (m\<lparr>me_observed_wall := r_wall now\<rparr>) \<and> a2 = a"
        using run c d ret obs Some s0 retirement_not_active [OF Some]
        by (auto simp: memory_access_admitted_def Let_def)
      ultimately show ?thesis using s0 by (auto simp: memory_put_def)
    qed
  qed
qed

lemma settled_catalog_floor:
  assumes "catalog_ok x es" "map_of es key = Some s"
  shows "catalog_floor x (bt_put key (settled x key now s) es) = catalog_floor x es"
  using assms settled_ok(2) [of x key s now]
  by (auto simp: catalog_ok_def catalog_floor_def)

lemma memory_access_old_floor:
  assumes "memory_inv x capacity m"
    and "\<nexists>e now l revision. raises x key (me_entries m) (me_observed_wall m) incoming clock e now l revision"
    and "memory_access_admitted x capacity key incoming clock admit (m, a) = ((m2, a2), r)"
  shows "catalog_floor x (me_entries m2) = catalog_floor x (me_entries m)"
  using memory_access_old [OF assms] settled_catalog_floor [of x "me_entries m" key] assms(1)
  by (auto simp: memory_inv_def)

lemma memory_access_inv:
  assumes inv: "memory_inv x capacity m"
    and run: "memory_access_admitted x capacity key incoming clock admit (m, a) = ((m2, a2), r)"
  shows "memory_inv x capacity m2"
proof (cases "\<exists>e now l revision.
    raises x key (me_entries m) (me_observed_wall m) incoming clock e now l revision")
  case False
  then show ?thesis using memory_access_old [OF inv _ run] by blast
next
  case True
  then obtain e now l revision where
    new: "raises x key (me_entries m) (me_observed_wall m) incoming clock e now l revision" by blast
  let ?m = "m\<lparr>me_observed_wall := r_wall now\<rparr>"
  have keep: "memory_inv x capacity ?m" using inv by (simp add: memory_inv_def)
  have "cell_ok x key (Active e l)"
    using new fresh_entry_cell by (auto simp: raises_def cell_ok_def is_ok_iff)
  then have "memory_inv x capacity (memory_put key (Active e l) ?m)"
    if "map_of (me_entries m) key \<noteq> None \<or> length (me_entries m) < capacity"
    using keep that by (intro memory_put_inv) auto
  then show ?thesis
    using run keep unfolding memory_access_new [OF inv new]
    by (auto simp: Let_def not_le split: if_splits prod.splits sum.splits)
qed

section \<open>Collection\<close>

lemma bt_ext:
  assumes "bt_wf a" "bt_wf b" "map_of a = map_of b"
  shows "a = b"
proof -
  have "set a = set b"
    using bt_mem_map_of [OF assms(1)] bt_mem_map_of [OF assms(2)] assms(3) by auto
  moreover have "sorted_wrt (<) (map fst a)" "sorted_wrt (<) (map fst b)"
    using assms(1,2) by (simp_all add: bt_wf_def)
  ultimately show ?thesis
    by (intro map_sorted_distinct_set_unique [of fst])
       (simp_all add: strict_sorted_iff distinct_map)
qed

text \<open>The cells of \<open>keys\<close> after an observation.\<close>

definition settle_all :: "store_ctx \<Rightarrow> reading \<Rightarrow> bytes list \<Rightarrow> (bytes \<Rightarrow> stored option) \<Rightarrow> bytes \<Rightarrow> stored option" where
  "settle_all x now keys c k = (if k \<in> set keys then map_option (settled x k now) (c k) else c k)"

definition expired_in :: "reading \<Rightarrow> (bytes \<Rightarrow> stored option) \<Rightarrow> bytes list \<Rightarrow> nat" where
  "expired_in now c keys = length (filter (\<lambda>k. case c k of Some s \<Rightarrow> expired now s | None \<Rightarrow> False) keys)"

lemma memory_collect_step:
  assumes inv: "memory_inv x capacity m" and s: "map_of (me_entries m) k = Some s" "expired now s"
  shows "m\<lparr>me_live := me_live m - of_bool (stored_live s),
            me_entries := bt_put k (settled x k now s) (me_entries m)\<rparr> = memory_put k (settled x k now s) m"
    and "memory_inv x capacity (memory_put k (settled x k now s) m)"
proof -
  show "m\<lparr>me_live := me_live m - of_bool (stored_live s),
      me_entries := bt_put k (settled x k now s) (me_entries m)\<rparr> = memory_put k (settled x k now s) m"
    using s settled_live [OF s(2), of x k] by (simp add: memory_put_def)
  have "cell_ok x k (settled x k now s)"
    using inv s by (intro settled_ok) (simp add: memory_inv_def catalog_ok_def)
  then show "memory_inv x capacity (memory_put k (settled x k now s) m)"
    using inv s by (intro memory_put_inv) auto
qed

lemma memory_collect_loop_spec:
  assumes "memory_inv x capacity m" "distinct keys"
  shows "\<exists>m2. memory_collect_loop x now keys n m = (m2, Inr (n + expired_in now (map_of (me_entries m)) keys)) \<and>
     memory_inv x capacity m2 \<and> map_of (me_entries m2) = settle_all x now keys (map_of (me_entries m)) \<and>
     me_observed_wall m2 = me_observed_wall m \<and> me_cursor m2 = me_cursor m"
  using assms
proof (induction keys arbitrary: n m)
  case (Cons k keys)
  show ?case
  proof (cases "\<exists>s. map_of (me_entries m) k = Some s \<and> expired now s")
    case True
    then obtain s where s: "map_of (me_entries m) k = Some s" "expired now s" by blast
    let ?m = "memory_put k (settled x k now s) m"
    note step = memory_collect_step [OF Cons.prems(1) s]
    have ok: "cell_ok x k s" "bt_wf (me_entries m)"
      using Cons.prems(1) s by (auto simp: memory_inv_def catalog_ok_def)
    have e: "map_of (me_entries ?m) = (map_of (me_entries m))(k \<mapsto> settled x k now s)"
      using ok by (simp add: memory_put_def)
    have "expired_in now (map_of (me_entries ?m)) keys = expired_in now (map_of (me_entries m)) keys"
      using Cons.prems(2) unfolding e expired_in_def
      by (intro arg_cong [where f = length] filter_cong) auto
    moreover have "settle_all x now keys (map_of (me_entries ?m)) =
        settle_all x now (k # keys) (map_of (me_entries m))"
      using Cons.prems(2) s(1) unfolding e by (auto simp: settle_all_def fun_eq_iff)
    moreover have "memory_collect_loop x now (k # keys) n m = memory_collect_loop x now keys (n + 1) ?m"
      using s stored_retire_eq [OF ok(1), of now] step(1) by simp
    moreover have "expired_in now (map_of (me_entries m)) (k # keys) =
        1 + expired_in now (map_of (me_entries m)) keys"
      using s by (simp add: expired_in_def)
    moreover have "me_observed_wall ?m = me_observed_wall m" "me_cursor ?m = me_cursor m"
      by (simp_all add: memory_put_def)
    ultimately show ?thesis
      using Cons.IH [OF step(2), of "n + 1"] Cons.prems(2) by (simp only: distinct.simps) (auto simp: add.assoc)
  next
    case False
    have "memory_collect_loop x now (k # keys) n m = memory_collect_loop x now keys n m"
    proof (cases "map_of (me_entries m) k")
      case (Some s)
      then have "cell_ok x k s" using Cons.prems(1) by (simp add: memory_inv_def catalog_ok_def)
      then show ?thesis using Some False stored_retire_eq [of x k s now] by simp
    qed simp
    moreover have "settle_all x now keys (map_of (me_entries m)) = settle_all x now (k # keys) (map_of (me_entries m))"
    proof -
      have "map_option (settled x k now) (map_of (me_entries m) k) = map_of (me_entries m) k"
        using False by (cases "map_of (me_entries m) k") auto
      then show ?thesis by (simp add: settle_all_def fun_eq_iff)
    qed
    moreover have "expired_in now (map_of (me_entries m)) (k # keys) = expired_in now (map_of (me_entries m)) keys"
      using False by (auto simp: expired_in_def split: option.splits)
    ultimately show ?thesis
      using Cons.IH [OF Cons.prems(1), of n] Cons.prems(2) by simp
  qed
qed (simp add: expired_in_def settle_all_def fun_eq_iff)

definition batch_keys :: "bytes option \<Rightarrow> (bytes, stored) btree \<Rightarrow> bytes list" where
  "batch_keys c es = map fst (take gc_batch (bt_after c es))"

lemma batch_keys_distinct: "bt_wf es \<Longrightarrow> distinct (batch_keys c es)"
proof -
  assume "bt_wf es"
  then have "distinct (map fst (bt_after c es))"
    using bt_after_wf [of es c] by (simp add: bt_wf_def strict_sorted_iff)
  then show ?thesis by (simp add: batch_keys_def take_map [symmetric])
qed

lemma batch_keys_bound: "length (batch_keys c es) \<le> gc_batch"
  by (simp add: batch_keys_def)

lemma batch_keys_known: "k \<in> set (batch_keys c es) \<Longrightarrow> map_of es k \<noteq> None"
proof -
  assume "k \<in> set (batch_keys c es)"
  then have "k \<in> fst ` set es"
    using bt_after_subset [of c es] by (auto simp: batch_keys_def dest!: in_set_takeD)
  then show ?thesis by (simp add: map_of_eq_None_iff)
qed

lemma memory_collect_at_spec:
  assumes inv: "memory_inv x capacity m" and clock: "clock = Inr now" "me_observed_wall m \<le> r_wall now"
  defines "keys \<equiv> batch_keys (me_cursor m) (me_entries m)"
  shows "\<exists>m2. memory_collect_at x clock (m, a) =
       ((m2, a), Inr (expired_in now (map_of (me_entries m)) keys)) \<and>
     memory_inv x capacity m2 \<and> map_of (me_entries m2) = settle_all x now keys (map_of (me_entries m)) \<and>
     me_observed_wall m2 = r_wall now \<and>
     me_cursor m2 = (if length keys = gc_batch then Some (last keys) else None)"
proof -
  let ?m = "m\<lparr>me_observed_wall := r_wall now,
      me_cursor := if length keys = gc_batch then Some (last keys) else None\<rparr>"
  have i: "memory_inv x capacity ?m" using inv by (simp add: memory_inv_def)
  have d: "distinct keys"
    using inv by (simp add: keys_def batch_keys_distinct memory_inv_def catalog_ok_def)
  have "memory_collect_at x clock (m, a) =
      (case memory_collect_loop x now keys 0 ?m of (m3, r) \<Rightarrow> ((m3, a), r))"
    using clock by (simp add: memory_collect_at_def observe_def keys_def batch_keys_def Let_def not_less)
  then show ?thesis
    using memory_collect_loop_spec [OF i d, of now 0] by auto
qed

lemma settle_all_floor:
  assumes "catalog_ok x es" "map_of es2 = settle_all x now keys (map_of es)"
  shows "catalog_floor x es2 = catalog_floor x es"
proof
  fix k
  show "catalog_floor x es2 k = catalog_floor x es k"
  proof (cases "map_of es k")
    case (Some s)
    then have "cell_ok x k s" using assms(1) by (simp add: catalog_ok_def)
    then show ?thesis using Some assms(2) settled_ok(2) [of x k s now] by (simp add: catalog_floor_def settle_all_def)
  qed (use assms(2) in \<open>simp add: catalog_floor_def settle_all_def\<close>)
qed

lemma memory_collect_at_keeps:
  assumes inv: "memory_inv x capacity m" and run: "memory_collect_at x clock (m, a) = ((m2, a2), r)"
  shows "memory_inv x capacity m2 \<and> a2 = a \<and> catalog_floor x (me_entries m2) = catalog_floor x (me_entries m)"
proof (cases "\<exists>now. clock = Inr now \<and> me_observed_wall m \<le> r_wall now")
  case True
  then obtain now where "clock = Inr now" "me_observed_wall m \<le> r_wall now" by blast
  then show ?thesis
    using memory_collect_at_spec [OF inv, of clock now a] run settle_all_floor inv
    by (auto simp: memory_inv_def)
next
  case False
  then show ?thesis
    using run inv by (auto simp: memory_collect_at_def attempt_eq_iff res_simps)
qed

section \<open>Requests\<close>

text \<open>
  The requests of the trait: an update with its admission answer, a lookup and a collection,
  each with the clock reading it finds.
\<close>

datatype store_op =
    SPut endpoint_record "(discovery_error, reading) result" "bool \<Rightarrow> (discovery_error, unit) result"
  | SRemove delete_request "(discovery_error, reading) result" "bool \<Rightarrow> (discovery_error, unit) result"
  | SGet endpoint_key "(discovery_error, reading) result"
  | SCollect "(discovery_error, reading) result"

datatype op_result =
    RDone "(discovery_error, unit) result"
  | RRecord "(discovery_error, endpoint_record) result"
  | RCount "(discovery_error, nat) result"

definition pure_admit :: "(bool \<Rightarrow> (discovery_error, unit) result) \<Rightarrow> unit admit" where
  "pure_admit f known a = (a, f known)"

fun memory_step :: "store_ctx \<Rightarrow> memory_store \<Rightarrow> store_op \<Rightarrow> memory_store \<times> op_result" where
  "memory_step x s (SPut r clock f) =
     (case memory_put_admitted x r clock (pure_admit f) (s, ()) of ((t, _), v) \<Rightarrow> (t, RDone v))"
| "memory_step x s (SRemove d clock f) =
     (case memory_remove_admitted x d clock (pure_admit f) (s, ()) of ((t, _), v) \<Rightarrow> (t, RDone v))"
| "memory_step x s (SGet key clock) =
     (case memory_get x key clock (s, ()) of ((t, _), v) \<Rightarrow> (t, RRecord v))"
| "memory_step x s (SCollect clock) =
     (case memory_collect_expired x clock (s, ()) of ((t, _), v) \<Rightarrow> (t, RCount v))"

definition memory_run :: "store_ctx \<Rightarrow> memory_store \<Rightarrow> store_op \<Rightarrow> memory_store" where
  "memory_run x s op = fst (memory_step x s op)"

text \<open>The identity and the content an update carries, and the revision it is signed with.\<close>

fun op_update :: "store_op \<Rightarrow> (endpoint_key \<times> entry) option" where
  "op_update (SPut r _ _) = Some (er_key r, ERecord r)"
| "op_update (SRemove d _ _) = Some (dr_key d, EDeleted d)"
| "op_update _ = None"

definition op_revision :: "store_ctx \<Rightarrow> endpoint_key \<Rightarrow> store_op \<Rightarrow> u64" where
  "op_revision x key op =
     (case op_update op of
        Some (k, e) \<Rightarrow> (case entry_details x e key of Inr (revision, _, _) \<Rightarrow> revision | Inl _ \<Rightarrow> 0)
      | None \<Rightarrow> 0)"

definition snapshot_exact :: "record_snapshot published \<Rightarrow> (bytes, stored) btree \<Rightarrow> usize \<Rightarrow> bool" where
  "snapshot_exact p es capacity \<longleftrightarrow>
     (\<exists>n. pub_snapshot p = Some n \<and> rs_records n = bt_count stored_live es \<and>
        rs_identities n = length es \<and> rs_capacity n = capacity \<and> rs_healthy n)"

definition memory_store_inv :: "store_ctx \<Rightarrow> memory_store \<Rightarrow> bool" where
  "memory_store_inv x s \<longleftrightarrow>
     memory_inv x (ms_capacity s) (ms_inner s) \<and> \<not> ms_poisoned s \<and>
     snapshot_exact (ms_observed s) (me_entries (ms_inner s)) (ms_capacity s)"

definition store_floor :: "store_ctx \<Rightarrow> bytes \<Rightarrow> memory_store \<Rightarrow> u64" where
  "store_floor x k s = catalog_floor x (me_entries (ms_inner s)) k"

lemma bt_count_le: "bt_count P m \<le> length m"
  by (simp add: bt_count_def)

lemma memory_inv_live:
  assumes "memory_inv x capacity m"
  shows "unat (me_live m) = bt_count stored_live (me_entries m)"
proof -
  have "bt_count stored_live (me_entries m) < 2 ^ 64"
    using assms bt_count_le [of stored_live "me_entries m"] by (simp add: memory_inv_def max_identities_def)
  then show ?thesis
    using assms by (simp add: memory_inv_def unsigned_of_nat take_bit_nat_eq_self)
qed

lemma observed_access_inv:
  assumes "memory_store_inv x s" "memory_observed_access work (s, a) = ((t, b), r)"
    "work (ms_inner s, a) = ((m, b0), r0)" "memory_inv x (ms_capacity s) m"
  shows "memory_store_inv x t" "ms_inner t = m" "b = b0" "r = r0" "ms_capacity t = ms_capacity s"
proof -
  have t: "t = s\<lparr>ms_inner := m, ms_observed := pub_finish
      (\<lambda>n. n\<lparr>rs_records := unat (me_live m), rs_identities := length (me_entries m)\<rparr>)
      (pub_begin (ms_observed s))\<rparr>" "b = b0" "r = r0"
    using assms by (auto simp: memory_observed_access_def memory_store_inv_def)
  then show "ms_inner t = m" "b = b0" "r = r0" "ms_capacity t = ms_capacity s" by simp_all
  show "memory_store_inv x t"
    using assms(1,4) t memory_inv_live [OF assms(4)]
    by (auto simp: memory_store_inv_def snapshot_exact_def pub_snapshot_def pub_finish_def pub_begin_def
        split: if_splits)
qed

text \<open>What one access to \<open>key\<close> does to the store as a whole.\<close>

definition floor_step :: "store_ctx \<Rightarrow> endpoint_key \<Rightarrow> entry option \<Rightarrow> (bytes \<Rightarrow> u64) \<Rightarrow> (bytes \<Rightarrow> u64) \<Rightarrow> bool" where
  "floor_step x key incoming f g \<longleftrightarrow>
     g = f \<or> (\<exists>e revision issued expires. incoming = Some e \<and>
        entry_details x e key = Inr (revision, issued, expires) \<and> f key < revision \<and> g = f(key := revision))"

lemma memory_access_floor_step:
  assumes inv: "memory_inv x capacity m"
    and run: "memory_access_admitted x capacity key incoming clock admit (m, a) = ((m2, a2), r)"
  shows "floor_step x key incoming (catalog_floor x (me_entries m)) (catalog_floor x (me_entries m2))"
proof (cases "\<exists>e now l revision.
    raises x key (me_entries m) (me_observed_wall m) incoming clock e now l revision")
  case False
  then show ?thesis
    using memory_access_old_floor [OF inv _ run] by (auto simp: floor_step_def)
next
  case True
  then obtain e now l revision where
    new: "raises x key (me_entries m) (me_observed_wall m) incoming clock e now l revision" by blast
  have wf: "bt_wf (me_entries m)" using inv by (simp add: memory_inv_def catalog_ok_def)
  have "catalog_floor x (bt_put key (Active e l) (me_entries m)) = (catalog_floor x (me_entries m))(key := revision)"
    using fresh_entry_cell [of x key now] new wf
    by (auto simp: catalog_floor_def raises_def cell_floor_def fun_eq_iff)
  then show ?thesis
    using run new unfolding memory_access_new [OF inv new]
    by (auto simp: floor_step_def raises_def fresh_entry_def Let_def memory_put_def catalog_floor_def
        split: if_splits prod.splits sum.splits)
qed

lemma memory_store_access:
  assumes inv: "memory_store_inv x s"
    and run: "memory_observed_access (memory_access_admitted x (ms_capacity s) key incoming clock admit) (s, a)
       = ((t, b), r)"
  shows "memory_store_inv x t \<and> ms_capacity t = ms_capacity s \<and>
     floor_step x key incoming (\<lambda>k. store_floor x k s) (\<lambda>k. store_floor x k t)"
proof -
  obtain m b0 r0 where w: "memory_access_admitted x (ms_capacity s) key incoming clock admit (ms_inner s, a)
      = ((m, b0), r0)" by (metis surj_pair)
  have i: "memory_inv x (ms_capacity s) (ms_inner s)" using inv by (simp add: memory_store_inv_def)
  note o = observed_access_inv [OF inv run w memory_access_inv [OF i w]]
  then show ?thesis
    using memory_access_floor_step [OF i w] by (simp add: store_floor_def)
qed

lemma op_entry_key:
  "record_verify w r = Inr p \<Longrightarrow> pl_key p = er_key r" "delete_verify w d = Inr q \<Longrightarrow> dp_key q = dr_key d"
  by (auto simp: record_verify_Inr_iff delete_verify_Inr_iff)

fun op_key :: "store_op \<Rightarrow> endpoint_key" where
  "op_key (SPut r _ _) = er_key r"
| "op_key (SRemove d _ _) = dr_key d"
| "op_key (SGet key _) = key"
| "op_key (SCollect _) = []"

lemma floor_step_refl [simp]: "floor_step x key incoming f f"
  by (simp add: floor_step_def)

lemma memory_step_spec:
  assumes inv: "memory_store_inv x s"
  shows "memory_store_inv x (memory_run x s op) \<and> ms_capacity (memory_run x s op) = ms_capacity s \<and>
     floor_step x (op_key op) (map_option snd (op_update op))
       (\<lambda>k. store_floor x k s) (\<lambda>k. store_floor x k (memory_run x s op))"
proof (cases op)
  case (SPut r clock f)
  then show ?thesis
    using memory_store_access [OF inv, of "er_key r" "Some (ERecord r)" clock "pure_admit f" "()"] inv
    by (auto simp: memory_run_def memory_put_admitted_def attempt_def and_then_def op_entry_key
        split: prod.splits sum.splits)
next
  case (SRemove d clock f)
  then show ?thesis
    using memory_store_access [OF inv, of "dr_key d" "Some (EDeleted d)" clock "pure_admit f" "()"] inv
    by (auto simp: memory_run_def memory_remove_admitted_def attempt_def and_then_def op_entry_key
        split: prod.splits sum.splits)
next
  case (SGet key clock)
  then show ?thesis
    using memory_store_access [OF inv, of key None clock admit_all "()"] inv
    by (auto simp: memory_run_def memory_get_def and_then_def split: prod.splits sum.splits)
next
  case (SCollect clock)
  have i: "memory_inv x (ms_capacity s) (ms_inner s)" using inv by (simp add: memory_store_inv_def)
  obtain m b r where w: "memory_collect_at x clock (ms_inner s, ()) = ((m, b), r)" by (metis surj_pair)
  obtain t b2 r2 where o: "memory_observed_access (memory_collect_at x clock) (s, ()) = ((t, b2), r2)"
    by (metis surj_pair)
  note k = memory_collect_at_keeps [OF i w]
  note t = observed_access_inv [OF inv o w] k
  then show ?thesis
    using SCollect o by (simp add: memory_run_def memory_collect_expired_def store_floor_def)
qed

section \<open>Replay protection\<close>

definition raised :: "store_ctx \<Rightarrow> endpoint_key \<Rightarrow> memory_store \<Rightarrow> store_op \<Rightarrow> bool" where
  "raised x key s op \<longleftrightarrow> store_floor x key (memory_run x s op) \<noteq> store_floor x key s"

lemma raised_iff:
  assumes "memory_store_inv x s" "raised x key s op"
  shows "op_key op = key" "store_floor x key s < op_revision x key op"
    "store_floor x key (memory_run x s op) = op_revision x key op"
proof -
  have "floor_step x (op_key op) (map_option snd (op_update op))
       (\<lambda>k. store_floor x k s) (\<lambda>k. store_floor x k (memory_run x s op))"
    using memory_step_spec [OF assms(1)] by blast
  then obtain e revision issued expires where s: "map_option snd (op_update op) = Some e"
    "entry_details x e (op_key op) = Inr (revision, issued, expires)"
    "store_floor x (op_key op) s < revision"
    "(\<lambda>k. store_floor x k (memory_run x s op)) = (\<lambda>k. store_floor x k s)(op_key op := revision)"
    using assms(2) by (auto simp: floor_step_def raised_def fun_eq_iff)
  then show key: "op_key op = key"
    using assms(2) by (metis fun_upd_apply raised_def)
  have "op_revision x key op = revision"
    using s(1,2) key by (auto simp: op_revision_def)
  then show "store_floor x key s < op_revision x key op"
    "store_floor x key (memory_run x s op) = op_revision x key op"
    using s(3,4) key by (auto dest: fun_cong [where x = key])
qed

interpretation memory_register:
  revision_register "memory_store_inv x" "memory_run x" "raised x key" "store_floor x key" "op_revision x key"
  for x key
  by unfold_locales (use memory_step_spec raised_iff in \<open>auto simp: raised_def\<close>)

lemma memory_access_retry:
  assumes inv: "memory_inv x capacity m" and e: "entry_details x e key = Inr (revision, issued, expires)"
    and le: "revision \<le> catalog_floor x (me_entries m) key"
    and run: "memory_access_admitted x capacity key (Some e) clock admit (m, a) = ((m2, a2), Inr v)"
  shows "\<exists>c l. map_of (me_entries m) key = Some (Active c l) \<and> entry_digest x c = entry_digest x e \<and>
     catalog_floor x (me_entries m) key = revision"
proof -
  let ?c = "map_of (me_entries m) key"
  have ok: "pred_option (cell_ok x key) ?c" using inv by (simp add: memory_inv_def catalog_ok_get)
  obtain now d where c: "clock = Inr now" "me_observed_wall m \<le> r_wall now"
    and d: "decide x ?c (Some e) key now = Inr d"
    using run by (auto simp: memory_access_admitted_def res_simps Let_def)
  have res: "dc_result d = Inr v"
    using run c d
    by (auto simp: memory_access_admitted_def observe_def Let_def and_then_eq_iff res_simps
        split: option.splits)
  show ?thesis
  proof (cases "lease_new issued expires now")
    case (Inr l)
    then have "cell_floor x key ?c = revision \<and> map_option (stored_digest x) ?c = Some (entry_digest x e) \<and>
        map_option is_active (map_option (settled x key now) ?c) \<noteq> Some False"
      using d res le by (auto simp: decide_incoming_cases [OF ok e] catalog_floor_def split: if_splits)
    then show ?thesis
    proof (cases ?c)
      case (Some s)
      then show ?thesis
        using \<open>cell_floor x key ?c = revision \<and> _\<close>
        by (cases s) (auto simp: catalog_floor_def settled_def)
    qed simp
  qed (use d res in \<open>auto simp: decide_incoming_cases [OF ok e]\<close>)
qed

lemma memory_step_retry:
  assumes inv: "memory_store_inv x s" and e: "op_update op = Some (key, e)"
    and run: "memory_step x s op = (t, RDone (Inr ()))"
    and le: "op_revision x key op \<le> store_floor x key s"
  shows "\<exists>c l. map_of (me_entries (ms_inner s)) key = Some (Active c l) \<and>
     entry_digest x c = entry_digest x e \<and> store_floor x key s = op_revision x key op"
proof -
  have i: "memory_inv x (ms_capacity s) (ms_inner s)" using inv by (simp add: memory_store_inv_def)
  obtain clock f m2 a2 v revision issued expires where
    acc: "memory_access_admitted x (ms_capacity s) key (Some e) clock (pure_admit f) (ms_inner s, ())
      = ((m2, a2), Inr v)" and det: "entry_details x e key = Inr (revision, issued, expires)"
  proof (cases op)
    case (SPut r clock f)
    then show ?thesis
      using run e inv that
      by (auto simp: memory_put_admitted_def attempt_def and_then_def memory_observed_access_def
          memory_store_inv_def entry_details_def op_entry_key split: prod.splits sum.splits)
  next
    case (SRemove d clock f)
    then show ?thesis
      using run e inv that
      by (auto simp: memory_remove_admitted_def attempt_def and_then_def memory_observed_access_def
          memory_store_inv_def entry_details_def op_entry_key split: prod.splits sum.splits)
  qed (use e in auto)
  have "op_revision x key op = revision" using e det by (simp add: op_revision_def)
  then show ?thesis
    using memory_access_retry [OF i det _ acc] le by (simp add: store_floor_def)
qed

section \<open>Properties\<close>

lemma memory_default_inv: "memory_store_inv x memory_default"
  by (simp add: memory_store_inv_def memory_default_def memory_inv_def memory_empty_def snapshot_exact_def
      pub_snapshot_def)

lemma with_capacity_inv: "with_capacity n = Inr s \<Longrightarrow> memory_store_inv x s \<and> ms_capacity s = n \<and> 0 < n \<and> n \<le> max_identities"
  using memory_default_inv [of x]
  by (auto simp: with_capacity_def res_simps memory_store_inv_def memory_default_def memory_inv_def memory_empty_def
      snapshot_exact_def pub_snapshot_def pub_finish_def)

lemma memory_runs:
  assumes "memory_store_inv x s"
  shows "memory_store_inv x (foldl (memory_run x) s ops) \<and> ms_capacity (foldl (memory_run x) s ops) = ms_capacity s"
  using assms by (induction ops arbitrary: s) (auto simp: memory_step_spec)

lemma memory_exact_lemma:
  assumes "with_capacity n = Inr s0" and s: "s = foldl (memory_run x) s0 ops"
  shows "length (me_entries (ms_inner s)) \<le> n \<and> n \<le> max_identities \<and>
     unat (me_live (ms_inner s)) = memory_len s \<and>
     (\<exists>snap. pub_snapshot (ms_observed s) = Some snap \<and> rs_records snap = memory_len s \<and>
        rs_identities snap = length (me_entries (ms_inner s)) \<and> rs_capacity snap = n)"
proof -
  have i: "memory_store_inv x s \<and> ms_capacity s = n"
    using with_capacity_inv [OF assms(1), of x] memory_runs [of x s0 ops] s by simp
  then have "memory_inv x n (ms_inner s)" by (auto simp: memory_store_inv_def)
  then show ?thesis
    using i memory_inv_live [of x n "ms_inner s"]
    by (auto simp: memory_store_inv_def memory_inv_def memory_len_def snapshot_exact_def)
qed

text \<open>
  C13. The in-memory store over any sequence of puts, deletions, lookups and collections, with any
  clock and any admission answers: it never holds more identities than its capacity, its wrapping
  64-bit live counter always equals the number of live records, and the published snapshot shows
  exactly these counts.
\<close>

theorem memory_store_exact:
  assumes "with_capacity n = Inr s0" and "s = foldl (memory_run x) s0 ops"
  shows "length (me_entries (ms_inner s)) \<le> n \<and> n \<le> max_identities \<and>
     unat (me_live (ms_inner s)) = memory_len s \<and>
     (\<exists>snap. pub_snapshot (ms_observed s) = Some snap \<and> rs_records snap = memory_len s \<and>
        rs_identities snap = length (me_entries (ms_inner s)) \<and> rs_capacity snap = n)"
  using assms by (rule memory_exact_lemma)

definition sctx0 :: store_ctx where
  "sctx0 = \<lparr>sx_wire = wire0 5, sx_entry = (\<lambda>_. [])\<rparr>"

definition clock0 :: "(discovery_error, reading) result" where
  "clock0 = Inr \<lparr>r_boot = [], r_wall = from_secs 1000, r_continuous = 0\<rparr>"

definition put_a :: store_op where
  "put_a = SPut record_a clock0 (\<lambda>_. Inr ())"

lemma sctx0_wire [simp]: "sx_wire sctx0 = wire0 5"
  by (simp add: sctx0_def)

lemma record_a_verifies: "record_verify (wire0 5) record_a = Inr (payload_a 5)"
  by (simp add: record_verify_Inr_iff payload_a_ok record_a_def max_record_bytes_def record_version_def)
     (simp add: crypto0_def payload_a_def)

lemma record_a_details: "entry_details sctx0 (ERecord record_a) (replicate 32 7) = Inr (5, 1000, 1600)"
  by (simp add: entry_details_def record_a_verifies) (simp add: payload_a_def)

definition lease_rec :: lease where
  "lease_rec = \<lparr>l_boot = [], l_issued_at = 1000, l_expires_at = 1600, l_accepted_wall = from_secs 1000,
     l_accepted_continuous = 0, l_deadline = from_secs 600\<rparr>"

lemma lease_rec_new: "lease_new 1000 1600 \<lparr>r_boot = [], r_wall = from_secs 1000, r_continuous = 0\<rparr> = Inr lease_rec"
  by (simp add: lease_new_Inr_iff lease_rec_def from_secs_def as_secs_def nanos_per_sec_def dur_max_def)

lemma put_a_raises:
  "raises sctx0 (replicate 32 7) (me_entries memory_empty) (me_observed_wall memory_empty)
     (Some (ERecord record_a)) clock0
     (ERecord record_a) \<lparr>r_boot = [], r_wall = from_secs 1000, r_continuous = 0\<rparr> lease_rec 5"
  using lease_rec_new record_a_details by (auto simp: raises_def clock0_def fresh_entry_def memory_empty_def)

lemma put_a_stored:
  "map_of (me_entries (ms_inner (memory_run sctx0 memory_default put_a))) (replicate 32 7)
     = Some (Active (ERecord record_a) lease_rec)"
proof -
  have i: "memory_inv sctx0 max_identities memory_empty"
    using memory_default_inv [of sctx0] by (simp add: memory_store_inv_def memory_default_def)
  have k: "pl_key (payload_a 5) = replicate 32 7" by (simp add: payload_a_def)
  note acc = memory_access_new [OF i put_a_raises]
  have "me_entries memory_empty = []" "0 < max_identities"
    by (simp_all add: memory_empty_def max_identities_def)
  then show ?thesis
    by (simp add: memory_run_def put_a_def memory_put_admitted_def record_a_verifies k acc
        memory_observed_access_def memory_default_def pure_admit_def and_then_def
        memory_put_def Let_def)
qed

theorem memory_store_exact_witness:
  "with_capacity max_identities = Inr memory_default \<and>
   length (me_entries (ms_inner (foldl (memory_run sctx0) memory_default [put_a]))) \<le> max_identities"
proof -
  have w: "with_capacity max_identities = Inr memory_default"
    by (simp add: with_capacity_def max_identities_def memory_default_def pub_finish_def)
  then show ?thesis using memory_store_exact [OF w refl, of sctx0 "[put_a]"] by blast
qed

lemma record_replay_lemma:
  assumes inv: "memory_store_inv x s" and first: "raised x key s op"
    and replay: "op_update op2 = Some (key, e2)" "op_revision x key op2 \<le> op_revision x key op"
    and t: "t = foldl (memory_run x) (memory_run x s op) ops"
  shows "op_revision x key op \<le> store_floor x key t \<and>
     store_floor x key (memory_run x t op2) = store_floor x key t \<and>
     (snd (memory_step x t op2) = RDone (Inr ()) \<longrightarrow>
       (\<exists>c l. map_of (me_entries (ms_inner t)) key = Some (Active c l) \<and>
          entry_digest x c = entry_digest x e2 \<and> store_floor x key t = op_revision x key op2))"
proof -
  have i: "memory_store_inv x (memory_run x s op)" using memory_step_spec [OF inv] by blast
  then have it: "memory_store_inv x t" using memory_runs t by blast
  have le: "op_revision x key op \<le> store_floor x key t"
    using memory_register.runs_floor_mono [OF i, of key ops] raised_iff(3) [OF inv first] t by simp
  have "\<not> raised x key t op2"
    using memory_register.replay_refused [OF inv first replay(2)] t by simp
  moreover have "snd (memory_step x t op2) = RDone (Inr ()) \<Longrightarrow>
      \<exists>c l. map_of (me_entries (ms_inner t)) key = Some (Active c l) \<and>
          entry_digest x c = entry_digest x e2 \<and> store_floor x key t = op_revision x key op2"
    using memory_step_retry [OF it replay(1)] le replay(2) by (metis order_trans prod.collapse)
  ultimately show ?thesis using le by (simp add: raised_def)
qed

text \<open>
  C7. Replay protection of the record store: once an update has raised the revision of an
  identity, then after any further requests (expiry and deletion included) the floor is still at
  least that revision, and no update signed with that or a lower revision changes it. Such an
  update is answered with success only when its digest and revision are those of the operation
  that is stored and still active.
\<close>

theorem record_replay_refused:
  assumes "memory_store_inv x s" and "raised x key s op"
    and "op_update op2 = Some (key, e2)" and "op_revision x key op2 \<le> op_revision x key op"
    and "t = foldl (memory_run x) (memory_run x s op) ops"
  shows "op_revision x key op \<le> store_floor x key t \<and>
     store_floor x key (memory_run x t op2) = store_floor x key t \<and>
     (snd (memory_step x t op2) = RDone (Inr ()) \<longrightarrow>
       (\<exists>c l. map_of (me_entries (ms_inner t)) key = Some (Active c l) \<and>
          entry_digest x c = entry_digest x e2 \<and> store_floor x key t = op_revision x key op2))"
  using assms by (rule record_replay_lemma)

lemma put_a_facts:
  "raised sctx0 (replicate 32 7) memory_default put_a" "op_revision sctx0 (replicate 32 7) put_a = 5"
proof -
  have "stored_verify sctx0 (Active (ERecord record_a) lease_rec) (replicate 32 7) = Inr 5"
    using record_a_details lease_new_matches [OF lease_rec_new] by (rule active_verify)
  then show "raised sctx0 (replicate 32 7) memory_default put_a"
    using put_a_stored
    by (simp add: raised_def store_floor_def catalog_floor_def cell_floor_def)
       (simp add: memory_default_def memory_empty_def)
  have "er_key record_a = replicate 32 7" by (simp add: record_a_def)
  then show "op_revision sctx0 (replicate 32 7) put_a = 5"
    using record_a_details by (simp add: op_revision_def put_a_def)
qed

theorem record_replay_refused_witness:
  "5 \<le> store_floor sctx0 (replicate 32 7) (memory_run sctx0 memory_default put_a) \<and>
   store_floor sctx0 (replicate 32 7) (memory_run sctx0 (memory_run sctx0 memory_default put_a) put_a)
     = store_floor sctx0 (replicate 32 7) (memory_run sctx0 memory_default put_a)"
proof -
  have "op_update put_a = Some (replicate 32 7, ERecord record_a)"
    by (simp add: put_a_def record_a_def)
  then show ?thesis
    using record_replay_refused [OF memory_default_inv put_a_facts(1), of put_a "ERecord record_a" _ "[]"]
      put_a_facts(2) by simp
qed

lemma put_admission_lemma:
  assumes inv: "memory_store_inv x s" and ok: "record_verify (sx_wire x) r = Inr p"
    and run: "memory_put_admitted x r clock admit (s, a) = ((t, b), v)"
    and es: "es = me_entries (ms_inner s)" and known: "known = (map_of es (er_key r) \<noteq> None)"
  shows "if (\<exists>now l revision. raises x (er_key r) es (me_observed_wall (ms_inner s)) (Some (ERecord r)) clock
             (ERecord r) now l revision) \<and> (known \<or> length es < ms_capacity s)
     then b = fst (admit known a) \<and> v = snd (admit known a) \<and>
          (v = Inr () \<longleftrightarrow> store_floor x (er_key r) t = pl_revision p)
     else b = a \<and> (\<lambda>k. store_floor x k t) = (\<lambda>k. store_floor x k s)"
proof -
  let ?w = "me_observed_wall (ms_inner s)"
  obtain m b0 r0 where w: "memory_access_admitted x (ms_capacity s) (er_key r) (Some (ERecord r)) clock admit
      (ms_inner s, a) = ((m, b0), r0)" by (metis surj_pair)
  have i: "memory_inv x (ms_capacity s) (ms_inner s)" using inv by (simp add: memory_store_inv_def)
  have tb: "ms_inner t = m" "b = b0" "v = rbind r0 (\<lambda>_. Inr ())"
    using run ok w inv
    by (auto simp: memory_put_admitted_def op_entry_key(1) [OF ok] memory_observed_access_def memory_store_inv_def
        and_then_def split: sum.splits)
  show ?thesis
  proof (cases "\<exists>now l revision. raises x (er_key r) es ?w (Some (ERecord r)) clock (ERecord r) now l revision")
    case False
    then have "\<nexists>e now l revision. raises x (er_key r) es ?w (Some (ERecord r)) clock e now l revision"
      by (auto simp: raises_def)
    then show ?thesis
      using False memory_access_old [OF i _ w] memory_access_old_floor [OF i _ w] tb es
      by (simp add: store_floor_def)
  next
    case True
    then obtain now l revision where
      new: "raises x (er_key r) es ?w (Some (ERecord r)) clock (ERecord r) now l revision" by blast
    have rev: "revision = pl_revision p" "catalog_floor x es (er_key r) < revision"
      using new ok by (auto simp: raises_def fresh_entry_def entry_details_def op_entry_key catalog_floor_def)
    have fl: "catalog_floor x (bt_put (er_key r) (Active (ERecord r) l) es) (er_key r) = revision"
      using fresh_entry_cell [of x "er_key r" now] new i es
      by (auto simp: raises_def catalog_floor_def cell_floor_def memory_inv_def catalog_ok_def)
    obtain a2 rr where ad: "admit known a = (a2, rr)" by (metis surj_pair)
    define room where "room \<longleftrightarrow> known \<or> length es < ms_capacity s"
    have "me_entries m = (if room \<and> rr = Inr () then bt_put (er_key r) (Active (ERecord r) l) es else es) \<and>
        b0 = (if room then a2 else a) \<and>
        r0 = (if room then rbind rr (\<lambda>_. Inr None) else Inl (record_error ''record identity capacity exceeded''))"
      using w [unfolded memory_access_new [OF i new [unfolded es]]] es known ad
      by (cases rr) (auto simp: room_def Let_def memory_put_def split: if_splits)
    then show ?thesis
      using True tb es rev fl ad room_def
      by (cases rr; cases room) (auto simp: store_floor_def catalog_floor_def)
  qed
qed

text \<open>
  C19. The admission contract of the store: for a record that verifies, the admission callback is
  called exactly once, with whether the identity is already known, when the record is a fresh
  higher revision and there is room for it, and then its answer is the answer of the put, with
  the revision stored exactly when it admits. In every other case (a stale or repeated revision,
  an expired record, a bad clock, a full store) it is not called and no revision floor moves.
\<close>

theorem put_admission_exact:
  assumes "memory_store_inv x s" and "record_verify (sx_wire x) r = Inr p"
    and "memory_put_admitted x r clock admit (s, a) = ((t, b), v)"
    and "es = me_entries (ms_inner s)" and "known = (map_of es (er_key r) \<noteq> None)"
  shows "if (\<exists>now l revision. raises x (er_key r) es (me_observed_wall (ms_inner s)) (Some (ERecord r)) clock
             (ERecord r) now l revision) \<and> (known \<or> length es < ms_capacity s)
     then b = fst (admit known a) \<and> v = snd (admit known a) \<and>
          (v = Inr () \<longleftrightarrow> store_floor x (er_key r) t = pl_revision p)
     else b = a \<and> (\<lambda>k. store_floor x k t) = (\<lambda>k. store_floor x k s)"
  using assms by (rule put_admission_lemma)

definition count_admit :: "nat admit" where
  "count_admit known n = (n + 1, Inr ())"

theorem put_admission_exact_witness:
  "\<exists>t. memory_put_admitted sctx0 record_a clock0 count_admit (memory_default, 0) = ((t, 1), Inr ()) \<and>
     store_floor sctx0 (replicate 32 7) t = 5"
proof -
  obtain t b v where run: "memory_put_admitted sctx0 record_a clock0 count_admit (memory_default, 0) = ((t, b), v)"
    by (metis surj_pair)
  have d: "me_entries memory_empty = []" "ms_inner memory_default = memory_empty"
    "ms_capacity memory_default = 4096"
    by (simp_all add: memory_default_def memory_empty_def max_identities_def)
  have k: "er_key record_a = replicate 32 7" "pl_revision (payload_a 5) = 5"
    by (simp_all add: record_a_def payload_a_def)
  have raise: "\<exists>now l revision. raises sctx0 (replicate 32 7) [] (me_observed_wall memory_empty)
      (Some (ERecord record_a)) clock0 (ERecord record_a) now l revision"
    using put_a_raises d(1) by metis
  have v: "record_verify (sx_wire sctx0) record_a = Inr (payload_a 5)"
    by (simp add: record_a_verifies)
  have "b = 1 \<and> v = Inr () \<and> store_floor sctx0 (replicate 32 7) t = 5"
    using put_admission_exact [OF memory_default_inv v run refl refl] raise
    by (auto simp: k d count_admit_def)
  then show ?thesis using run by auto
qed

end
