(* ===== verification/Rds_Persist.thy ===== *)
theory Rds_Persist
  imports Rds_Identity
begin

text \<open>
  The protected atomic state file (\<open>rds-discovery/src/persist.rs\<close>). The operating system
  is explicit: a \<open>disk\<close> holds the visible state file, what of it is durable, and the
  staging file of a write in progress; an \<open>io\<close> record says which system calls fail. The
  lemmas say what a reader can find after a crash at any point of a write.
\<close>

section \<open>The disk\<close>

datatype errno = NOSPC | DQUOT | OtherErrno nat

text \<open>An \<open>io::Error\<close>: \<open>raw_os_error\<close> and the text.\<close>

datatype io_error = IoError "errno option" string

definition io_text :: "io_error \<Rightarrow> string" where
  "io_text e = (case e of IoError _ t \<Rightarrow> t)"

record file_image =
  fi_bytes :: bytes
  fi_synced :: bool

record disk =
  dk_state :: "file_image option"
  dk_durable :: "bytes option"
  dk_staging :: "file_image option"
  dk_lock :: bytes
  dk_locked :: bool
  dk_mode :: nat

definition max_state :: usize where "max_state = 2 * 1024 * 1024"

text \<open>
  What a crash can leave under the state name: the entry of the last directory sync, or
  the visible entry, whose contents are certain only once they were synced.
\<close>

definition crash_images :: "disk \<Rightarrow> bytes option set" where
  "crash_images d =
     insert (dk_durable d)
       (case dk_state d of
          None \<Rightarrow> {None}
        | Some f \<Rightarrow> if fi_synced f then {Some (fi_bytes f)} else {Some t |t. prefix t (fi_bytes f)})"

section \<open>Errors and file checks\<close>

definition store_error :: "string \<Rightarrow> discovery_error" where
  "store_error e = Store e"

definition write_error :: "io_error \<Rightarrow> discovery_error" where
  "write_error e =
     (case e of IoError code t \<Rightarrow>
        if code = Some NOSPC \<or> code = Some DQUOT then StorageUnavailable t else store_error t)"

text \<open>\<open>regular\<close> on the metadata the system reports: is it a file, and its link count.\<close>

definition regular :: "(string, bool \<times> nat) result \<Rightarrow> (discovery_error, unit) result" where
  "regular meta =
     rbind (map_err store_error meta) (\<lambda>(is_file, nlink).
     ensure (\<not> (\<not> is_file \<or> nlink \<noteq> 1)) (store_error ''policy state must be a singly linked regular file''))"

section \<open>Ownership\<close>

record open_io =
  oi_create_dir :: "string option"
  oi_open_dir :: "string option"
  oi_metadata :: "string option"
  oi_chmod :: "string option"
  oi_lock_open :: "string option"
  oi_lock_meta :: "(string, bool \<times> nat) result"
  oi_try_lock :: "string option"

definition io_ok :: "string option \<Rightarrow> (discovery_error, unit) result" where
  "io_ok e = (case e of None \<Rightarrow> Inr () | Some t \<Rightarrow> Inl (store_error t))"

text \<open>\<open>from_directory\<close>: open the lock file and take the exclusive lock.\<close>

definition from_directory :: "open_io \<Rightarrow> disk \<Rightarrow> (discovery_error, disk) result" where
  "from_directory io d =
     rbind (io_ok (oi_lock_open io)) (\<lambda>_.
     rbind (regular (oi_lock_meta io)) (\<lambda>_.
     rbind (if dk_locked d then Inl Busy else io_ok (oi_try_lock io)) (\<lambda>_.
     Inr (d\<lparr>dk_locked := True\<rparr>))))"

definition open_named :: "open_io \<Rightarrow> disk \<Rightarrow> (discovery_error, disk) result" where
  "open_named io d =
     rbind (io_ok (oi_create_dir io)) (\<lambda>_.
     rbind (io_ok (oi_open_dir io)) (\<lambda>_.
     rbind (io_ok (oi_metadata io)) (\<lambda>_.
     rbind (if dk_mode d \<noteq> 448 then rbind (io_ok (oi_chmod io)) (\<lambda>_. Inr (d\<lparr>dk_mode := 448\<rparr>))
            else Inr d) (\<lambda>d1.
     from_directory io d1))))"

text \<open>\<open>Drop\<close> releases the lock.\<close>

definition atomic_drop :: "disk \<Rightarrow> disk" where
  "atomic_drop d = d\<lparr>dk_locked := False\<rparr>"

definition initialized :: "string option \<Rightarrow> disk \<Rightarrow> (discovery_error, bool) result" where
  "initialized meta d = rbind (io_ok meta) (\<lambda>_. Inr (length (dk_lock d) \<noteq> 0))"

definition marker :: bytes where
  "marker = str_bytes ''rds-policy-state/v1'' @ [10]"

text \<open>A failed \<open>write_all\<close> of the marker has written some of its bytes.\<close>

record seal_io =
  si_write :: "(string \<times> nat) option"
  si_sync :: "string option"
  si_dir_sync :: "string option"

text \<open>A directory sync makes the visible entry the durable one.\<close>

definition sync_directory :: "disk \<Rightarrow> disk" where
  "sync_directory d = d\<lparr>dk_durable := map_option fi_bytes (dk_state d)\<rparr>"

definition write_lock :: "bytes \<Rightarrow> disk \<Rightarrow> disk" where
  "write_lock bs d = d\<lparr>dk_lock := bs @ drop (length bs) (dk_lock d)\<rparr>"

definition seal :: "seal_io \<Rightarrow> disk \<Rightarrow> disk \<times> (discovery_error, unit) result" where
  "seal io d =
     (case si_write io of
        Some (e, n) \<Rightarrow> (write_lock (take n marker) d, Inl (store_error e))
      | None \<Rightarrow>
      (let d1 = write_lock marker d
       in case si_sync io of Some e \<Rightarrow> (d1, Inl (store_error e)) | None \<Rightarrow>
          (case si_dir_sync io of Some e \<Rightarrow> (d1, Inl (store_error e)) | None \<Rightarrow>
             (sync_directory d1, Inr ()))))"

section \<open>Reading\<close>

record read_io =
  ri_open :: "string option"
  ri_meta :: "(string, bool \<times> nat) result"
  ri_read :: "string option"

definition atomic_read :: "read_io \<Rightarrow> disk \<Rightarrow> (discovery_error, bytes option) result" where
  "atomic_read io d =
     (case ri_open io of Some e \<Rightarrow> Inl (store_error e) | None \<Rightarrow>
      (case dk_state d of
         None \<Rightarrow> Inr None
       | Some f \<Rightarrow>
           rbind (regular (ri_meta io)) (\<lambda>_.
           rbind (io_ok (ri_read io)) (\<lambda>_.
           let bs = take (max_state + 1) (fi_bytes f)
           in rbind (ensure (\<not> length bs > max_state) (store_error ''policy state exceeds limit'')) (\<lambda>_.
              Inr (Some bs))))))"

section \<open>Writing\<close>

datatype open_outcome = Opened | AlreadyExists | OpenFailed io_error

text \<open>The staging loop: attempt \<open>i\<close> of the remaining \<open>n\<close>.\<close>

fun open_staging :: "(nat \<Rightarrow> open_outcome) \<Rightarrow> nat \<Rightarrow> nat \<Rightarrow> (discovery_error, unit) result" where
  "open_staging opens i 0 = Inl (store_error ''cannot allocate policy staging'')"
| "open_staging opens i (Suc n) =
     (case opens i of
        Opened \<Rightarrow> Inr ()
      | AlreadyExists \<Rightarrow> open_staging opens (Suc i) n
      | OpenFailed e \<Rightarrow> Inl (write_error e))"

text \<open>A failed \<open>write_all\<close> leaves a prefix of the bytes in the staging file.\<close>

record write_io =
  wi_read :: read_io
  wi_open :: "nat \<Rightarrow> open_outcome"
  wi_write :: "(io_error \<times> nat) option"
  wi_sync :: "io_error option"
  wi_rename :: "io_error option"
  wi_dir_sync :: "io_error option"

type_synonym disk_step = "disk \<Rightarrow> disk \<times> io_error option"

definition step_write :: "write_io \<Rightarrow> bytes \<Rightarrow> disk_step" where
  "step_write io bs d =
     (case wi_write io of
        None \<Rightarrow> (d\<lparr>dk_staging := Some \<lparr>fi_bytes = bs, fi_synced = False\<rparr>\<rparr>, None)
      | Some (e, n) \<Rightarrow> (d\<lparr>dk_staging := Some \<lparr>fi_bytes = take n bs, fi_synced = False\<rparr>\<rparr>, Some e))"

definition step_sync :: "write_io \<Rightarrow> disk_step" where
  "step_sync io d =
     (case wi_sync io of
        None \<Rightarrow> (d\<lparr>dk_staging := map_option (\<lambda>f. f\<lparr>fi_synced := True\<rparr>) (dk_staging d)\<rparr>, None)
      | Some e \<Rightarrow> (d, Some e))"

definition step_rename :: "write_io \<Rightarrow> disk_step" where
  "step_rename io d =
     (case wi_rename io of
        None \<Rightarrow> (d\<lparr>dk_state := dk_staging d, dk_staging := None\<rparr>, None)
      | Some e \<Rightarrow> (d, Some e))"

definition step_dir_sync :: "write_io \<Rightarrow> disk_step" where
  "step_dir_sync io d = (case wi_dir_sync io of None \<Rightarrow> (sync_directory d, None) | Some e \<Rightarrow> (d, Some e))"

text \<open>Run steps up to the first error; the list is every disk state passed through.\<close>

fun run_steps :: "disk_step list \<Rightarrow> disk \<Rightarrow> disk list \<times> (discovery_error, unit) result" where
  "run_steps [] d = ([], Inr ())"
| "run_steps (f # fs) d =
     (case f d of
        (d1, Some e) \<Rightarrow> ([d1], Inl (write_error e))
      | (d1, None) \<Rightarrow> (case run_steps fs d1 of (tr, r) \<Rightarrow> (d1 # tr, r)))"

definition write_steps :: "write_io \<Rightarrow> bytes \<Rightarrow> disk_step list" where
  "write_steps io bs = [step_write io bs, step_sync io, step_rename io, step_dir_sync io]"

definition atomic_write_trace :: "write_io \<Rightarrow> disk \<Rightarrow> bytes \<Rightarrow> disk list \<times> (discovery_error, unit) result" where
  "atomic_write_trace io d bs =
     (if length bs > max_state then ([d], Inl (store_error ''policy state exceeds limit''))
      else case atomic_read (wi_read io) d of
             Inl e \<Rightarrow> ([d], Inl e)
           | Inr _ \<Rightarrow>
               (case open_staging (wi_open io) 0 16 of
                  Inl e \<Rightarrow> ([d], Inl e)
                | Inr _ \<Rightarrow>
                    (let d0 = d\<lparr>dk_staging := Some \<lparr>fi_bytes = [], fi_synced = False\<rparr>\<rparr>
                     in case run_steps (write_steps io bs) d0 of
                          (tr, r) \<Rightarrow> (d # d0 # tr @ [(last tr)\<lparr>dk_staging := None\<rparr>], r))))"

definition atomic_write :: "write_io \<Rightarrow> disk \<Rightarrow> bytes \<Rightarrow> disk \<times> (discovery_error, unit) result" where
  "atomic_write io d bs = (case atomic_write_trace io d bs of (tr, r) \<Rightarrow> (last tr, r))"

lemmas write_step_defs = step_write_def step_sync_def step_rename_def step_dir_sync_def
  sync_directory_def

section \<open>Crash consistency of a write\<close>

lemma run_steps_Inr_length: "run_steps fs d = (tr, Inr ()) \<Longrightarrow> length tr = length fs"
  by (induction fs arbitrary: d tr) (auto split: prod.splits option.splits)

text \<open>An all-or-nothing image: nothing new can be found except the complete new contents.\<close>

definition old_or_new :: "disk \<Rightarrow> bytes \<Rightarrow> disk \<Rightarrow> bool" where
  "old_or_new d bs d1 \<longleftrightarrow>
     crash_images d1 \<subseteq> crash_images d \<union> {Some bs} \<and>
     (dk_state d1 = dk_state d \<or> dk_state d1 = Some \<lparr>fi_bytes = bs, fi_synced = True\<rparr>)"

lemma old_or_new_staging [simp]: "old_or_new d bs (d1\<lparr>dk_staging := s\<rparr>) = old_or_new d bs d1"
  by (simp add: old_or_new_def crash_images_def)

lemma old_or_new_refl [simp]: "old_or_new d bs d"
  by (auto simp: old_or_new_def)

lemma open_staging_Opened: "opens i = Opened \<Longrightarrow> 0 < n \<Longrightarrow> open_staging opens i n = Inr ()"
  by (cases n) simp_all

lemma write_steps_trace:
  assumes "run_steps (write_steps io bs) d = (tr, r)"
  shows "tr \<noteq> []" and "\<forall>d1\<in>set tr. old_or_new d bs d1"
    and "r = Inr () \<Longrightarrow> crash_images (last tr) = {Some bs} \<and>
           dk_state (last tr) = Some \<lparr>fi_bytes = bs, fi_synced = True\<rparr>"
proof -
  note defs = write_steps_def write_step_defs
  show "tr \<noteq> []"
    using assms by (auto simp: write_steps_def split: prod.splits option.splits)
  show "\<forall>d1\<in>set tr. old_or_new d bs d1"
    using assms
    by (cases "wi_write io"; cases "wi_sync io"; cases "wi_rename io"; cases "wi_dir_sync io")
      (auto simp: defs old_or_new_def crash_images_def)
  show "crash_images (last tr) = {Some bs} \<and> dk_state (last tr) = Some \<lparr>fi_bytes = bs, fi_synced = True\<rparr>"
    if "r = Inr ()"
    using assms that
    by (cases "wi_write io"; cases "wi_sync io"; cases "wi_rename io"; cases "wi_dir_sync io")
      (auto simp: defs crash_images_def)
qed

lemma atomic_write_trace_safe:
  assumes "atomic_write_trace io d bs = (tr, r)"
  shows "(\<forall>d1\<in>set tr. old_or_new d bs d1) \<and> (r = Inr () \<longrightarrow> crash_images (last tr) = {Some bs})"
proof (cases "length bs > max_state \<or> (\<exists>e. atomic_read (wi_read io) d = Inl e) \<or>
    (\<exists>e. open_staging (wi_open io) 0 16 = Inl e)")
  case True
  then show ?thesis
    using assms by (auto simp: atomic_write_trace_def split: if_splits sum.splits)
next
  case False
  define d0 where "d0 = d\<lparr>dk_staging := Some \<lparr>fi_bytes = [], fi_synced = False\<rparr>\<rparr>"
  obtain st r1 where run: "run_steps (write_steps io bs) d0 = (st, r1)" by fastforce
  have tr: "tr = d # d0 # st @ [(last st)\<lparr>dk_staging := None\<rparr>]" "r = r1"
    using assms False run
    by (auto simp: atomic_write_trace_def d0_def [symmetric] Let_def split: sum.splits)
  have base: "old_or_new d0 bs = old_or_new d bs"
    by (rule ext) (simp add: old_or_new_def d0_def crash_images_def)
  note st = write_steps_trace [OF run]
  have "old_or_new d bs (last st)"
    using st(1,2) base by simp
  then have "\<forall>d1\<in>set tr. old_or_new d bs d1"
    using st(2) base tr by (auto simp: d0_def)
  then show ?thesis
    using st(3) tr by (auto simp: crash_images_def)
qed

lemma atomic_write_safe:
  assumes "atomic_write io d bs = (d1, r)"
  shows "crash_images d1 \<subseteq> crash_images d \<union> {Some bs} \<and> (r = Inr () \<longrightarrow> crash_images d1 = {Some bs})"
proof -
  obtain tr where tr: "atomic_write_trace io d bs = (tr, r)" "d1 = last tr"
    using assms by (auto simp: atomic_write_def split: prod.splits)
  have "tr \<noteq> []"
    using tr(1) by (auto simp: atomic_write_trace_def Let_def split: if_splits sum.splits prod.splits)
  then show ?thesis
    using atomic_write_trace_safe [OF tr(1)] tr(2) by (auto simp: old_or_new_def)
qed

text \<open>
  C12. A write of the protected state is atomic at every instant: whichever system calls
  fail and wherever a crash strikes, a reader finds a complete earlier image or the
  complete new bytes and never a torn file; and once \<open>write\<close> has returned success a
  crash can leave nothing but the new bytes.
\<close>

theorem atomic_write_crash_safe:
  assumes "atomic_write_trace io d bs = (tr, r)"
  shows "(\<forall>d1\<in>set tr. old_or_new d bs d1) \<and> (r = Inr () \<longrightarrow> crash_images (last tr) = {Some bs})"
  using assms by (rule atomic_write_trace_safe)

definition disk0 :: disk where
  "disk0 = \<lparr>dk_state = None, dk_durable = None, dk_staging = None, dk_lock = [], dk_locked = False,
     dk_mode = 448\<rparr>"

definition read_ok :: read_io where
  "read_ok = \<lparr>ri_open = None, ri_meta = Inr (True, 1), ri_read = None\<rparr>"

definition write_ok :: write_io where
  "write_ok = \<lparr>wi_read = read_ok, wi_open = (\<lambda>_. Opened), wi_write = None, wi_sync = None,
     wi_rename = None, wi_dir_sync = None\<rparr>"

theorem atomic_write_crash_safe_witness:
  "snd (atomic_write_trace write_ok disk0 [1, 2]) = Inr () \<and>
   crash_images (last (fst (atomic_write_trace write_ok disk0 [1, 2]))) = {Some [1, 2]}"
proof -
  have "snd (atomic_write_trace write_ok disk0 [1, 2]) = Inr ()"
    by (simp add: atomic_write_trace_def write_ok_def read_ok_def disk0_def max_state_def atomic_read_def
        open_staging_Opened write_steps_def write_step_defs)
  then show ?thesis
    using atomic_write_crash_safe [of write_ok disk0 "[1, 2]"]
    by (metis prod.collapse)
qed

lemma atomic_write_Inr:
  assumes "atomic_write io d bs = (d1, Inr ())"
  shows "dk_state d1 = Some \<lparr>fi_bytes = bs, fi_synced = True\<rparr> \<and> dk_durable d1 = Some bs \<and>
         length bs \<le> max_state"
proof -
  have len: "length bs \<le> max_state"
    using assms by (auto simp: atomic_write_def atomic_write_trace_def split: if_splits)
  obtain st r where run: "run_steps (write_steps io bs)
      (d\<lparr>dk_staging := Some \<lparr>fi_bytes = [], fi_synced = False\<rparr>\<rparr>) = (st, r)" by fastforce
  then have "d1 = (last st)\<lparr>dk_staging := None\<rparr>" "r = Inr ()"
    using assms by (auto simp: atomic_write_def atomic_write_trace_def Let_def
        split: if_splits sum.splits)
  then show ?thesis
    using write_steps_trace(3) [OF run] len by (auto simp: crash_images_def)
qed

text \<open>What a successful write stored is what the next read returns.\<close>

lemma atomic_read_after_write:
  assumes "atomic_write io d bs = (d1, Inr ())" and "ri_open rd = None" and "regular (ri_meta rd) = Inr ()"
    and "ri_read rd = None"
  shows "atomic_read rd d1 = Inr (Some bs)"
  using atomic_write_Inr [OF assms(1)] assms(2-)
  by (simp add: atomic_read_def io_ok_def Let_def)

text \<open>
  The state directory has one owner: \<open>open\<close> succeeds only when nobody holds the lock
  and takes it, an attempt while it is held is refused and changes nothing, and dropping
  the owner makes it available again.
\<close>

theorem open_named_exclusive:
  "open_named io d = Inr d1 \<longrightarrow>
     \<not> dk_locked d \<and> dk_locked d1 \<and> dk_state d1 = dk_state d \<and>
     (\<forall>io2 d2. open_named io2 d1 \<noteq> Inr d2) \<and> \<not> dk_locked (atomic_drop d1)"
  by (auto simp: open_named_def from_directory_def atomic_drop_def res_simps split: if_splits)

definition open_ok :: open_io where
  "open_ok = \<lparr>oi_create_dir = None, oi_open_dir = None, oi_metadata = None, oi_chmod = None,
     oi_lock_open = None, oi_lock_meta = Inr (True, 1), oi_try_lock = None\<rparr>"

theorem open_named_exclusive_witness:
  "open_named open_ok disk0 = Inr (disk0\<lparr>dk_locked := True\<rparr>) \<and>
   (\<forall>io d2. open_named io (disk0\<lparr>dk_locked := True\<rparr>) \<noteq> Inr d2)"
proof -
  have h: "open_named open_ok disk0 = Inr (disk0\<lparr>dk_locked := True\<rparr>)"
    by (simp add: open_named_def open_ok_def io_ok_def from_directory_def regular_def disk0_def)
  show ?thesis
    using h open_named_exclusive [of open_ok disk0 "disk0\<lparr>dk_locked := True\<rparr>"] by blast
qed

end
