(* ===== verification/Rds_Record_File.thy ===== *)
theory Rds_Record_File
  imports Rds_Record_Memory Rds_Persist
begin

text \<open>
  The durable record store (\<open>rds-discovery/src/records.rs\<close>): a transactional table of cells
  with a metadata row, and beside it the commit anchor in a protected atomic file. The embedded
  database engine is third-party code: what the store sees of it is the committed contents and,
  per call, whether it failed and whether a failed commit took effect.
\<close>

section \<open>The bounded backend\<close>

definition max_cell :: usize where "max_cell = 256 * 1024"
definition max_database :: u64 where "max_database = 256 * 1024 * 1024"

definition bounds :: "u64 \<Rightarrow> usize \<Rightarrow> (string, unit) result" where
  "bounds offset len =
     (if (case checked_add64 offset len of None \<Rightarrow> True | Some end \<Rightarrow> end > max_database)
      then Inl ''record database capacity exceeded'' else Inr ())"

text \<open>
  The file below the engine, as its bytes; \<open>fault\<close> is what the system call reports. A write past
  the end leaves zeros in the gap, a failed write may have written any prefix.
\<close>

definition pwrite :: "bytes \<Rightarrow> u64 \<Rightarrow> bytes \<Rightarrow> bytes" where
  "pwrite file offset data =
     take offset (file @ replicate (offset - length file) 0) @ data @ drop (offset + length data) file"

definition bounded_read :: "string option \<Rightarrow> bytes \<Rightarrow> u64 \<Rightarrow> usize \<Rightarrow> (string, bytes) result" where
  "bounded_read fault file offset len =
     rbind (bounds offset len) (\<lambda>_.
     case fault of
       Some e \<Rightarrow> Inl e
     | None \<Rightarrow> if offset + len \<le> length file then Inr (take len (drop offset file))
               else Inl ''failed to fill whole buffer'')"

definition bounded_set_len :: "string option \<Rightarrow> bytes \<Rightarrow> u64 \<Rightarrow> bytes \<times> (string, unit) result" where
  "bounded_set_len fault file len =
     (if len > max_database then (file, Inl ''record database capacity exceeded'')
      else case fault of
             Some e \<Rightarrow> (file, Inl e)
           | None \<Rightarrow> (take len (file @ replicate (len - length file) 0), Inr ()))"

definition bounded_write ::
  "(string \<times> nat) option \<Rightarrow> bytes \<Rightarrow> u64 \<Rightarrow> bytes \<Rightarrow> bytes \<times> (string, unit) result" where
  "bounded_write fault file offset data =
     attempt file (bounds offset (length data)) (\<lambda>_.
     case fault of
       Some (e, n) \<Rightarrow> (if n = 0 then file else pwrite file offset (take n data), Inl e)
     | None \<Rightarrow> (if data = [] then file else pwrite file offset data, Inr ()))"

section \<open>Metadata and anchor\<close>

record db_metadata =
  md_format :: u16
  md_database :: bytes
  md_generation :: u64
  md_live :: u64
  md_identities :: u64
  md_wall_floor :: duration

record anchor =
  an_metadata :: db_metadata
  an_digest :: bytes

record file_ctx =
  fx_store :: store_ctx
  fx_stored :: "stored codec"
  fx_meta :: "db_metadata codec"
  fx_to_json :: "anchor \<Rightarrow> (string, bytes) result"
  fx_from_json :: "bytes \<Rightarrow> (string, anchor) result"



definition metadata_digest :: "file_ctx \<Rightarrow> db_metadata \<Rightarrow> bytes" where
  "metadata_digest fx md = blake3 (w_crypto (sx_wire (fx_store fx))) (enc (fx_meta fx) md)"

definition encode_anchor :: "file_ctx \<Rightarrow> db_metadata \<Rightarrow> (discovery_error, bytes) result" where
  "encode_anchor fx md =
     map_err record_error (fx_to_json fx \<lparr>an_metadata = md, an_digest = metadata_digest fx md\<rparr>)"

definition decode_anchor :: "file_ctx \<Rightarrow> bytes \<Rightarrow> (discovery_error, db_metadata) result" where
  "decode_anchor fx bs =
     rbind (map_err record_error (fx_from_json fx bs)) (\<lambda>a.
     rbind (ensure (metadata_digest fx (an_metadata a) = an_digest a)
             (record_error ''record commit anchor checksum mismatch'')) (\<lambda>_.
     Inr (an_metadata a)))"

definition exact :: "'a codec \<Rightarrow> bytes \<Rightarrow> (discovery_error, 'a) result" where
  "exact cd bs =
     rbind (map_err record_error (dec cd bs)) (\<lambda>(v, remaining).
     rbind (ensure (remaining = []) (record_error ''trailing stored record bytes'')) (\<lambda>_. Inr v))"

definition cell_decode :: "file_ctx \<Rightarrow> bytes \<Rightarrow> endpoint_key \<Rightarrow> (discovery_error, stored) result" where
  "cell_decode fx bs key =
     rbind (ensure (\<not> length bs > max_cell) (record_error ''stored record exceeds limit'')) (\<lambda>_.
     rbind (exact (fx_stored fx) bs) (\<lambda>s.
     rbind (stored_verify (fx_store fx) s key) (\<lambda>_. Inr s)))"

section \<open>State\<close>

text \<open>What is committed: the two tables (\<open>None\<close> while they do not exist) and the metadata row.\<close>

record database =
  db_records :: "(bytes, bytes) btree option"
  db_meta :: "bytes option option"

record file_inner =
  fi_db :: database
  fi_anchor :: disk
  fi_metadata :: db_metadata
  fi_failed :: bool
  fi_observed_wall :: duration
  fi_cursor :: "bytes option"

record file_store =
  fs_inner :: file_inner
  fs_poisoned :: bool
  fs_observed :: "record_snapshot published"

definition make_snapshot :: "db_metadata \<Rightarrow> bool \<Rightarrow> record_snapshot" where
  "make_snapshot md healthy =
     \<lparr>rs_healthy = healthy, rs_durable = True, rs_generation = Some (md_generation md),
      rs_records = md_live md, rs_identities = md_identities md, rs_capacity = max_identities\<rparr>"

text \<open>How one commit meets the database engine and the file system.\<close>

datatype commit_outcome = Committed | NotCommitted string | CommittedUnsure string

record db_commit_io =
  xi_read :: read_io
  xi_begin :: "string option"
  xi_commit :: commit_outcome
  xi_write :: write_io

definition db_ok :: "string option \<Rightarrow> (discovery_error, unit) result" where
  "db_ok e = (case e of None \<Rightarrow> Inr () | Some t \<Rightarrow> Inl (record_error t))"

definition db_table :: "database \<Rightarrow> (discovery_error, (bytes, bytes) btree) result" where
  "db_table db = ok_or (record_error ''table does not exist'') (db_records db)"

text \<open>A write transaction creates a table it opens.\<close>

definition write_table :: "database \<Rightarrow> (bytes, bytes) btree" where
  "write_table db = (case db_records db of Some t \<Rightarrow> t | None \<Rightarrow> [])"

section \<open>Commit\<close>

text \<open>The loop over the changes inside the write transaction, on its own view of the table.\<close>

fun commit_changes ::
  "file_ctx \<Rightarrow> (endpoint_key \<times> stored) list \<Rightarrow> (bytes, bytes) btree \<Rightarrow> db_metadata \<Rightarrow>
     (discovery_error, (bytes, bytes) btree \<times> db_metadata) result" where
  "commit_changes fx [] table next = Inr (table, next)"
| "commit_changes fx ((key, replacement) # changes) table next =
     (let bs = enc (fx_stored fx) replacement in
      rbind (ensure (\<not> length bs > max_cell) (record_error ''record exceeds storage limit'')) (\<lambda>_.
      rbind (transpose_map (\<lambda>b. cell_decode fx b key) (map_of table key)) (\<lambda>old.
      rbind (if old = None
             then ok_or (record_error ''record identity capacity exceeded'')
                    (case checked_add64 (md_identities next) 1 of
                       Some n \<Rightarrow> if n \<le> max_identities then Some n else None
                     | None \<Rightarrow> None)
             else Inr (md_identities next)) (\<lambda>identities.
      rbind (ok_or (record_error ''record count inconsistent'')
              (case checked_sub64 (md_live next)
                      (of_bool (case old of Some s \<Rightarrow> stored_live s | None \<Rightarrow> False)) of
                 Some n \<Rightarrow> checked_add64 n (of_bool (stored_live replacement))
               | None \<Rightarrow> None)) (\<lambda>live.
      commit_changes fx changes (bt_put key bs table)
        (next\<lparr>md_identities := identities, md_live := live\<rparr>))))))"

text \<open>
  The transaction of \<open>commit\<close> up to its end: the anchor is checked, the next metadata computed,
  both tables are written. Nothing of it is visible before the engine commits.
\<close>

definition commit_transaction ::
  "file_ctx \<Rightarrow> db_commit_io \<Rightarrow> (endpoint_key \<times> stored) list \<Rightarrow> reading \<Rightarrow> file_inner \<Rightarrow>
     (discovery_error, database \<times> db_metadata) result" where
  "commit_transaction fx io changes now inner =
     rbind (atomic_read (xi_read io) (fi_anchor inner)) (\<lambda>bs0.
     rbind (ok_or (record_error ''record commit anchor disappeared'') bs0) (\<lambda>anchored.
     rbind (decode_anchor fx anchored) (\<lambda>md.
     rbind (ensure (md = fi_metadata inner)
             (record_error ''record commit anchor changed during service lifetime'')) (\<lambda>_.
     rbind (ok_or (record_error ''record commit generation exhausted'')
             (checked_add64 (md_generation (fi_metadata inner)) 1)) (\<lambda>generation.
     let next = (fi_metadata inner)\<lparr>md_generation := generation,
                  md_wall_floor := max (md_wall_floor (fi_metadata inner)) (r_wall now)\<rparr> in
     rbind (db_ok (xi_begin io)) (\<lambda>_.
     rbind (commit_changes fx changes (write_table (fi_db inner)) next) (\<lambda>(table, next).
     Inr (\<lparr>db_records = Some table, db_meta = Some (Some (enc (fx_meta fx) next))\<rparr>, next))))))))"

text \<open>The engine's commit: the new contents, the old ones, or the new ones with an error.\<close>

definition db_commit :: "commit_outcome \<Rightarrow> database \<Rightarrow> database \<Rightarrow> database \<times> (discovery_error, unit) result" where
  "db_commit out old new =
     (case out of
        Committed \<Rightarrow> (new, Inr ())
      | NotCommitted e \<Rightarrow> (old, Inl (record_error e))
      | CommittedUnsure e \<Rightarrow> (new, Inl (record_error e)))"

definition inner_commit ::
  "file_ctx \<Rightarrow> db_commit_io \<Rightarrow> (endpoint_key \<times> stored) list \<Rightarrow> reading \<Rightarrow> file_inner \<Rightarrow>
     file_inner \<times> (discovery_error, unit) result" where
  "inner_commit fx io changes now inner0 =
     (let inner = inner0\<lparr>fi_failed := True\<rparr> in
      attempt inner (commit_transaction fx io changes now inner) (\<lambda>(db, next).
      case db_commit (xi_commit io) (fi_db inner) db of (db1, r) \<Rightarrow>
      attempt (inner\<lparr>fi_db := db1\<rparr>) r (\<lambda>_.
      attempt (inner\<lparr>fi_db := db1\<rparr>) (encode_anchor fx next) (\<lambda>bs.
      case atomic_write (xi_write io) (fi_anchor inner) bs of (d, r2) \<Rightarrow>
      attempt (inner\<lparr>fi_db := db1, fi_anchor := d\<rparr>) r2 (\<lambda>_.
      (inner\<lparr>fi_db := db1, fi_anchor := d, fi_metadata := next, fi_failed := False\<rparr>, Inr ()))))))"

definition inner_healthy :: "file_inner \<Rightarrow> (discovery_error, unit) result" where
  "inner_healthy inner =
     ensure (\<not> fi_failed inner) (record_error ''record commit outcome uncertain; reopen required'')"

section \<open>Operations\<close>

definition file_observed_access ::
  "(file_inner \<times> 'a \<Rightarrow> (file_inner \<times> 'a) \<times> (discovery_error, 'b) result) \<Rightarrow> file_store \<times> 'a \<Rightarrow>
     (file_store \<times> 'a) \<times> (discovery_error, 'b) result" where
  "file_observed_access work sa =
     (case sa of (s, a) \<Rightarrow>
        if fs_poisoned s
        then ((s\<lparr>fs_observed := pub_finish (\<lambda>n. n\<lparr>rs_healthy := False\<rparr>) (fs_observed s)\<rparr>, a),
              Inl (record_error ''poisoned lock: another task failed inside''))
        else (case work (fs_inner s, a) of ((i, a2), r) \<Rightarrow>
                ((s\<lparr>fs_inner := i,
                    fs_observed := pub_finish (\<lambda>_. make_snapshot (fi_metadata i) (\<not> fi_failed i))
                      (pub_begin (fs_observed s))\<rparr>, a2), r)))"

text \<open>The read transaction of an access; an error in it leaves the store failed.\<close>

definition read_cell ::
  "file_ctx \<Rightarrow> string option \<Rightarrow> database \<Rightarrow> endpoint_key \<Rightarrow> (discovery_error, stored option) result" where
  "read_cell fx fault db key =
     rbind (db_ok fault) (\<lambda>_.
     rbind (db_table db) (\<lambda>table.
     transpose_map (\<lambda>b. cell_decode fx b key) (map_of table key)))"

record access_io =
  ai_read :: "string option"
  ai_commit :: db_commit_io

definition file_access_admitted ::
  "file_ctx \<Rightarrow> access_io \<Rightarrow> endpoint_key \<Rightarrow> entry option \<Rightarrow> (discovery_error, reading) result \<Rightarrow> 'a admit \<Rightarrow>
     file_inner \<times> 'a \<Rightarrow> (file_inner \<times> 'a) \<times> (discovery_error, endpoint_record option) result" where
  "file_access_admitted fx io key e clock admit ia =
     (case ia of (i0, a) \<Rightarrow>
        attempt (i0, a) (inner_healthy i0) (\<lambda>_.
        attempt (i0, a) clock (\<lambda>now.
        attempt (i0, a) (observe (md_wall_floor (fi_metadata i0)) (fi_observed_wall i0) now) (\<lambda>wall.
        let i1 = i0\<lparr>fi_observed_wall := wall, fi_failed := True\<rparr> in
        attempt (i1, a) (read_cell fx (ai_read io) (fi_db i1) key) (\<lambda>old.
        let i = i1\<lparr>fi_failed := False\<rparr> in
        attempt (i, a) (decide (fx_store fx) old e key now) (\<lambda>d.
        case dc_replacement d of
          None \<Rightarrow> ((i, a), dc_result d)
        | Some replacement \<Rightarrow>
            attempt (i, a)
              (ensure (\<not> (old = None \<and> md_identities (fi_metadata i) \<ge> max_identities))
                (record_error ''record identity capacity exceeded'')) (\<lambda>_.
            and_then
              (if is_active replacement then (case admit (old \<noteq> None) a of (a2, r) \<Rightarrow> ((i, a2), r))
               else ((i, a), Inr ()))
              (\<lambda>(i, a2) _.
            and_then
              (case inner_commit fx (ai_commit io) [(key, replacement)] now i of (i2, r) \<Rightarrow> ((i2, a2), r))
              (\<lambda>ia _. (ia, dc_result d))))))))))"

text \<open>The scan of a collection: the cells to retire, how many were scanned and the last key.\<close>

fun collect_scan ::
  "file_ctx \<Rightarrow> reading \<Rightarrow> (bytes, bytes) btree \<Rightarrow>
     (discovery_error, (endpoint_key \<times> stored) list) result" where
  "collect_scan fx now [] = Inr []"
| "collect_scan fx now ((key, b) # items) =
     rbind (ensure (length key = 32) (record_error ''could not convert slice to array'')) (\<lambda>_.
     rbind (cell_decode fx b key) (\<lambda>s.
     rbind (stored_retire (fx_store fx) s key now) (\<lambda>r.
     rbind (collect_scan fx now items) (\<lambda>changes.
     Inr (case r of Some cell \<Rightarrow> (key, cell) # changes | None \<Rightarrow> changes)))))"

definition file_collect_at ::
  "file_ctx \<Rightarrow> access_io \<Rightarrow> (discovery_error, reading) result \<Rightarrow> file_inner \<times> 'a \<Rightarrow>
     (file_inner \<times> 'a) \<times> (discovery_error, nat) result" where
  "file_collect_at fx io clock ia =
     (case ia of (i0, a) \<Rightarrow>
        attempt (i0, a) (inner_healthy i0) (\<lambda>_.
        attempt (i0, a) clock (\<lambda>now.
        attempt (i0, a) (observe (md_wall_floor (fi_metadata i0)) (fi_observed_wall i0) now) (\<lambda>wall.
        let i1 = i0\<lparr>fi_observed_wall := wall, fi_failed := True\<rparr> in
        attempt (i1, a) (rbind (db_ok (ai_read io)) (\<lambda>_. db_table (fi_db i1))) (\<lambda>table.
        let items = take gc_batch (bt_after (fi_cursor i1) table) in
        attempt (i1, a) (collect_scan fx now items) (\<lambda>changes.
        let i = i1\<lparr>fi_failed := False\<rparr> in
        and_then
          (if changes \<noteq> []
           then (case inner_commit fx (ai_commit io) changes now i of (i2, r) \<Rightarrow> ((i2, a), r))
           else ((i, a), Inr ()))
          (\<lambda>(i2, a) _.
        ((i2\<lparr>fi_cursor := (if length items = gc_batch then Some (fst (last items)) else None)\<rparr>, a),
         Inr (length changes)))))))))"

section \<open>The trait\<close>

definition file_put_admitted ::
  "file_ctx \<Rightarrow> access_io \<Rightarrow> endpoint_record \<Rightarrow> (discovery_error, reading) result \<Rightarrow> 'a admit \<Rightarrow>
     file_store \<times> 'a \<Rightarrow> (file_store \<times> 'a) \<times> (discovery_error, unit) result" where
  "file_put_admitted fx io r clock admit sa =
     attempt sa (record_verify (sx_wire (fx_store fx)) r) (\<lambda>p.
     and_then
       (file_observed_access (file_access_admitted fx io (pl_key p) (Some (ERecord r)) clock admit) sa)
       (\<lambda>sa _. (sa, Inr ())))"

definition file_get ::
  "file_ctx \<Rightarrow> access_io \<Rightarrow> endpoint_key \<Rightarrow> (discovery_error, reading) result \<Rightarrow> file_store \<times> 'a \<Rightarrow>
     (file_store \<times> 'a) \<times> (discovery_error, endpoint_record) result" where
  "file_get fx io key clock sa =
     and_then (file_observed_access (file_access_admitted fx io key None clock admit_all) sa)
       (\<lambda>sa r. (sa, ok_or NotFound r))"

definition file_remove_admitted ::
  "file_ctx \<Rightarrow> access_io \<Rightarrow> delete_request \<Rightarrow> (discovery_error, reading) result \<Rightarrow> 'a admit \<Rightarrow>
     file_store \<times> 'a \<Rightarrow> (file_store \<times> 'a) \<times> (discovery_error, unit) result" where
  "file_remove_admitted fx io tomb clock admit sa =
     attempt sa (delete_verify (sx_wire (fx_store fx)) tomb) (\<lambda>p.
     and_then
       (file_observed_access (file_access_admitted fx io (dp_key p) (Some (EDeleted tomb)) clock admit) sa)
       (\<lambda>sa _. (sa, Inr ())))"

definition file_collect_expired ::
  "file_ctx \<Rightarrow> access_io \<Rightarrow> (discovery_error, reading) result \<Rightarrow> file_store \<times> 'a \<Rightarrow>
     (file_store \<times> 'a) \<times> (discovery_error, nat) result" where
  "file_collect_expired fx io clock sa = file_observed_access (file_collect_at fx io clock) sa"

definition file_len :: "file_store \<Rightarrow> usize" where
  "file_len s = (if fs_poisoned s then 0 else md_live (fi_metadata (fs_inner s)))"

section \<open>Opening\<close>

text \<open>
  What the system reports while a store is opened: the directory entries in order, the state
  of the database file and its lock, and the outcome of every call that can fail.
\<close>

record open_db_io =
  oo_names :: "(string, string) result list"
  oo_read :: read_io
  oo_init_meta :: "string option"
  oo_open :: "string option"
  oo_file_meta :: "(string, bool \<times> nat) result"
  oo_try_lock :: "string option"
  oo_len :: "(string, u64) result"
  oo_create :: "string option"
  oo_begin_read :: "string option"
  oo_random :: bytes
  oo_first_commit :: commit_outcome
  oo_scan :: "string option"
  oo_write :: write_io
  oo_sealed_meta :: "string option"
  oo_seal :: seal_io

definition known_name :: "bool \<Rightarrow> string \<Rightarrow> bool" where
  "known_name migrating name \<longleftrightarrow>
     name \<in> {''.'', ''..'', ''records.lock'', ''records.anchor'', ''records.redb''}
     \<or> prefix ''.policy-'' name \<and> suffix ''.tmp'' name
     \<or> migrating \<and> name = ''migration.pending''"

fun check_names :: "bool \<Rightarrow> nat \<Rightarrow> (string, string) result list \<Rightarrow> (discovery_error, unit) result" where
  "check_names migrating index [] = Inr ()"
| "check_names migrating index (e # es) =
     rbind (ensure (\<not> index > 128) (record_error ''record state directory requires maintenance'')) (\<lambda>_.
     rbind (map_err record_error e) (\<lambda>name.
     rbind (ensure (known_name migrating name)
             (record_error ''legacy or unknown record files require explicit migration'')) (\<lambda>_.
     check_names migrating (Suc index) es)))"

definition first_metadata :: "bytes \<Rightarrow> db_metadata" where
  "first_metadata database =
     \<lparr>md_format = 3, md_database = database, md_generation = 1, md_live = 0, md_identities = 0,
      md_wall_floor = 0\<rparr>"

text \<open>Read the metadata row, or create both tables in a new database.\<close>

definition open_metadata ::
  "file_ctx \<Rightarrow> open_db_io \<Rightarrow> db_metadata option \<Rightarrow> database \<Rightarrow>
     database \<times> (discovery_error, db_metadata) result" where
  "open_metadata fx io stored_anchor db =
     attempt db (db_ok (oo_begin_read io)) (\<lambda>_.
     case db_meta db of
       Some row \<Rightarrow>
         attempt db (ok_or (record_error ''record metadata missing'') row) (\<lambda>b.
         (db, exact (fx_meta fx) b))
     | None \<Rightarrow>
         if stored_anchor = None then
           attempt db (ensure (db_records db = None)
                        (record_error ''record metadata absent from nonempty database'')) (\<lambda>_.
           let md = first_metadata (oo_random io);
               new = \<lparr>db_records = Some [], db_meta = Some (Some (enc (fx_meta fx) md))\<rparr>
           in case db_commit (oo_first_commit io) db new of (db1, r) \<Rightarrow>
                attempt db1 r (\<lambda>_. (db1, Inr md)))
         else (db, Inl (record_error ''table does not exist'')))"

definition check_metadata :: "db_metadata option \<Rightarrow> db_metadata \<Rightarrow> (discovery_error, unit) result" where
  "check_metadata stored_anchor md =
     rbind (ensure (\<not> (md_format md \<noteq> 3 \<or> md_generation md = 0 \<or> md_identities md > max_identities))
             (record_error ''invalid record metadata'')) (\<lambda>_.
     case stored_anchor of
       Some previous \<Rightarrow>
         ensure (\<not> (md_format previous \<noteq> md_format md \<or> md_wall_floor previous > md_wall_floor md
                    \<or> md_database previous \<noteq> md_database md
                    \<or> md_generation md < md_generation previous
                    \<or> md_generation md > sat_add64 (md_generation previous) 1
                    \<or> md_generation md = md_generation previous \<and> previous \<noteq> md))
           (record_error ''record database rolled back or disagrees with durable commit anchor'')
     | None \<Rightarrow>
         ensure (\<not> (md_generation md \<noteq> 1 \<or> md_identities md \<noteq> 0))
           (record_error ''record database lacks its commit anchor''))"

text \<open>Validate the whole catalog: identities and live records counted so far.\<close>

fun check_catalog ::
  "file_ctx \<Rightarrow> db_metadata \<Rightarrow> (bytes, bytes) btree \<Rightarrow> u64 \<Rightarrow> u64 \<Rightarrow> (discovery_error, u64 \<times> u64) result" where
  "check_catalog fx md [] identities live = Inr (identities, live)"
| "check_catalog fx md ((key, b) # items) identities live =
     rbind (ensure (\<not> identities + 1 > max_identities)
             (record_error ''record identity capacity exceeded'')) (\<lambda>_.
     rbind (ensure (length key = 32) (record_error ''could not convert slice to array'')) (\<lambda>_.
     rbind (cell_decode fx b key) (\<lambda>s.
     rbind (ensure (\<not> stored_accepted_wall s > md_wall_floor md)
             (record_error ''record lease exceeds catalog clock floor'')) (\<lambda>_.
     check_catalog fx md items (identities + 1) (live + of_bool (stored_live s))))))"

definition file_open_owned ::
  "file_ctx \<Rightarrow> open_db_io \<Rightarrow> bool \<Rightarrow> database \<Rightarrow> disk \<Rightarrow>
     (database \<times> disk) \<times> (discovery_error, file_store) result" where
  "file_open_owned fx io migrating db0 d0 =
     attempt (db0, d0) (check_names migrating 0 (oo_names io)) (\<lambda>_.
     attempt (db0, d0) (atomic_read (oo_read io) d0) (\<lambda>anchored.
     attempt (db0, d0) (transpose_map (decode_anchor fx) anchored) (\<lambda>stored_anchor.
     attempt (db0, d0) (if stored_anchor = None then initialized (oo_init_meta io) d0 else Inr False) (\<lambda>was.
     attempt (db0, d0) (ensure (\<not> was) (record_error ''record commit anchor missing'')) (\<lambda>_.
     attempt (db0, d0) (db_ok (oo_open io)) (\<lambda>_.
     attempt (db0, d0) (regular (oo_file_meta io)) (\<lambda>_.
     attempt (db0, d0) (map_err (\<lambda>e. record_error (''record database lock: '' @ e))
                          (case oo_try_lock io of None \<Rightarrow> Inr () | Some e \<Rightarrow> Inl e)) (\<lambda>_.
     attempt (db0, d0) (map_err record_error (oo_len io)) (\<lambda>len.
     attempt (db0, d0) (ensure (\<not> (len > max_database \<or> len = 0 \<and> stored_anchor \<noteq> None))
                          (record_error ''record database missing, empty or oversized'')) (\<lambda>_.
     attempt (db0, d0) (db_ok (oo_create io)) (\<lambda>_.
     case open_metadata fx io stored_anchor db0 of (db, r) \<Rightarrow>
     attempt (db, d0) r (\<lambda>md.
     attempt (db, d0) (check_metadata stored_anchor md) (\<lambda>_.
     attempt (db, d0) (rbind (db_ok (oo_scan io)) (\<lambda>_. db_table db)) (\<lambda>table.
     attempt (db, d0) (check_catalog fx md table 0 0) (\<lambda>(identities, live).
     attempt (db, d0) (ensure (\<not> (identities \<noteq> md_identities md \<or> live \<noteq> md_live md))
                         (record_error ''record metadata/catalog mismatch'')) (\<lambda>_.
     and_then
       (if stored_anchor \<noteq> Some md
        then attempt (db, d0) (encode_anchor fx md) (\<lambda>bs.
             case atomic_write (oo_write io) d0 bs of (d, r) \<Rightarrow> ((db, d), r))
        else ((db, d0), Inr ()))
       (\<lambda>(db, d) _.
     attempt (db, d) (initialized (oo_sealed_meta io) d) (\<lambda>sealed.
     and_then
       (if \<not> sealed then (case seal (oo_seal io) d of (d2, r) \<Rightarrow> ((db, d2), r)) else ((db, d), Inr ()))
       (\<lambda>(db, d) _.
     ((db, d),
      Inr \<lparr>fs_inner = \<lparr>fi_db = db, fi_anchor = d, fi_metadata = md, fi_failed = False,
                        fi_observed_wall = 0, fi_cursor = None\<rparr>,
           fs_poisoned = False,
           fs_observed = (False, make_snapshot md True)\<rparr>))))))))))))))))))))"

text \<open>\<open>open\<close>: a failure after the lock was taken drops the owner.\<close>

definition file_open ::
  "file_ctx \<Rightarrow> open_io \<Rightarrow> open_db_io \<Rightarrow> database \<Rightarrow> disk \<Rightarrow>
     (database \<times> disk) \<times> (discovery_error, file_store) result" where
  "file_open fx oio io db d0 =
     attempt (db, d0) (open_named oio d0) (\<lambda>d.
     case file_open_owned fx io False db d of
       ((db1, d1), Inl e) \<Rightarrow> ((db1, atomic_drop d1), Inl e)
     | ((db1, d1), Inr store) \<Rightarrow> ((db1, d1), Inr store))"

end
