(* ===== verification/Rds_Record_Refine.thy ===== *)
theory Rds_Record_Refine
  imports Rds_Record_File
begin

text \<open>
  The durable record store implements the in-memory one: every request gives the same answer
  and leaves the same catalog, or the durable store stops and says so until it is reopened.
  The simulation allows every failure of the database engine and the file system.
\<close>

section \<open>The simulation relation\<close>

text \<open>What the refinement needs of the serializer: bytes it wrote never decode to another value.\<close>

definition faithful :: "'a codec \<Rightarrow> bool" where
  "faithful cd \<longleftrightarrow> (\<forall>v u r. dec cd (enc cd v) = Inr (u, r) \<longrightarrow> u = v)"

definition cell_matches :: "file_ctx \<Rightarrow> bytes \<times> bytes \<Rightarrow> bytes \<times> stored \<Rightarrow> bool" where
  "cell_matches fx cb cs \<longleftrightarrow>
     fst cb = fst cs \<and> (\<forall>s. cell_decode fx (snd cb) (fst cb) = Inr s \<longrightarrow> s = snd cs)"

definition implements :: "file_ctx \<Rightarrow> file_inner \<Rightarrow> memory \<Rightarrow> bool" where
  "implements fx i m \<longleftrightarrow>
     \<not> fi_failed i \<and> (\<exists>table. db_records (fi_db i) = Some table \<and>
        list_all2 (cell_matches fx) table (me_entries m)) \<and>
     fi_observed_wall i = me_observed_wall m \<and> fi_cursor i = me_cursor m \<and>
     md_wall_floor (fi_metadata i) \<le> me_observed_wall m \<and>
     md_identities (fi_metadata i) = length (me_entries m) \<and>
     md_live (fi_metadata i) = bt_count stored_live (me_entries m)"

lemma cell_decode_encoded:
  "faithful (fx_stored fx) \<Longrightarrow> cell_decode fx (enc (fx_stored fx) s) key = Inr v \<Longrightarrow> v = s"
  by (auto simp: cell_decode_def exact_def res_simps faithful_def)

lemma matches_keys: "list_all2 (cell_matches fx) table es \<Longrightarrow> map fst table = map fst es"
  by (induction rule: list_all2_induct) (auto simp: cell_matches_def)

lemma matches_put:
  assumes "list_all2 (cell_matches fx) table es" "\<And>v. cell_decode fx b key = Inr v \<Longrightarrow> v = s"
  shows "list_all2 (cell_matches fx) (bt_put key b table) (bt_put key s es)"
proof -
  have new: "cell_matches fx (key, b) (key, s)" using assms(2) by (auto simp: cell_matches_def)
  have "fst c = fst d" if "cell_matches fx c d" for c d using that by (simp add: cell_matches_def)
  with assms(1) show ?thesis
    by (induction rule: list_all2_induct) (auto simp: new)
qed

lemma matches_get:
  assumes "list_all2 (cell_matches fx) table es"
  shows "(map_of table key = None) = (map_of es key = None)"
    "map_of table key = Some b \<Longrightarrow> cell_decode fx b key = Inr v \<Longrightarrow> map_of es key = Some v"
proof -
  have "(map_of table key = None) = (map_of es key = None) \<and>
      (map_of table key = Some b \<longrightarrow> cell_decode fx b key = Inr v \<longrightarrow> map_of es key = Some v)"
    using assms by (induction rule: list_all2_induct) (auto simp: cell_matches_def split: if_splits)
  then show "(map_of table key = None) = (map_of es key = None)"
    "map_of table key = Some b \<Longrightarrow> cell_decode fx b key = Inr v \<Longrightarrow> map_of es key = Some v" by auto
qed

lemma matches_lookup:
  assumes "list_all2 (cell_matches fx) table es"
    and "transpose_map (\<lambda>b. cell_decode fx b key) (map_of table key) = Inr old"
  shows "old = map_of es key"
proof (cases "map_of table key")
  case None
  then show ?thesis using assms matches_get(1) [OF assms(1), of key] by (simp add: transpose_map_def)
next
  case (Some b)
  then show ?thesis
    using assms(2) matches_get(2) [OF assms(1) Some] by (auto simp: transpose_map_def res_simps)
qed

lemma matches_after:
  "list_all2 (cell_matches fx) table es \<Longrightarrow> list_all2 (cell_matches fx) (bt_after c table) (bt_after c es)"
proof (induction rule: list_all2_induct)
  case (Cons b s table es)
  then show ?case by (cases c) (auto simp: bt_after_def cell_matches_def)
qed (simp add: bt_after_def split: option.splits)

section \<open>One commit\<close>

text \<open>The catalog after a list of changes, and the counters that go with it.\<close>

definition put_all :: "(endpoint_key \<times> stored) list \<Rightarrow> (bytes, stored) btree \<Rightarrow> (bytes, stored) btree" where
  "put_all changes es = foldl (\<lambda>e (k, s). bt_put k s e) es changes"

lemma commit_changes_spec:
  assumes "faithful (fx_stored fx)" "list_all2 (cell_matches fx) table es" "bt_wf es"
    "md_identities next = length es" "md_live next = bt_count stored_live es"
    "commit_changes fx changes table next = Inr (table2, next2)"
  shows "list_all2 (cell_matches fx) table2 (put_all changes es) \<and> bt_wf (put_all changes es) \<and>
     next2 = next\<lparr>md_identities := length (put_all changes es),
                  md_live := bt_count stored_live (put_all changes es)\<rparr>"
  using assms(2-)
proof (induction changes arbitrary: table es "next")
  case (Cons c changes)
  obtain key s where c: "c = (key, s)" by force
  let ?b = "enc (fx_stored fx) s" and ?es = "bt_put key s es"
  obtain old identities live where
    old: "transpose_map (\<lambda>b. cell_decode fx b key) (map_of table key) = Inr old"
    and ids: "identities = (if old = None then md_identities next + 1 else md_identities next)"
    and live: "of_bool (case old of Some s \<Rightarrow> stored_live s | None \<Rightarrow> False) \<le> md_live next"
      "live = md_live next - of_bool (case old of Some s \<Rightarrow> stored_live s | None \<Rightarrow> False)
        + of_bool (stored_live s)"
    and rest: "commit_changes fx changes (bt_put key ?b table)
        (next\<lparr>md_identities := identities, md_live := live\<rparr>) = Inr (table2, next2)"
    using Cons.prems(5) unfolding c
    by (auto simp: res_simps Let_def split: if_splits option.splits)
  have old': "old = map_of es key" using matches_lookup [OF Cons.prems(1) old] .
  have m: "list_all2 (cell_matches fx) (bt_put key ?b table) ?es"
    using Cons.prems(1) cell_decode_encoded [OF assms(1)] by (intro matches_put) auto
  have "identities = length ?es"
    using ids old' Cons.prems(2,3) bt_put_length [OF Cons.prems(2), of key s] by auto
  moreover have "live = bt_count stored_live ?es"
    using live old' Cons.prems(4) bt_count_put [OF Cons.prems(2), of stored_live key s]
    by (cases "map_of es key") (auto simp: of_bool_def split: if_splits)
  ultimately show ?case
    using Cons.IH [OF m _ _ _ rest] Cons.prems(2) by (auto simp: put_all_def c)
qed (simp add: put_all_def)

lemma inner_commit_spec:
  assumes f: "faithful (fx_stored fx)" and r: "implements fx i m" and wf: "bt_wf (me_entries m)"
    and now: "me_observed_wall m = r_wall now"
    and run: "inner_commit fx io changes now i = (i2, res)"
  shows "(res = Inr () \<and> implements fx i2 (m\<lparr>me_entries := put_all changes (me_entries m)\<rparr>)) \<or>
     (fi_failed i2 \<and> (\<exists>e. res = Inl e))"
proof (cases res)
  case (Inl e)
  then show ?thesis
    using run
    by (auto simp: inner_commit_def Let_def attempt_def db_commit_def
        split: prod.splits commit_outcome.splits sum.splits)
next
  case (Inr u)
  obtain db "next" d bs where t: "commit_transaction fx io changes now (i\<lparr>fi_failed := True\<rparr>) = Inr (db, next)"
    and i2: "i2 = i\<lparr>fi_db := db, fi_anchor := d, fi_metadata := next, fi_failed := False\<rparr>"
    using run Inr
    by (auto simp: inner_commit_def Let_def attempt_def db_commit_def
        split: prod.splits commit_outcome.splits sum.splits)
  obtain table where tb: "db_records (fi_db i) = Some table" "list_all2 (cell_matches fx) table (me_entries m)"
    using r by (auto simp: implements_def)
  obtain table2 next0 where
    c: "commit_changes fx changes table next0 = Inr (table2, next)" and db: "db_records db = Some table2"
    and n0: "md_identities next0 = md_identities (fi_metadata i)" "md_live next0 = md_live (fi_metadata i)"
      "md_wall_floor next0 = max (md_wall_floor (fi_metadata i)) (r_wall now)"
    using t tb(1) by (auto simp: commit_transaction_def res_simps Let_def write_table_def)
  have s: "list_all2 (cell_matches fx) table2 (put_all changes (me_entries m))"
    "next = next0\<lparr>md_identities := length (put_all changes (me_entries m)),
                  md_live := bt_count stored_live (put_all changes (me_entries m))\<rparr>"
    using commit_changes_spec [OF f tb(2) wf _ _ c] r n0 by (auto simp: implements_def)
  show ?thesis
    using Inr r i2 db s n0(3) now by (auto simp: implements_def)
qed

section \<open>One access\<close>

lemma implements_wf: "memory_inv x capacity m \<Longrightarrow> bt_wf (me_entries m)"
  by (simp add: memory_inv_def catalog_ok_def)

lemma implements_observe:
  assumes "implements fx i m"
  shows "observe (md_wall_floor (fi_metadata i)) (fi_observed_wall i) now = observe 0 (me_observed_wall m) now"
  using assms by (auto simp: observe_def implements_def ensure_def)

lemma implements_observed:
  "implements fx i m \<Longrightarrow> me_observed_wall m \<le> w \<Longrightarrow>
   implements fx (i\<lparr>fi_observed_wall := w, fi_failed := False\<rparr>) (m\<lparr>me_observed_wall := w\<rparr>)"
  by (auto simp: implements_def)

text \<open>The durable store answers as the in-memory one, or it has failed and says so.\<close>

definition same_or_failed ::
  "file_ctx \<Rightarrow> (file_inner \<times> 'a) \<times> (discovery_error, 'b) result \<Rightarrow>
     (memory \<times> 'a) \<times> (discovery_error, 'b) result \<Rightarrow> bool" where
  "same_or_failed fx fo mo \<longleftrightarrow>
     (case (fo, mo) of (((i, a), r), ((m, b), v)) \<Rightarrow>
        (implements fx i m \<and> a = b \<and> r = v) \<or> (fi_failed i \<and> (\<exists>e. r = Inl e)))"

lemma file_access_refines:
  assumes f: "faithful (fx_stored fx)" and inv: "memory_inv (fx_store fx) max_identities m"
    and r: "implements fx i m"
  shows "same_or_failed fx (file_access_admitted fx io key e clock admit (i, a))
     (memory_access_admitted (fx_store fx) max_identities key e clock admit (m, a))"
proof (cases "\<exists>now. clock = Inr now \<and> me_observed_wall m \<le> r_wall now")
  case False
  then show ?thesis
    using r implements_observe [OF r]
    by (cases clock) (auto simp: same_or_failed_def file_access_admitted_def memory_access_admitted_def
        inner_healthy_def implements_def observe_def)
next
  case True
  then obtain now where now: "clock = Inr now" "me_observed_wall m \<le> r_wall now" by blast
  let ?i = "i\<lparr>fi_observed_wall := r_wall now, fi_failed := False\<rparr>" and ?m = "m\<lparr>me_observed_wall := r_wall now\<rparr>"
  have h: "inner_healthy i = Inr ()" using r by (simp add: inner_healthy_def implements_def)
  have o: "observe (md_wall_floor (fi_metadata i)) (fi_observed_wall i) now = Inr (r_wall now)"
    "observe 0 (me_observed_wall m) now = Inr (r_wall now)"
    using implements_observe [OF r, of now] now(2) by (simp_all add: observe_def)
  have r1: "implements fx ?i ?m" using r now(2) by (rule implements_observed)
  show ?thesis
  proof (cases "read_cell fx (ai_read io) (fi_db i) key")
    case (Inl err)
    then show ?thesis
      using now h o by (simp add: same_or_failed_def file_access_admitted_def Let_def split: prod.splits)
  next
    case (Inr old)
    obtain table where tb: "db_records (fi_db i) = Some table" "list_all2 (cell_matches fx) table (me_entries m)"
      using r by (auto simp: implements_def)
    then have old: "old = map_of (me_entries m) key"
      using Inr matches_lookup [OF tb(2)] by (auto simp: read_cell_def db_table_def res_simps)
    have ids: "md_identities (fi_metadata i) = length (me_entries m)" using r by (simp add: implements_def)
    show ?thesis
    proof (cases "decide (fx_store fx) old e key now")
      case (Inl err)
      then show ?thesis
        using now h o Inr old r1
        by (simp add: same_or_failed_def file_access_admitted_def memory_access_admitted_def Let_def)
    next
      case dec: (Inr d)
      show ?thesis
      proof (cases "dc_replacement d")
        case None
        then show ?thesis
          using now h o Inr old r1 dec
          by (simp add: same_or_failed_def file_access_admitted_def memory_access_admitted_def Let_def)
      next
        case (Some s)
        obtain i2 res where c: "inner_commit fx (ai_commit io) [(key, s)] now ?i = (i2, res)" by force
        have wf: "bt_wf (me_entries ?m)" using implements_wf [OF inv] by simp
        have cs: "(res = Inr () \<and> implements fx i2 (memory_put key s ?m)) \<or> (fi_failed i2 \<and> (\<exists>e. res = Inl e))"
          using inner_commit_spec [OF f r1 wf _ c] by (auto simp: implements_def memory_put_def put_all_def)
        define room where "room \<longleftrightarrow> old \<noteq> None \<or> length (me_entries m) < max_identities"
        define adm where "adm = (if is_active s then admit (old \<noteq> None) a else (a, Inr ()))"
        have fa: "file_access_admitted fx io key e clock admit (i, a) =
            (if \<not> room then ((?i, a), Inl (record_error ''record identity capacity exceeded''))
             else case adm of (a2, Inl err) \<Rightarrow> ((?i, a2), Inl err)
                  | (a2, Inr _) \<Rightarrow> (case res of Inl err \<Rightarrow> ((i2, a2), Inl err) | Inr _ \<Rightarrow> ((i2, a2), dc_result d)))"
          using now h o Inr dec Some c ids
          by (auto simp: file_access_admitted_def Let_def room_def adm_def ensure_def and_then_def not_less
              split: prod.splits sum.splits)
        have ma: "memory_access_admitted (fx_store fx) max_identities key e clock admit (m, a) =
            (if \<not> room then ((?m, a), Inl (record_error ''record identity capacity exceeded''))
             else case adm of (a2, Inl err) \<Rightarrow> ((?m, a2), Inl err)
                  | (a2, Inr _) \<Rightarrow> ((memory_put key s ?m, a2), dc_result d))"
          using now o old dec Some
          by (auto simp: memory_access_admitted_def Let_def room_def adm_def ensure_def and_then_def not_less
              split: prod.splits sum.splits)
        show ?thesis
          unfolding fa ma using cs r1
          by (auto simp: same_or_failed_def split: prod.splits sum.splits)
      qed
    qed
  qed
qed

section \<open>Collection\<close>

text \<open>What a scan that met no error found: the cells of the batch, those expired to be retired.\<close>

definition retirements :: "store_ctx \<Rightarrow> reading \<Rightarrow> (bytes, stored) btree \<Rightarrow> (endpoint_key \<times> stored) list" where
  "retirements x now es = map (\<lambda>(k, s). (k, settled x k now s)) (filter (\<lambda>(k, s). expired now s) es)"

lemma collect_scan_spec:
  assumes "list_all2 (cell_matches fx) items es" "collect_scan fx now items = Inr changes"
  shows "changes = retirements (fx_store fx) now es"
  using assms
proof (induction items es arbitrary: changes rule: list_all2_induct)
  case (Cons b items c es)
  obtain k v s where b: "b = (k, v)" "c = (k, s)"
    using Cons.hyps(1) by (cases b; cases c) (auto simp: cell_matches_def)
  obtain u r rest where u: "cell_decode fx v k = Inr u" "stored_retire (fx_store fx) u k now = Inr r"
    "collect_scan fx now items = Inr rest"
    "changes = (case r of Some cell \<Rightarrow> (k, cell) # rest | None \<Rightarrow> rest)"
    using Cons.prems unfolding b by (auto simp: res_simps)
  moreover have "u = s" using u(1) Cons.hyps(1) b by (simp add: cell_matches_def)
  ultimately have sc: "cell_decode fx v k = Inr s" "stored_retire (fx_store fx) s k now = Inr r"
    "collect_scan fx now items = Inr rest"
    "changes = (case r of Some cell \<Rightarrow> (k, cell) # rest | None \<Rightarrow> rest)" by simp_all
  have "cell_ok (fx_store fx) k s"
    using sc(1) by (auto simp: cell_decode_def res_simps cell_ok_def is_ok_iff)
  then show ?case
    using sc Cons.IH [OF sc(3)] stored_retire_eq [of "fx_store fx" k s now] b
    by (auto simp: retirements_def)
qed (simp add: retirements_def)

lemma put_all_wf: "bt_wf es \<Longrightarrow> bt_wf (put_all changes es)"
  by (induction changes arbitrary: es) (auto simp: put_all_def)

lemma put_all_map:
  "bt_wf es \<Longrightarrow> distinct (map fst changes) \<Longrightarrow>
   map_of (put_all changes es) k = (case map_of changes k of Some s \<Rightarrow> Some s | None \<Rightarrow> map_of es k)"
proof (induction changes arbitrary: es)
  case (Cons c changes)
  obtain j s where c: "c = (j, s)" by force
  have "map_of (put_all changes (bt_put j s es)) k =
      (case map_of changes k of Some s \<Rightarrow> Some s | None \<Rightarrow> map_of (bt_put j s es) k)"
    using Cons.prems by (intro Cons.IH) auto
  moreover have "map_of changes j = None"
    using Cons.prems(2) c by (simp add: map_of_eq_None_iff)
  ultimately show ?case
    using Cons.prems c by (auto simp: put_all_def split: option.splits)
qed (simp add: put_all_def)

lemma map_of_retirements:
  "distinct (map fst es) \<Longrightarrow>
   map_of (retirements x now es) k =
     (case map_of es k of Some s \<Rightarrow> if expired now s then Some (settled x k now s) else None | None \<Rightarrow> None)"
proof (induction es)
  case (Cons c es)
  obtain j s where c: "c = (j, s)" by force
  have "map_of (retirements x now (c # es)) k =
      (if k = j \<and> expired now s then Some (settled x j now s) else map_of (retirements x now es) k)"
    by (simp add: retirements_def c)
  moreover have "map_of es j = None" using Cons.prems c by (simp add: map_of_eq_None_iff)
  ultimately show ?case
    using Cons c by auto
qed (simp add: retirements_def)

lemma retirements_keys: "distinct (map fst es) \<Longrightarrow> distinct (map fst (retirements x now es))"
  by (induction es) (force simp: retirements_def)+

lemma batch_map:
  assumes "bt_wf es"
  shows "map_of (take n (bt_after c es)) k = (if k \<in> fst ` set (take n (bt_after c es)) then map_of es k else None)"
proof (cases "k \<in> fst ` set (take n (bt_after c es))")
  case True
  then obtain s where s: "(k, s) \<in> set (take n (bt_after c es))" by force
  have d: "distinct (map fst (take n (bt_after c es)))"
    using bt_after_wf [OF assms, of c] by (simp add: bt_wf_def strict_sorted_iff take_map [symmetric])
  have "(k, s) \<in> set es" using s bt_after_subset [of c es] by (auto dest: in_set_takeD)
  then show ?thesis
    using True s d assms by (simp add: bt_mem_map_of)
next
  case False
  then show ?thesis by (simp add: map_of_eq_None_iff)
qed

text \<open>The commit of a batch and the loop of the in-memory store reach the same catalog.\<close>

lemma put_all_retirements:
  assumes wf: "bt_wf es" and items: "items = take gc_batch (bt_after c es)"
  shows "map_of (put_all (retirements x now items) es) = settle_all x now (map fst items) (map_of es)"
    "length (retirements x now items) = expired_in now (map_of es) (map fst items)"
proof -
  have d: "distinct (map fst items)"
    using batch_keys_distinct [OF wf, of c] by (simp add: items batch_keys_def)
  have key: "map_of items k = (if k \<in> fst ` set items then map_of es k else None)" for k
    unfolding items by (rule batch_map [OF wf])
  show "map_of (put_all (retirements x now items) es) = settle_all x now (map fst items) (map_of es)"
  proof
    fix k
    show "map_of (put_all (retirements x now items) es) k = settle_all x now (map fst items) (map_of es) k"
      using put_all_map [OF wf retirements_keys [OF d], of x now k] map_of_retirements [OF d, of x now k] key [of k]
      by (auto simp: settle_all_def split: option.splits)
  qed
  have "filter (\<lambda>(k, s). expired now s) items =
      filter (\<lambda>p. case map_of es (fst p) of Some s \<Rightarrow> expired now s | None \<Rightarrow> False) items"
  proof (intro filter_cong refl)
    fix p assume p: "p \<in> set items"
    then have "map_of items (fst p) = Some (snd p)" using d by (metis map_of_is_SomeI prod.collapse)
    then show "(case p of (k, s) \<Rightarrow> expired now s) = (case map_of es (fst p) of Some s \<Rightarrow> expired now s | None \<Rightarrow> False)"
      using key [of "fst p"] p imageI [OF p, of fst] by (simp add: case_prod_beta)
  qed
  then show "length (retirements x now items) = expired_in now (map_of es) (map fst items)"
    by (simp add: retirements_def expired_in_def filter_map comp_def)
qed

lemma implements_cong:
  "implements fx i m \<Longrightarrow> me_entries m2 = me_entries m \<Longrightarrow> me_observed_wall m2 = me_observed_wall m \<Longrightarrow>
   implements fx (i\<lparr>fi_cursor := me_cursor m2\<rparr>) m2"
  by (auto simp: implements_def)

lemma file_collect_refines:
  assumes f: "faithful (fx_stored fx)" and inv: "memory_inv (fx_store fx) max_identities m"
    and r: "implements fx i m"
  shows "same_or_failed fx (file_collect_at fx io clock (i, a)) (memory_collect_at (fx_store fx) clock (m, a))"
proof (cases "\<exists>now. clock = Inr now \<and> me_observed_wall m \<le> r_wall now")
  case False
  then show ?thesis
    using r implements_observe [OF r]
    by (cases clock) (auto simp: same_or_failed_def file_collect_at_def memory_collect_at_def
        inner_healthy_def implements_def observe_def)
next
  case True
  then obtain now where now: "clock = Inr now" "me_observed_wall m \<le> r_wall now" by blast
  let ?x = "fx_store fx" and ?i = "i\<lparr>fi_observed_wall := r_wall now, fi_failed := False\<rparr>"
  let ?m = "m\<lparr>me_observed_wall := r_wall now\<rparr>"
  let ?es = "take gc_batch (bt_after (me_cursor m) (me_entries m))"
  have h: "inner_healthy i = Inr ()" using r by (simp add: inner_healthy_def implements_def)
  have o: "observe (md_wall_floor (fi_metadata i)) (fi_observed_wall i) now = Inr (r_wall now)"
    using implements_observe [OF r, of now] now(2) by (simp add: observe_def)
  have r1: "implements fx ?i ?m" using r now(2) by (rule implements_observed)
  obtain table where tb: "db_records (fi_db i) = Some table" "list_all2 (cell_matches fx) table (me_entries m)"
    using r by (auto simp: implements_def)
  let ?items = "take gc_batch (bt_after (me_cursor m) table)"
  have cur: "fi_cursor i = me_cursor m" using r by (simp add: implements_def)
  have items: "list_all2 (cell_matches fx) ?items ?es"
    using matches_after [OF tb(2), of "me_cursor m"] by (rule list_all2_takeI)
  obtain m2 where m2: "memory_collect_at ?x clock (m, a) =
       ((m2, a), Inr (expired_in now (map_of (me_entries m)) (map fst ?es)))"
    "memory_inv ?x max_identities m2" "map_of (me_entries m2) = settle_all ?x now (map fst ?es) (map_of (me_entries m))"
    "me_observed_wall m2 = r_wall now"
    "me_cursor m2 = (if length ?es = gc_batch then Some (last (map fst ?es)) else None)"
    using memory_collect_at_spec [OF inv now, of a] by (auto simp: batch_keys_def)
  show ?thesis
  proof (cases "rbind (db_ok (ai_read io)) (\<lambda>_. rbind (db_table (fi_db i)) (\<lambda>t. collect_scan fx now ?items))")
    case (Inl err)
    then have "file_collect_at fx io clock (i, a) =
        ((i\<lparr>fi_observed_wall := r_wall now, fi_failed := True\<rparr>, a), Inl err)"
      using now h o tb(1) cur
      by (cases "db_ok (ai_read io)") (simp_all add: file_collect_at_def Let_def db_table_def)
    then show ?thesis by (simp add: same_or_failed_def m2(1))
  next
    case (Inr changes)
    then have sc: "db_ok (ai_read io) = Inr ()" "collect_scan fx now ?items = Inr changes"
      by (auto simp: res_simps)
    have ch: "changes = retirements ?x now ?es" by (rule collect_scan_spec [OF items sc(2)])
    have wf: "bt_wf (me_entries m)" using implements_wf [OF inv] .
    note pa = put_all_retirements [OF wf refl, of ?x now "me_cursor m"]
    have es2: "me_entries m2 = put_all changes (me_entries m)"
      using bt_ext [OF _ put_all_wf [OF wf]] m2(2,3) pa(1) ch by (simp add: implements_wf)
    obtain i2 res where c: "(if changes \<noteq> [] then inner_commit fx (ai_commit io) changes now ?i else (?i, Inr ())) = (i2, res)"
      by force
    have cs: "(res = Inr () \<and> implements fx i2 (?m\<lparr>me_entries := put_all changes (me_entries m)\<rparr>)) \<or>
        (fi_failed i2 \<and> (\<exists>e. res = Inl e))"
      using inner_commit_spec [OF f r1, of now "ai_commit io" changes i2 res] wf c r1
      by (auto simp: put_all_def split: if_splits)
    have len: "length ?items = length ?es" using list_all2_lengthD [OF items] .
    have lst: "?items \<noteq> [] \<Longrightarrow> fst (last ?items) = last (map fst ?es)"
      using matches_keys [OF items] by (metis last_map list.map_disc_iff)
    have ne: "length ?items = gc_batch \<Longrightarrow> ?items \<noteq> []"
      by (metis gc_batch_def length_0_conv zero_neq_numeral)
    have fa: "file_collect_at fx io clock (i, a) =
        (case res of Inl err \<Rightarrow> ((i2, a), Inl err)
         | Inr _ \<Rightarrow> ((i2\<lparr>fi_cursor := me_cursor m2\<rparr>, a), Inr (length changes)))"
    proof -
      have "me_cursor m2 = (if length ?items = gc_batch then Some (fst (last ?items)) else None)"
        using m2(5) len lst ne by metis
      then show ?thesis
        using now h o tb(1) cur sc c
        by (auto simp: file_collect_at_def Let_def db_table_def and_then_def split: sum.splits prod.splits if_splits)
    qed
    show ?thesis
      unfolding fa m2(1)
      using cs implements_cong [of fx i2 "?m\<lparr>me_entries := put_all changes (me_entries m)\<rparr>" m2] es2 m2(4) pa(2) ch
      by (auto simp: same_or_failed_def)
  qed
qed

section \<open>Requests\<close>

fun file_step :: "file_ctx \<Rightarrow> file_store \<Rightarrow> access_io \<times> store_op \<Rightarrow> file_store \<times> op_result" where
  "file_step fx s (io, SPut r clock f) =
     (case file_put_admitted fx io r clock (pure_admit f) (s, ()) of ((t, _), v) \<Rightarrow> (t, RDone v))"
| "file_step fx s (io, SRemove d clock f) =
     (case file_remove_admitted fx io d clock (pure_admit f) (s, ()) of ((t, _), v) \<Rightarrow> (t, RDone v))"
| "file_step fx s (io, SGet key clock) =
     (case file_get fx io key clock (s, ()) of ((t, _), v) \<Rightarrow> (t, RRecord v))"
| "file_step fx s (io, SCollect clock) =
     (case file_collect_expired fx io clock (s, ()) of ((t, _), v) \<Rightarrow> (t, RCount v))"

fun op_refused :: "op_result \<Rightarrow> bool" where
  "op_refused (RDone r) = (\<not> is_ok r)"
| "op_refused (RRecord r) = (\<not> is_ok r)"
| "op_refused (RCount r) = (\<not> is_ok r)"

definition file_stopped :: "file_store \<Rightarrow> bool" where
  "file_stopped s \<longleftrightarrow> fi_failed (fs_inner s)"

definition file_implements :: "file_ctx \<Rightarrow> file_store \<Rightarrow> memory_store \<Rightarrow> bool" where
  "file_implements fx s ms \<longleftrightarrow>
     implements fx (fs_inner s) (ms_inner ms) \<and> \<not> fs_poisoned s \<and>
     memory_store_inv (fx_store fx) ms \<and> ms_capacity ms = max_identities"

text \<open>The two \<open>observed_access\<close> wrappers keep the relation between what they wrap.\<close>

lemma observed_access_refines:
  assumes r: "file_implements fx s ms"
    and w: "same_or_failed fx (fwork (fs_inner s, a)) (mwork (ms_inner ms, a))"
    and i: "\<And>m b v. mwork (ms_inner ms, a) = ((m, b), v) \<Longrightarrow> memory_inv (fx_store fx) max_identities m"
    and fo: "file_observed_access fwork (s, a) = ((s2, a2), r2)"
    and mo: "memory_observed_access mwork (ms, a) = ((ms2, b2), v2)"
  shows "(file_implements fx s2 ms2 \<and> a2 = b2 \<and> r2 = v2) \<or> (file_stopped s2 \<and> (\<exists>e. r2 = Inl e))"
proof -
  obtain fi fa fr where f: "fwork (fs_inner s, a) = ((fi, fa), fr)" by (metis surj_pair)
  obtain m b v where m: "mwork (ms_inner ms, a) = ((m, b), v)" by (metis surj_pair)
  have inv: "memory_store_inv (fx_store fx) ms" "ms_capacity ms = max_identities" "\<not> fs_poisoned s"
    using r by (auto simp: file_implements_def)
  note o = observed_access_inv [OF inv(1) mo m] i [OF m]
  have "fs_inner s2 = fi" "a2 = fa" "r2 = fr" "\<not> fs_poisoned s2"
    using fo f inv(3) by (auto simp: file_observed_access_def)
  then show ?thesis
    using w f m o inv by (auto simp: same_or_failed_def file_implements_def file_stopped_def)
qed

lemma file_stopped_access:
  assumes "fi_failed i"
  shows "file_access_admitted fx io key e clock admit (i, a) = ((i, a), Inl (record_error ''record commit outcome uncertain; reopen required''))"
    "file_collect_at fx io clock (i, a) = ((i, a), Inl (record_error ''record commit outcome uncertain; reopen required''))"
  using assms by (simp_all add: file_access_admitted_def file_collect_at_def inner_healthy_def)

lemma file_stopped_stays:
  assumes "file_stopped s" "file_step fx s iq = (t, r)"
  shows "file_stopped t \<and> op_refused r"
proof -
  obtain io q where "iq = (io, q)" by force
  then show ?thesis
    using assms
    by (cases q) (auto simp: file_put_admitted_def file_remove_admitted_def file_get_def file_collect_expired_def
        file_observed_access_def file_stopped_def file_stopped_access attempt_def and_then_def
        split: sum.splits if_splits)
qed

lemma access_step_refines:
  assumes f: "faithful (fx_stored fx)" and r: "file_implements fx s ms"
    and fo: "file_observed_access (file_access_admitted fx io key e clock admit) (s, a) = ((s2, a2), r2)"
    and mo: "memory_observed_access (memory_access_admitted (fx_store fx) (ms_capacity ms) key e clock admit) (ms, a)
       = ((ms2, b2), v2)"
  shows "(file_implements fx s2 ms2 \<and> a2 = b2 \<and> r2 = v2) \<or> (file_stopped s2 \<and> (\<exists>e. r2 = Inl e))"
proof -
  have c: "ms_capacity ms = max_identities" and m: "memory_inv (fx_store fx) max_identities (ms_inner ms)"
    and i: "implements fx (fs_inner s) (ms_inner ms)"
    using r by (auto simp: file_implements_def memory_store_inv_def)
  show ?thesis
    by (rule observed_access_refines [OF r file_access_refines [OF f m i] _ fo mo [unfolded c]])
       (rule memory_access_inv [OF m])
qed

lemma file_step_refines:
  assumes f: "faithful (fx_stored fx)" and r: "file_implements fx s ms"
    and fs: "file_step fx s (io, q) = (s2, r2)" and mst: "memory_step (fx_store fx) ms q = (ms2, v2)"
  shows "file_implements fx s2 ms2 \<and> r2 = v2 \<or> file_stopped s2 \<and> op_refused r2"
proof -
  have m: "memory_inv (fx_store fx) max_identities (ms_inner ms)" and i: "implements fx (fs_inner s) (ms_inner ms)"
    using r by (auto simp: file_implements_def memory_store_inv_def)
  show ?thesis
  proof (cases q)
    case (SPut rc clock ad)
    then show ?thesis
      using fs mst r access_step_refines [OF f r, of io _ "Some (ERecord rc)" clock "pure_admit ad" "()"]
      by (fastforce simp: file_put_admitted_def memory_put_admitted_def attempt_def and_then_def
          split: prod.splits sum.splits)
  next
    case (SRemove dl clock ad)
    then show ?thesis
      using fs mst r access_step_refines [OF f r, of io _ "Some (EDeleted dl)" clock "pure_admit ad" "()"]
      by (fastforce simp: file_remove_admitted_def memory_remove_admitted_def attempt_def and_then_def
          split: prod.splits sum.splits)
  next
    case (SGet key clock)
    then show ?thesis
      using fs mst r access_step_refines [OF f r, of io key None clock admit_all "()"]
      by (fastforce simp: file_get_def memory_get_def and_then_def split: prod.splits sum.splits)
  next
    case (SCollect clock)
    obtain t u where fo: "file_observed_access (file_collect_at fx io clock) (s, ()) = ((t, ()), u)"
      by (metis surj_pair unit.exhaust)
    obtain n v where mo: "memory_observed_access (memory_collect_at (fx_store fx) clock) (ms, ()) = ((n, ()), v)"
      by (metis surj_pair unit.exhaust)
    have "(file_implements fx t n \<and> () = () \<and> u = v) \<or> (file_stopped t \<and> (\<exists>e. u = Inl e))"
      by (rule observed_access_refines [OF r file_collect_refines [OF f m i] _ fo mo])
         (erule memory_collect_at_keeps [OF m, THEN conjunct1])
    then show ?thesis
      using fs mst SCollect fo mo by (auto simp: file_collect_expired_def memory_collect_expired_def)
  qed
qed

text \<open>The interpretation is over the contexts whose serializer is faithful.\<close>

definition file_relation :: "file_ctx \<Rightarrow> file_store \<Rightarrow> memory_store \<Rightarrow> bool" where
  "file_relation fx s ms \<longleftrightarrow> faithful (fx_stored fx) \<and> file_implements fx s ms"

interpretation file_memory:
  fail_stop_simulation "file_step fx" "memory_step (fx_store fx)" "file_relation fx" file_stopped op_refused
  for fx
  by unfold_locales
     (unfold file_relation_def, use file_step_refines in blast, use file_stopped_stays in blast)

text \<open>A store that was just created holds nothing, like the in-memory one.\<close>

definition fresh_file :: "file_ctx \<Rightarrow> disk \<Rightarrow> bytes \<Rightarrow> file_store" where
  "fresh_file fx d database =
     (let md = first_metadata database
      in \<lparr>fs_inner = \<lparr>fi_db = \<lparr>db_records = Some [], db_meta = Some (Some (enc (fx_meta fx) md))\<rparr>,
                      fi_anchor = d, fi_metadata = md, fi_failed = False, fi_observed_wall = 0, fi_cursor = None\<rparr>,
          fs_poisoned = False, fs_observed = (False, make_snapshot md True)\<rparr>)"

lemma fresh_file_implements: "file_implements fx (fresh_file fx d database) memory_default"
  using memory_default_inv [of "fx_store fx"]
  by (simp add: file_implements_def fresh_file_def implements_def memory_default_def memory_empty_def Let_def
      first_metadata_def)

lemma file_store_refines_lemma:
  assumes "faithful (fx_stored fx)"
    and "run_ops (file_step fx) (fresh_file fx d database) iqs = (s, rs)"
    and "run_ops (memory_step (fx_store fx)) memory_default (map snd iqs) = (ms, vs)"
  shows "\<exists>n\<le>length iqs. take n rs = take n vs \<and> list_all op_refused (drop n rs) \<and>
     (if n = length iqs then file_len s = memory_len ms else file_stopped s)"
proof -
  have "file_relation fx (fresh_file fx d database) memory_default"
    using assms(1) fresh_file_implements by (simp add: file_relation_def)
  from file_memory.run_simulated [OF this assms(2,3)]
  obtain n where n: "n \<le> length iqs" "take n rs = take n vs" "list_all op_refused (drop n rs)"
    "if n = length iqs then file_relation fx s ms else file_stopped s" by blast
  have "file_relation fx s ms \<Longrightarrow> file_len s = memory_len ms"
    by (auto simp: file_relation_def file_implements_def implements_def file_len_def memory_len_def
        memory_store_inv_def)
  then show ?thesis using n by (metis (full_types))
qed

text \<open>
  C3. The durable record store refines the in-memory one. From a newly created store, over any
  requests and any failures of the database engine and the file system, its answers are those of
  the in-memory store of the same capacity up to some request, and from there on every request is
  refused and the store is stopped; without a stop it also counts the same live records.
\<close>

theorem file_store_refines_memory:
  assumes "faithful (fx_stored fx)"
    and "run_ops (file_step fx) (fresh_file fx d database) iqs = (s, rs)"
    and "run_ops (memory_step (fx_store fx)) memory_default (map snd iqs) = (ms, vs)"
  shows "\<exists>n\<le>length iqs. take n rs = take n vs \<and> list_all op_refused (drop n rs) \<and>
     (if n = length iqs then file_len s = memory_len ms else file_stopped s)"
  using assms by (rule file_store_refines_lemma)

text \<open>A serializer that knows one cell and refuses the bytes of every other.\<close>

definition one_codec :: "'a \<Rightarrow> 'a codec" where
  "one_codec v = \<lparr>enc = (\<lambda>u. if u = v then [1] else [0]),
     dec = (\<lambda>bs. case bs of [] \<Rightarrow> Inl ''eof'' | b # r \<Rightarrow> if b = 1 then Inr (v, r) else Inl ''tag'')\<rparr>"

lemma one_codec_faithful: "faithful (one_codec v)"
  by (auto simp: faithful_def one_codec_def split: if_splits)

definition fctx0 :: file_ctx where
  "fctx0 = \<lparr>fx_store = sctx0, fx_stored = one_codec (Active (ERecord record_a) lease_rec),
     fx_meta = \<lparr>enc = (\<lambda>md. [of_nat (md_generation md)]), dec = (\<lambda>_. Inl ''unused'')\<rparr>,
     fx_to_json = (\<lambda>_. Inr []), fx_from_json = (\<lambda>_. Inl ''unused'')\<rparr>"

definition db_commit_ok :: db_commit_io where
  "db_commit_ok = \<lparr>xi_read = read_ok, xi_begin = None, xi_commit = Committed, xi_write = write_ok\<rparr>"

definition access_ok :: access_io where
  "access_ok = \<lparr>ai_read = None, ai_commit = db_commit_ok\<rparr>"

theorem file_store_refines_memory_witness:
  "\<exists>rs s. run_ops (file_step fctx0) (fresh_file fctx0 disk0 []) [(access_ok, SGet [9] clock0)] = (s, rs) \<and>
     (\<exists>n\<le>1. take n rs = take n (snd (run_ops (memory_step sctx0) memory_default [SGet [9] clock0])) \<and>
        list_all op_refused (drop n rs))"
proof -
  have f: "faithful (fx_stored fctx0)" by (simp add: fctx0_def one_codec_faithful)
  obtain s rs where c: "run_ops (file_step fctx0) (fresh_file fctx0 disk0 []) [(access_ok, SGet [9] clock0)] = (s, rs)"
    by force
  obtain ms vs where a: "run_ops (memory_step (fx_store fctx0)) memory_default (map snd [(access_ok, SGet [9] clock0)]) = (ms, vs)"
    by force
  have "snd (run_ops (memory_step sctx0) memory_default [SGet [9] clock0]) = vs"
    using a by (simp add: fctx0_def)
  then show ?thesis using file_store_refines_memory [OF f c a] c by auto
qed

end
