(* ===== verification/Rds_Record_Crash.thy ===== *)
theory Rds_Record_Crash
  imports Rds_Record_Refine
begin

text \<open>
  Crashes of the durable record store. A commit changes the database first and the anchor
  second; the lemmas say that whatever a crash leaves of the two opens again, with the catalog
  before or after the commit and never a mixture.
\<close>

section \<open>A consistent catalog\<close>

definition cell_sound :: "file_ctx \<Rightarrow> duration \<Rightarrow> bytes \<times> bytes \<Rightarrow> bool" where
  "cell_sound fx wall_floor c \<longleftrightarrow>
     length (fst c) = 32 \<and> (\<exists>s. cell_decode fx (snd c) (fst c) = Inr s \<and> stored_accepted_wall s \<le> wall_floor)"

definition cell_live :: "file_ctx \<Rightarrow> bytes \<times> bytes \<Rightarrow> bool" where
  "cell_live fx c \<longleftrightarrow> (\<exists>s. cell_decode fx (snd c) (fst c) = Inr s \<and> stored_live s)"

definition count_live :: "file_ctx \<Rightarrow> (bytes, bytes) btree \<Rightarrow> nat" where
  "count_live fx table = length (filter (cell_live fx) table)"

lemma check_catalog_iff:
  "check_catalog fx md items n l = Inr (n2, l2) \<longleftrightarrow>
     n + length items \<le> max n max_identities \<and> (\<forall>c\<in>set items. cell_sound fx (md_wall_floor md) c) \<and>
     n2 = n + length items \<and> l2 = l + count_live fx items"
proof (induction items arbitrary: n l)
  case (Cons c items)
  obtain k b where c: "c = (k, b)" by force
  show ?case
  proof (cases "cell_sound fx (md_wall_floor md) c")
    case True
    then obtain s where s: "cell_decode fx b k = Inr s" "stored_accepted_wall s \<le> md_wall_floor md" "length k = 32"
      by (auto simp: cell_sound_def c)
    have "cell_live fx c = stored_live s" using s by (simp add: cell_live_def c)
    then have "count_live fx (c # items) = of_bool (stored_live s) + count_live fx items"
      by (simp add: count_live_def)
    moreover have "check_catalog fx md (c # items) n l = Inr (n2, l2) \<longleftrightarrow>
        n + 1 \<le> max_identities \<and> check_catalog fx md items (n + 1) (l + of_bool (stored_live s)) = Inr (n2, l2)"
      using s c by (auto simp: res_simps)
    ultimately show ?thesis using Cons.IH True by auto
  next
    case False
    then show ?thesis by (auto simp: c res_simps cell_sound_def)
  qed
qed (auto simp: count_live_def)

definition consistent :: "file_ctx \<Rightarrow> database \<Rightarrow> db_metadata \<Rightarrow> bool" where
  "consistent fx db md \<longleftrightarrow>
     (\<exists>table row. db_records db = Some table \<and> db_meta db = Some (Some row) \<and> exact (fx_meta fx) row = Inr md \<and>
        bt_wf table \<and> (\<forall>c\<in>set table. cell_sound fx (md_wall_floor md) c) \<and>
        md_identities md = length table \<and> md_live md = count_live fx table) \<and>
     md_format md = 3 \<and> 0 < md_generation md \<and> md_generation md \<le> u64_max \<and>
     md_identities md \<le> max_identities"

lemma consistent_catalog:
  assumes "consistent fx db md"
  obtains table row where "db_records db = Some table" "db_meta db = Some (Some row)"
    "exact (fx_meta fx) row = Inr md" "check_catalog fx md table 0 0 = Inr (md_identities md, md_live md)"
  using assms by (auto simp: consistent_def check_catalog_iff)

section \<open>Opening after a crash\<close>

text \<open>The anchor that belongs to a catalog, or the one of the commit before.\<close>

definition anchors :: "db_metadata \<Rightarrow> db_metadata \<Rightarrow> bool" where
  "anchors prev md \<longleftrightarrow>
     prev = md \<or>
     md_format prev = md_format md \<and> md_database prev = md_database md \<and>
     md_wall_floor prev \<le> md_wall_floor md \<and> md_generation md = md_generation prev + 1"

lemma check_metadata_anchors:
  "md_format md = 3 \<Longrightarrow> 0 < md_generation md \<Longrightarrow> md_generation md \<le> u64_max \<Longrightarrow>
   md_identities md \<le> max_identities \<Longrightarrow> anchors prev md \<Longrightarrow> check_metadata (Some prev) md = Inr ()"
  by (auto simp: check_metadata_def anchors_def sat_add64_def res_simps)

text \<open>
  A restart on a working machine: nothing fails, the state is the image the crash left. The
  directory also lists the staging files that crashes in the middle of a write left behind; the
  name check tolerates them, up to its limit of 129 entries.
\<close>

definition staging_name :: "string \<Rightarrow> bool" where
  "staging_name name \<longleftrightarrow> prefix ''.policy-'' name \<and> suffix ''.tmp'' name"

definition orphans_ok :: "string list \<Rightarrow> bool" where
  "orphans_ok staged \<longleftrightarrow> list_all staging_name staged \<and> length staged \<le> 124"

definition restart_io :: "string list \<Rightarrow> open_db_io" where
  "restart_io staged = \<lparr>oo_names = map Inr ([''.'', ''..'', ''records.lock'', ''records.anchor'', ''records.redb''] @ staged),
     oo_read = read_ok, oo_init_meta = None, oo_open = None, oo_file_meta = Inr (True, 1), oo_try_lock = None,
     oo_len = Inr 4096, oo_create = None, oo_begin_read = None, oo_random = [], oo_first_commit = Committed,
     oo_scan = None, oo_write = write_ok, oo_sealed_meta = None,
     oo_seal = \<lparr>si_write = None, si_sync = None, si_dir_sync = None\<rparr>\<rparr>"

definition restart_disk :: "bytes \<Rightarrow> disk" where
  "restart_disk bs = \<lparr>dk_state = Some \<lparr>fi_bytes = bs, fi_synced = True\<rparr>, dk_durable = Some bs, dk_staging = None,
     dk_lock = marker, dk_locked = True, dk_mode = 448\<rparr>"

lemma restart_read: "length bs \<le> max_state \<Longrightarrow> atomic_read read_ok (restart_disk bs) = Inr (Some bs)"
  by (simp add: atomic_read_def read_ok_def restart_disk_def regular_def io_ok_def Let_def min_def)

lemma write_ok_succeeds:
  assumes "length bs \<le> max_state" "length old \<le> max_state"
  shows "\<exists>d. atomic_write write_ok (restart_disk old) bs = (d, Inr ()) \<and> dk_lock d = marker"
  using assms restart_read [OF assms(2)]
  by (simp add: atomic_write_def atomic_write_trace_def write_ok_def read_ok_def open_staging_Opened
      write_steps_def write_step_defs restart_disk_def Let_def)

lemma check_names_ok:
  assumes "list_all (known_name migrating) names" "index + length names \<le> 129"
  shows "check_names migrating index (map Inr names) = Inr ()"
  using assms by (induction names arbitrary: index) simp_all

lemma open_consistent:
  assumes con: "consistent fx db md" and old: "decode_anchor fx bs = Inr prev" "anchors prev md"
    and new: "encode_anchor fx md = Inr bs2" and len: "length bs \<le> max_state" "length bs2 \<le> max_state"
    and staged: "orphans_ok staged"
  shows "\<exists>d s. file_open_owned fx (restart_io staged) False db (restart_disk bs) = ((db, d), Inr s) \<and>
     fi_db (fs_inner s) = db \<and> fi_metadata (fs_inner s) = md \<and> \<not> file_stopped s"
proof -
  obtain table row where c: "db_records db = Some table" "db_meta db = Some (Some row)"
    "exact (fx_meta fx) row = Inr md" "check_catalog fx md table 0 0 = Inr (md_identities md, md_live md)"
    using consistent_catalog [OF con] .
  have md: "check_metadata (Some prev) md = Inr ()"
    using con old(2) by (intro check_metadata_anchors) (auto simp: consistent_def)
  have "list_all (known_name False) staged"
    using staged by (auto simp: orphans_ok_def staging_name_def known_name_def list_all_iff)
  then have names: "check_names False 0 (oo_names (restart_io staged)) = Inr ()"
    using staged by (auto simp: restart_io_def orphans_ok_def known_name_def simp del: map_append intro!: check_names_ok)
  have om: "open_metadata fx (restart_io staged) (Some prev) db = (db, Inr md)"
    using c by (simp add: open_metadata_def restart_io_def db_ok_def)
  have lock: "dk_lock (restart_disk bs) = marker" "marker \<noteq> []"
    by (simp_all add: restart_disk_def marker_def)
  obtain d where d: "(if Some prev \<noteq> Some md
        then attempt (db, restart_disk bs) (encode_anchor fx md) (\<lambda>bs'.
             case atomic_write (oo_write (restart_io staged)) (restart_disk bs) bs' of (d, r) \<Rightarrow> ((db, d), r))
        else ((db, restart_disk bs), Inr ())) = ((db, d), Inr ())" "dk_lock d = marker"
    using write_ok_succeeds [OF len(2,1)] new lock
    by (cases "prev = md") (auto simp: restart_io_def)
  have io: "oo_read (restart_io staged) = read_ok" "oo_open (restart_io staged) = None" "oo_try_lock (restart_io staged) = None"
    "regular (oo_file_meta (restart_io staged)) = Inr ()" "oo_len (restart_io staged) = Inr 4096" "oo_create (restart_io staged) = None"
    "oo_scan (restart_io staged) = None" "initialized (oo_sealed_meta (restart_io staged)) d = Inr True"
    using d(2) lock by (simp_all add: restart_io_def regular_def initialized_def io_ok_def)
  show ?thesis
    using restart_read [OF len(1)] old(1) d(1) c(1,4)
    by (simp add: file_open_owned_def names io om md transpose_map_def db_ok_def max_database_def db_table_def
        file_stopped_def)
qed

section \<open>A commit keeps the catalog consistent\<close>

lemma bt_put_set: "c \<in> set (bt_put k v m) \<Longrightarrow> c = (k, v) \<or> c \<in> set m"
  by (induction m) (auto split: if_splits)

text \<open>The change can be stored: a 32-byte key, and a cell that reads back as itself.\<close>

definition storable :: "file_ctx \<Rightarrow> reading \<Rightarrow> endpoint_key \<times> stored \<Rightarrow> bool" where
  "storable fx now c \<longleftrightarrow>
     length (fst c) = 32 \<and> cell_decode fx (enc (fx_stored fx) (snd c)) (fst c) = Inr (snd c) \<and>
     stored_accepted_wall (snd c) \<le> r_wall now"

lemma commit_changes_sound:
  assumes "commit_changes fx changes table md = Inr (table2, md2)" "\<forall>c\<in>set changes. storable fx now c"
    "\<forall>c\<in>set table. cell_sound fx w c" "r_wall now \<le> w"
  shows "(\<forall>c\<in>set table2. cell_sound fx w c) \<and> (md_identities md \<le> max_identities \<longrightarrow> md_identities md2 \<le> max_identities)"
  using assms
proof (induction changes arbitrary: table md)
  case (Cons c changes)
  obtain k s where c: "c = (k, s)" by force
  obtain md1 where
    rest: "commit_changes fx changes (bt_put k (enc (fx_stored fx) s) table) md1 = Inr (table2, md2)"
    and ids: "md_identities md \<le> max_identities \<longrightarrow> md_identities md1 \<le> max_identities"
    using Cons.prems(1) unfolding c by (auto simp: res_simps Let_def split: if_splits option.splits)
  have "cell_sound fx w (k, enc (fx_stored fx) s)"
    using Cons.prems(2,4) c by (auto simp: cell_sound_def storable_def)
  then have "\<forall>c\<in>set (bt_put k (enc (fx_stored fx) s) table). cell_sound fx w c"
    using Cons.prems(3) by (auto dest: bt_put_set)
  then show ?case using Cons.IH [OF rest] Cons.prems(2,4) ids by simp
qed simp

definition decoded :: "file_ctx \<Rightarrow> (bytes, bytes) btree \<Rightarrow> (bytes, stored) btree" where
  "decoded fx table = map (\<lambda>(k, b). (k, case cell_decode fx b k of Inr s \<Rightarrow> s | Inl _ \<Rightarrow> Retired 0 [] False)) table"

lemma decoded_matches:
  "\<forall>c\<in>set table. cell_sound fx w c \<Longrightarrow> list_all2 (cell_matches fx) table (decoded fx table)"
  by (induction table) (auto simp: decoded_def cell_matches_def)

lemma decoded_wf: "bt_wf table \<Longrightarrow> bt_wf (decoded fx table)"
  by (simp add: bt_wf_def decoded_def comp_def case_prod_beta)

lemma matches_live:
  "list_all2 (cell_matches fx) table es \<Longrightarrow> \<forall>c\<in>set table. cell_sound fx w c \<Longrightarrow>
   count_live fx table = bt_count stored_live es \<and> length es = length table"
proof (induction rule: list_all2_induct)
  case (Cons c table d es)
  then obtain s where "cell_decode fx (snd c) (fst c) = Inr s" by (auto simp: cell_sound_def)
  then have "cell_live fx c = stored_live (snd d)"
    using Cons.hyps(1) by (auto simp: cell_live_def cell_matches_def)
  then show ?case using Cons by (simp add: count_live_def)
qed (simp add: count_live_def)

lemma commit_consistent:
  assumes f: "faithful (fx_stored fx)" and con: "consistent fx (fi_db i) (fi_metadata i)"
    and tx: "commit_transaction fx io changes now i = Inr (db2, md2)"
    and ch: "\<forall>c\<in>set changes. storable fx now c" and rt: "exact (fx_meta fx) (enc (fx_meta fx) md2) = Inr md2"
  shows "consistent fx db2 md2" "anchors (fi_metadata i) md2"
proof -
  let ?md = "fi_metadata i"
  obtain table where t: "db_records (fi_db i) = Some table" "bt_wf table"
    "\<forall>c\<in>set table. cell_sound fx (md_wall_floor ?md) c" "md_identities ?md = length table"
    "md_live ?md = count_live fx table"
    using con by (auto simp: consistent_def)
  define md1 where "md1 = ?md\<lparr>md_generation := md_generation ?md + 1,
      md_wall_floor := max (md_wall_floor ?md) (r_wall now)\<rparr>"
  obtain table2 where c: "commit_changes fx changes table md1 = Inr (table2, md2)"
    and db2: "db2 = \<lparr>db_records = Some table2, db_meta = Some (Some (enc (fx_meta fx) md2))\<rparr>"
    and gen: "md_generation ?md + 1 \<le> u64_max"
    using tx t(1) by (auto simp: commit_transaction_def res_simps Let_def write_table_def md1_def)
  have w: "\<forall>c\<in>set table. cell_sound fx (md_wall_floor md1) c"
    using t(3) by (fastforce simp: cell_sound_def md1_def)
  note d = matches_live [OF decoded_matches [OF t(3)] t(3)]
  have "md_identities md1 = length (decoded fx table)" "md_live md1 = bt_count stored_live (decoded fx table)"
    using t(4,5) d by (simp_all add: md1_def)
  note s = commit_changes_spec [OF f decoded_matches [OF t(3)] decoded_wf [OF t(2)] this c]
  have snd2: "\<forall>c\<in>set table2. cell_sound fx (md_wall_floor md1) c" "md_identities md2 \<le> max_identities"
    using commit_changes_sound [OF c ch w] con by (auto simp: md1_def consistent_def)
  have wf2: "bt_wf table2"
    using s matches_keys [of fx table2] by (metis bt_wf_def)
  have md2: "md_format md2 = md_format ?md" "md_generation md2 = md_generation ?md + 1"
    "md_wall_floor md2 = md_wall_floor md1" "md_database md2 = md_database ?md"
    using s by (simp_all add: md1_def)
  have "md_identities md2 = length table2" "md_live md2 = count_live fx table2"
    using s matches_live [OF _ snd2(1)] by auto
  then show "consistent fx db2 md2"
    using db2 rt wf2 snd2 md2 con gen by (auto simp: consistent_def)
  show "anchors ?md md2"
    using md2 by (simp add: anchors_def md1_def)
qed

section \<open>Crash recovery\<close>

text \<open>
  What a crash during a commit can leave: the old database with the anchor as it was, or, once the
  engine may have committed, the new database with any image the anchor write passes through.
\<close>

definition commit_crashes ::
  "file_ctx \<Rightarrow> db_commit_io \<Rightarrow> (endpoint_key \<times> stored) list \<Rightarrow> reading \<Rightarrow> file_inner \<Rightarrow> (database \<times> bytes option) set" where
  "commit_crashes fx io changes now i =
     {fi_db i} \<times> crash_images (fi_anchor i) \<union>
     (case commit_transaction fx io changes now i of
        Inl _ \<Rightarrow> {}
      | Inr (db2, md2) \<Rightarrow>
          {db2} \<times> (crash_images (fi_anchor i) \<union>
            (case encode_anchor fx md2 of
               Inl _ \<Rightarrow> {}
             | Inr bs \<Rightarrow> (\<Union>d\<in>set (fst (atomic_write_trace (xi_write io) (fi_anchor i) bs)). crash_images d))))"

definition anchor_ok :: "file_ctx \<Rightarrow> db_metadata \<Rightarrow> bytes \<Rightarrow> bool" where
  "anchor_ok fx md bs \<longleftrightarrow> encode_anchor fx md = Inr bs \<and> decode_anchor fx bs = Inr md \<and> length bs \<le> max_state"

lemma record_crash_lemma:
  assumes f: "faithful (fx_stored fx)" and con: "consistent fx (fi_db i) (fi_metadata i)"
    and old: "crash_images (fi_anchor i) = {Some bs}" "anchor_ok fx (fi_metadata i) bs"
    and ch: "\<forall>c\<in>set changes. storable fx now c"
    and rt: "\<forall>db2 md2. commit_transaction fx io changes now i = Inr (db2, md2) \<longrightarrow>
       exact (fx_meta fx) (enc (fx_meta fx) md2) = Inr md2 \<and> (\<exists>bs2. anchor_ok fx md2 bs2)"
    and crash: "(dbx, im) \<in> commit_crashes fx io changes now i" and staged: "orphans_ok staged"
  shows "\<exists>b d s. im = Some b \<and> file_open_owned fx (restart_io staged) False dbx (restart_disk b) = ((dbx, d), Inr s) \<and>
     fi_db (fs_inner s) = dbx \<and> \<not> file_stopped s \<and>
     (dbx = fi_db i \<and> fi_metadata (fs_inner s) = fi_metadata i \<or>
      commit_transaction fx io changes now i = Inr (dbx, fi_metadata (fs_inner s)))"
proof (cases "dbx = fi_db i \<and> im = Some bs")
  case True
  have "anchors (fi_metadata i) (fi_metadata i)" by (simp add: anchors_def)
  then show ?thesis
    using open_consistent [OF con _ _ _ _ _ staged] old(2) True unfolding anchor_ok_def by (metis (no_types))
next
  case False
  then obtain md2 where tx: "commit_transaction fx io changes now i = Inr (dbx, md2)"
    and im: "im = Some bs \<or> (\<exists>bs2 d. encode_anchor fx md2 = Inr bs2 \<and>
        d \<in> set (fst (atomic_write_trace (xi_write io) (fi_anchor i) bs2)) \<and> im \<in> crash_images d)"
    using crash old(1) by (auto simp: commit_crashes_def split: sum.splits prod.splits)
  obtain bs2 where rt2: "exact (fx_meta fx) (enc (fx_meta fx) md2) = Inr md2" "anchor_ok fx md2 bs2"
    using rt tx by blast
  note new = commit_consistent [OF f con tx ch rt2(1)]
  have safe: "im = Some bs2" if "d \<in> set (fst (atomic_write_trace (xi_write io) (fi_anchor i) bs2))"
    "im \<in> crash_images d" "im \<noteq> Some bs" for d
  proof -
    obtain tr r where tr: "atomic_write_trace (xi_write io) (fi_anchor i) bs2 = (tr, r)" by force
    then have "old_or_new (fi_anchor i) bs2 d"
      using atomic_write_trace_safe [OF tr] that(1) by simp
    then have "crash_images d \<subseteq> {Some bs, Some bs2}" using old(1) by (auto simp: old_or_new_def)
    then show ?thesis using that(2,3) by auto
  qed
  then have "im = Some bs \<or> im = Some bs2"
    using im rt2(2) by (auto simp: anchor_ok_def)
  then obtain b prev where b: "im = Some b" "decode_anchor fx b = Inr prev" "anchors prev md2" "length b \<le> max_state"
    using old(2) rt2(2) new(2) by (auto simp: anchor_ok_def anchors_def)
  obtain d s where "file_open_owned fx (restart_io staged) False dbx (restart_disk b) = ((dbx, d), Inr s)"
    "fi_db (fs_inner s) = dbx" "fi_metadata (fs_inner s) = md2" "\<not> file_stopped s"
    using open_consistent [OF new(1) b(2,3) _ b(4) _ staged] rt2(2) by (auto simp: anchor_ok_def)
  then show ?thesis using b(1) tx by auto
qed

text \<open>Where \<open>commit\<close> itself ends, whatever it met, is one of these states.\<close>

lemma inner_commit_crashes:
  assumes "inner_commit fx io changes now i = (i2, r)"
  shows "{fi_db i2} \<times> crash_images (fi_anchor i2) \<subseteq> commit_crashes fx io changes now i"
proof -
  have same: "commit_transaction fx io changes now (i\<lparr>fi_failed := True\<rparr>) = commit_transaction fx io changes now i"
    by (simp add: commit_transaction_def)
  show ?thesis
  proof (cases "commit_transaction fx io changes now i")
    case (Inl e)
    then show ?thesis using assms same by (auto simp: inner_commit_def Let_def commit_crashes_def)
  next
    case (Inr p)
    obtain db2 md2 where p: "p = (db2, md2)" by force
    show ?thesis
    proof (cases "xi_commit io = Committed \<and> is_ok (encode_anchor fx md2)")
      case True
      then obtain bs where bs: "encode_anchor fx md2 = Inr bs" by (auto simp: is_ok_iff)
      obtain tr r2 where tr: "atomic_write_trace (xi_write io) (fi_anchor i) bs = (tr, r2)" by force
      have ne: "tr \<noteq> []"
        using tr by (auto simp: atomic_write_trace_def Let_def split: if_splits sum.splits prod.splits)
      have "fi_db i2 = db2 \<and> fi_anchor i2 = last tr"
        using assms same Inr p True bs tr
        by (auto simp: inner_commit_def Let_def db_commit_def atomic_write_def attempt_def split: sum.splits)
      then show ?thesis using Inr p bs tr ne by (auto simp: commit_crashes_def)
    next
      case False
      then have "(fi_db i2 = fi_db i \<or> fi_db i2 = db2) \<and> fi_anchor i2 = fi_anchor i"
        using assms same Inr p
        by (auto simp: inner_commit_def Let_def db_commit_def attempt_def is_ok_iff
            split: sum.splits commit_outcome.splits)
      then show ?thesis using Inr p by (auto simp: commit_crashes_def)
    qed
  qed
qed

text \<open>
  C4. Crash safety of the record database. Whatever fails and wherever a crash strikes while a
  change is committed to a consistent store, what is left of the database and of its anchor
  (where \<open>commit\<close> ends, and every state in between) opens again without intervention, next to up to
  124 staging files that crashes left behind: with exactly the catalog before the change, or with
  exactly the catalog after it, and the counters that belong to it.
\<close>

theorem record_crash_recovery:
  assumes "faithful (fx_stored fx)" and "consistent fx (fi_db i) (fi_metadata i)"
    and "crash_images (fi_anchor i) = {Some bs}" and "anchor_ok fx (fi_metadata i) bs"
    and "\<forall>c\<in>set changes. storable fx now c"
    and "\<forall>db2 md2. commit_transaction fx io changes now i = Inr (db2, md2) \<longrightarrow>
       exact (fx_meta fx) (enc (fx_meta fx) md2) = Inr md2 \<and> (\<exists>bs2. anchor_ok fx md2 bs2)"
    and "inner_commit fx io changes now i = (i2, r)"
    and "(dbx, im) \<in> {fi_db i2} \<times> crash_images (fi_anchor i2) \<union> commit_crashes fx io changes now i"
    and "orphans_ok staged"
  shows "\<exists>b d s. im = Some b \<and> file_open_owned fx (restart_io staged) False dbx (restart_disk b) = ((dbx, d), Inr s) \<and>
     fi_db (fs_inner s) = dbx \<and> \<not> file_stopped s \<and>
     (dbx = fi_db i \<and> fi_metadata (fs_inner s) = fi_metadata i \<or>
      commit_transaction fx io changes now i = Inr (dbx, fi_metadata (fs_inner s)))"
proof -
  have "(dbx, im) \<in> commit_crashes fx io changes now i"
    using inner_commit_crashes [OF assms(7)] assms(8) by blast
  then show ?thesis using assms(9) by (rule record_crash_lemma [OF assms(1-6)])
qed

text \<open>A store with no record yet that commits its first one.\<close>

definition md_a :: db_metadata where "md_a = first_metadata [5]"

definition md_b :: db_metadata where
  "md_b = md_a\<lparr>md_generation := 2, md_live := 1, md_identities := 1, md_wall_floor := from_secs 1000\<rparr>"

definition md_of :: "bytes \<Rightarrow> (string, db_metadata) result" where
  "md_of bs = (if bs = [1] then Inr md_a else if bs = [2] then Inr md_b else Inl ''tag'')"

definition fctx1 :: file_ctx where
  "fctx1 = \<lparr>fx_store = sctx0, fx_stored = one_codec (Active (ERecord record_a) lease_rec),
     fx_meta = \<lparr>enc = (\<lambda>md. [of_nat (md_generation md)]), dec = (\<lambda>bs. rbind (md_of bs) (\<lambda>md. Inr (md, [])))\<rparr>,
     fx_to_json = (\<lambda>a. Inr [of_nat (md_generation (an_metadata a))]),
     fx_from_json = (\<lambda>bs. rbind (md_of bs) (\<lambda>md. Inr \<lparr>an_metadata = md, an_digest = blake3 crypto0 [1]\<rparr>))\<rparr>"

definition inner_a :: file_inner where
  "inner_a = \<lparr>fi_db = \<lparr>db_records = Some [], db_meta = Some (Some [1])\<rparr>, fi_anchor = restart_disk [1],
     fi_metadata = md_a, fi_failed = False, fi_observed_wall = 0, fi_cursor = None\<rparr>"

definition reading_a :: reading where
  "reading_a = \<lparr>r_boot = [], r_wall = from_secs 1000, r_continuous = 0\<rparr>"

definition change_a :: "endpoint_key \<times> stored" where
  "change_a = (replicate 32 7, Active (ERecord record_a) lease_rec)"

definition db_b :: database where
  "db_b = \<lparr>db_records = Some [(replicate 32 7, [1])], db_meta = Some (Some [2])\<rparr>"

lemma md_simps [simp]:
  "md_generation md_a = 1" "md_generation md_b = 2" "md_of [1] = Inr md_a" "md_of [2] = Inr md_b"
  by (simp_all add: md_a_def md_b_def first_metadata_def md_of_def)

lemma fctx1_anchor: "anchor_ok fctx1 md_a [1]" "anchor_ok fctx1 md_b [2]"
  by (simp_all add: anchor_ok_def encode_anchor_def decode_anchor_def fctx1_def metadata_digest_def max_state_def)
     (simp_all add: crypto0_def)

lemma change_a_stored: "cell_decode fctx1 [1] (replicate 32 7) = Inr (snd change_a)"
proof -
  have "stored_verify sctx0 (Active (ERecord record_a) lease_rec) (replicate 32 7) = Inr 5"
    using record_a_details lease_new_matches [OF lease_rec_new] by (rule active_verify)
  then show ?thesis
    by (simp add: cell_decode_def exact_def fctx1_def one_codec_def change_a_def max_cell_def)
qed

lemma change_a_storable: "storable fctx1 reading_a change_a"
  using change_a_stored
  by (simp add: storable_def change_a_def fctx1_def one_codec_def reading_a_def lease_rec_def)

lemma inner_a_commit: "commit_transaction fctx1 db_commit_ok [change_a] reading_a inner_a = Inr (db_b, md_b)"
proof -
  have r: "atomic_read (xi_read db_commit_ok) (restart_disk [1]) = Inr (Some [1])"
    using restart_read [of "[1]"] by (simp add: db_commit_ok_def max_state_def)
  have c: "enc (fx_stored fctx1) (snd change_a) = [1]" by (simp add: fctx1_def one_codec_def change_a_def)
  have d: "decode_anchor fctx1 [1] = Inr md_a" using fctx1_anchor by (simp add: anchor_ok_def)
  have m: "md_a\<lparr>md_generation := 2, md_wall_floor := max (md_wall_floor md_a) (r_wall reading_a),
      md_identities := 1, md_live := 1\<rparr> = md_b"
    by (simp add: md_b_def md_a_def first_metadata_def reading_a_def)
  have e: "enc (fx_meta fctx1) md_b = [2]" by (simp add: fctx1_def)
  show ?thesis
    using r c d m e
    by (simp add: commit_transaction_def inner_a_def change_a_def db_commit_ok_def db_ok_def write_table_def
        transpose_map_def max_cell_def checked_add64_def checked_sub64_def u64_max_def max_identities_def
        db_b_def md_a_def first_metadata_def del: One_nat_def)
qed

lemma inner_a_consistent: "consistent fctx1 (fi_db inner_a) (fi_metadata inner_a)"
  by (simp add: consistent_def inner_a_def exact_def fctx1_def count_live_def max_identities_def u64_max_def)
     (simp add: md_a_def first_metadata_def)

theorem record_crash_recovery_witness:
  "\<exists>b d s. Some [1] = Some b \<and> file_open_owned fctx1 (restart_io [''.policy-0.tmp'']) False db_b (restart_disk b) = ((db_b, d), Inr s) \<and>
     fi_db (fs_inner s) = db_b \<and> \<not> file_stopped s"
proof -
  have f: "faithful (fx_stored fctx1)" by (simp add: fctx1_def one_codec_faithful)
  have im: "crash_images (fi_anchor inner_a) = {Some [1]}"
    by (simp add: inner_a_def restart_disk_def crash_images_def)
  have a: "anchor_ok fctx1 (fi_metadata inner_a) [1]" using fctx1_anchor by (simp add: inner_a_def)
  have rt: "\<forall>db2 md2. commit_transaction fctx1 db_commit_ok [change_a] reading_a inner_a = Inr (db2, md2) \<longrightarrow>
      exact (fx_meta fctx1) (enc (fx_meta fctx1) md2) = Inr md2 \<and> (\<exists>bs2. anchor_ok fctx1 md2 bs2)"
    using inner_a_commit fctx1_anchor by (auto simp: exact_def fctx1_def)
  have c: "(db_b, Some [1]) \<in> commit_crashes fctx1 db_commit_ok [change_a] reading_a inner_a"
    using inner_a_commit im by (simp add: commit_crashes_def)
  obtain i2 r where run: "inner_commit fctx1 db_commit_ok [change_a] reading_a inner_a = (i2, r)" by force
  have staged: "orphans_ok [''.policy-0.tmp'']" by code_simp
  show ?thesis
    using record_crash_recovery [OF f inner_a_consistent im a _ rt run UnI2 [OF c] staged] change_a_storable by auto
qed

text \<open>
  The database file stays within its bound: a write or a resize of the backend that returns,
  with success or failure, never leaves a file longer than 256 MiB, and reads and writes beyond
  that offset are refused, the overflow of offset plus length included.
\<close>

theorem bounded_file_stays_bounded:
  assumes "length file \<le> max_database"
  shows "length (fst (bounded_write fault file offset data)) \<le> max_database \<and>
     length (fst (bounded_set_len fault2 file len)) \<le> max_database \<and>
     (max_database < offset + length data \<longrightarrow>
        bounded_write fault file offset data = (file, Inl ''record database capacity exceeded''))"
proof -
  have b: "bounds offset (length data) = Inr () \<longleftrightarrow> offset + length data \<le> max_database"
    by (auto simp: bounds_def checked_add64_def max_database_def u64_max_def)
  have p: "length (pwrite file offset d) \<le> max_database" if "offset + length d \<le> max_database" for d
    using that assms by (auto simp: pwrite_def)
  show ?thesis
  proof (cases "offset + length data \<le> max_database")
    case True
    moreover have "length (pwrite file offset (take n data)) \<le> max_database" for n
      using True by (intro p) auto
    ultimately show ?thesis
      using assms b p [of data]
      by (auto simp: bounded_write_def bounded_set_len_def split: option.splits)
  next
    case False
    then have "bounds offset (length data) = Inl ''record database capacity exceeded''"
      by (auto simp: bounds_def checked_add64_def)
    then show ?thesis
      using assms by (auto simp: bounded_write_def bounded_set_len_def split: option.splits)
  qed
qed

theorem bounded_file_stays_bounded_witness:
  "length (fst (bounded_write None [1, 2] 5 [9])) \<le> max_database \<and>
   bounded_write None [1, 2] max_database [9] = ([1, 2], Inl ''record database capacity exceeded'')"
proof -
  have l: "length [1, 2 :: byte] \<le> max_database" by (simp add: max_database_def)
  show ?thesis
    using bounded_file_stays_bounded [OF l, of None 5 "[9]" None 0]
      bounded_file_stays_bounded [OF l, of None max_database "[9]" None 0] by auto
qed

end
