(* ===== verification/Rds_Snapshots.thy ===== *)
theory Rds_Snapshots
  imports Rds_Authority "HOL-Library.FSet" "HOL-Library.Char_ord"
begin

text \<open>
  The signed policy streams: revocation snapshots (\<open>rds-discovery/src/revocations.rs\<close>)
  and the name registry with its per-name proofs (\<open>rds-discovery/src/registry.rs\<close>). The
  lemmas characterise when each is accepted and that what an authority signs verifies.
\<close>

section \<open>Revocation snapshots\<close>

definition revocations_domain :: bytes where
  "revocations_domain = str_bytes ''rds/revocations/v1'' @ [0]"

definition max_revocation_ttl_secs :: u64 where "max_revocation_ttl_secs = 300"
definition max_revoked_grants :: usize where "max_revoked_grants = 1024"
definition max_revocations_payload :: usize where "max_revocations_payload = 40 * 1024"

record signed_revocations =
  sv_payload :: bytes
  sv_signature :: bytes

record revocation_payload =
  rv_stamp :: snapshot_stamp
  rv_revoked :: "bytes fset"
  rv_issued_at :: u64
  rv_expires_at :: u64

definition revocations_sign ::
  "crypto \<Rightarrow> revocation_payload codec \<Rightarrow> revocation_payload \<Rightarrow> bytes \<Rightarrow>
     (discovery_error, signed_revocations) result" where
  "revocations_sign cr cd payload sk =
     rbind (stamp_verify (rv_stamp payload) (sk_public cr sk)) (\<lambda>_.
     rbind (ensure (\<not> fcard (rv_revoked payload) > max_revoked_grants)
             (invalid ''too many revoked grants'')) (\<lambda>_.
     let bs = enc cd payload
     in rbind (ensure (\<not> length bs > max_revocations_payload)
                (invalid ''revocations payload too large'')) (\<lambda>_.
        Inr \<lparr>sv_payload = bs, sv_signature = auth_sign cr revocations_domain bs sk\<rparr>)))"

definition revocations_publish ::
  "crypto \<Rightarrow> revocation_payload codec \<Rightarrow> bytes \<Rightarrow> u64 \<Rightarrow> u64 \<Rightarrow> bytes fset \<Rightarrow> duration \<Rightarrow>
     (discovery_error, u64) result \<Rightarrow> (discovery_error, signed_revocations) result" where
  "revocations_publish cr cd sk epoch revision revoked ttl now_unix =
     rbind now_unix (\<lambda>issued_at.
     rbind (stamp_new (sk_public cr sk) epoch revision) (\<lambda>stamp.
     rbind (ok_or (invalid ''TTL overflow'') (checked_add64 issued_at (as_secs ttl))) (\<lambda>expires_at.
     rbind (lifetime issued_at expires_at issued_at max_revocation_ttl_secs) (\<lambda>_.
     revocations_sign cr cd
       \<lparr>rv_stamp = stamp, rv_revoked = revoked, rv_issued_at = issued_at, rv_expires_at = expires_at\<rparr> sk))))"

definition revocations_verify ::
  "crypto \<Rightarrow> revocation_payload codec \<Rightarrow> signed_revocations \<Rightarrow> bytes \<Rightarrow>
     (discovery_error, revocation_payload) result" where
  "revocations_verify cr cd s key =
     rbind (auth_verify cr revocations_domain (sv_payload s) (sv_signature s) key max_revocations_payload) (\<lambda>_.
     rbind (map_err invalid (from_bytes cd (sv_payload s))) (\<lambda>payload.
     rbind (stamp_verify (rv_stamp payload) key) (\<lambda>_.
     rbind (ensure (\<not> fcard (rv_revoked payload) > max_revoked_grants)
             (invalid ''too many revoked grants'')) (\<lambda>_.
     rbind (lifetime (rv_issued_at payload) (rv_expires_at payload) (rv_issued_at payload)
              max_revocation_ttl_secs) (\<lambda>_.
     Inr payload)))))"

definition revocations_verify_at ::
  "crypto \<Rightarrow> revocation_payload codec \<Rightarrow> signed_revocations \<Rightarrow> bytes \<Rightarrow> u64 \<Rightarrow>
     (discovery_error, revocation_payload) result" where
  "revocations_verify_at cr cd s key now =
     rbind (revocations_verify cr cd s key) (\<lambda>payload.
     rbind (lifetime (rv_issued_at payload) (rv_expires_at payload) now max_revocation_ttl_secs) (\<lambda>_.
     Inr payload))"

definition revocations_verify_fresh ::
  "crypto \<Rightarrow> revocation_payload codec \<Rightarrow> signed_revocations \<Rightarrow> bytes \<Rightarrow> revocation_payload option \<Rightarrow>
     (discovery_error, u64) result \<Rightarrow> (discovery_error, revocation_payload) result" where
  "revocations_verify_fresh cr cd s key current now_unix =
     rbind now_unix (\<lambda>now.
     rbind (revocations_verify_at cr cd s key now) (\<lambda>payload.
     rbind (case current of None \<Rightarrow> Inr ()
            | Some cur \<Rightarrow> newer_than (rv_stamp payload) (rv_stamp cur)) (\<lambda>_.
     Inr payload)))"

section \<open>Name bindings\<close>

definition max_body :: usize where "max_body = 256 * 1024"
definition name_domain :: bytes where "name_domain = str_bytes ''rds/name-binding/v2'' @ [0]"
definition registry_domain :: bytes where "registry_domain = str_bytes ''rds/registry/v2'' @ [0]"
definition max_binding_bytes :: usize where "max_binding_bytes = 256"
definition max_registry_names :: usize where "max_registry_names = 256"
definition max_name_ttl_secs :: u64 where "max_name_ttl_secs = 24 * 60 * 60"

record signed_name_binding =
  nb_payload :: bytes
  nb_signature :: bytes

record name_binding_payload =
  nb_stamp :: snapshot_stamp
  nb_registry_digest :: bytes
  nb_version :: u16
  nb_name :: string
  nb_key :: endpoint_key
  nb_issued_at :: u64
  nb_expires_at :: u64

definition name_byte_ok :: "char \<Rightarrow> bool" where
  "name_byte_ok c \<longleftrightarrow>
     CHR ''a'' \<le> c \<and> c \<le> CHR ''z'' \<or> CHR ''0'' \<le> c \<and> c \<le> CHR ''9'' \<or> c = CHR ''-''"

definition valid_name :: "string \<Rightarrow> bool" where
  "valid_name name \<longleftrightarrow> name \<noteq> [] \<and> length name \<le> 63 \<and> list_all name_byte_ok name"

definition check_lifetime :: "u64 \<Rightarrow> u64 \<Rightarrow> u64 \<Rightarrow> (discovery_error, unit) result" where
  "check_lifetime issued expires now = lifetime issued expires now max_name_ttl_secs"

definition signature_bytes :: "bytes \<Rightarrow> (discovery_error, bytes) result" where
  "signature_bytes bs =
     rbind (ensure (length bs = 64) (invalid ''signature is not 64 bytes'')) (\<lambda>_. Inr bs)"

definition binding_sign ::
  "crypto \<Rightarrow> name_binding_payload codec \<Rightarrow> name_binding_payload \<Rightarrow> bytes \<Rightarrow>
     (discovery_error, signed_name_binding) result" where
  "binding_sign cr cd payload sk =
     rbind (stamp_verify (nb_stamp payload) (sk_public cr sk)) (\<lambda>_.
     rbind (ensure (\<not> (nb_version payload \<noteq> 2 \<or> \<not> valid_name (nb_name payload)))
             (invalid ''invalid name binding version or name'')) (\<lambda>_.
     let bs = enc cd payload
     in rbind (ensure (\<not> length bs > max_binding_bytes) (invalid ''name binding too large'')) (\<lambda>_.
        Inr \<lparr>nb_payload = bs, nb_signature = sk_sign cr sk (name_domain @ bs)\<rparr>)))"

definition binding_verify ::
  "crypto \<Rightarrow> name_binding_payload codec \<Rightarrow> signed_name_binding \<Rightarrow> bytes \<Rightarrow> string \<Rightarrow> u64 \<Rightarrow>
     (discovery_error, name_binding_payload) result" where
  "binding_verify cr cd b key name now =
     rbind (ensure (\<not> (\<not> valid_name name \<or> length (nb_payload b) > max_binding_bytes))
             (invalid ''invalid name or binding size'')) (\<lambda>_.
     rbind (signature_bytes (nb_signature b)) (\<lambda>signature.
     rbind (ensure (verify_strict cr key (name_domain @ nb_payload b) signature) BadSignature) (\<lambda>_.
     rbind (map_err invalid (from_bytes cd (nb_payload b))) (\<lambda>payload.
     rbind (stamp_verify (nb_stamp payload) key) (\<lambda>_.
     rbind (ensure (\<not> (nb_version payload \<noteq> 2 \<or> nb_name payload \<noteq> name))
             (invalid ''name binding mismatch'')) (\<lambda>_.
     rbind (check_lifetime (nb_issued_at payload) (nb_expires_at payload) now) (\<lambda>_.
     Inr payload)))))))"

definition binding_verify_committed ::
  "crypto \<Rightarrow> name_binding_payload codec \<Rightarrow> signed_name_binding \<Rightarrow> bytes \<Rightarrow>
     (discovery_error, name_binding_payload) result" where
  "binding_verify_committed cr cd b key =
     rbind (auth_verify cr name_domain (nb_payload b) (nb_signature b) key max_binding_bytes) (\<lambda>_.
     rbind (map_err invalid (from_bytes cd (nb_payload b))) (\<lambda>payload.
     binding_verify cr cd b key (nb_name payload) (nb_issued_at payload)))"

section \<open>Registry snapshots\<close>

record signed_registry =
  sr_payload :: bytes
  sr_signature :: bytes
  sr_bindings :: "(string, signed_name_binding) btree"

record registry_payload =
  rg_stamp :: snapshot_stamp
  rg_entries :: "(string, endpoint_key) btree"
  rg_issued_at :: u64
  rg_expires_at :: u64

definition binding_for :: "registry_payload \<Rightarrow> bytes \<Rightarrow> string \<Rightarrow> endpoint_key \<Rightarrow> name_binding_payload" where
  "binding_for payload digest name endpoint =
     \<lparr>nb_stamp = rg_stamp payload, nb_registry_digest = digest, nb_version = 2, nb_name = name,
      nb_key = endpoint, nb_issued_at = rg_issued_at payload, nb_expires_at = rg_expires_at payload\<rparr>"

text \<open>\<open>iter().map(..).collect::<Result<_, _>>()\<close>: the first error wins.\<close>

fun sign_bindings ::
  "crypto \<Rightarrow> name_binding_payload codec \<Rightarrow> registry_payload \<Rightarrow> bytes \<Rightarrow> bytes \<Rightarrow>
     (string, endpoint_key) btree \<Rightarrow> (discovery_error, (string, signed_name_binding) btree) result" where
  "sign_bindings cr cd payload digest sk [] = Inr []"
| "sign_bindings cr cd payload digest sk (e # es) =
     rbind (binding_sign cr cd (binding_for payload digest (fst e) (snd e)) sk) (\<lambda>b.
     rbind (sign_bindings cr cd payload digest sk es) (\<lambda>bs. Inr ((fst e, b) # bs)))"

text \<open>\<open>serde_json::to_vec\<close> is a parameter \<open>json\<close>: the text or an error.\<close>

definition registry_sign ::
  "crypto \<Rightarrow> registry_payload codec \<Rightarrow> name_binding_payload codec \<Rightarrow>
     (signed_registry \<Rightarrow> (string, bytes) result) \<Rightarrow> registry_payload \<Rightarrow> bytes \<Rightarrow>
     (discovery_error, signed_registry) result" where
  "registry_sign cr rc bc json payload sk =
     rbind (stamp_verify (rg_stamp payload) (sk_public cr sk)) (\<lambda>_.
     rbind (ensure (\<not> length (rg_entries payload) > max_registry_names)
             (invalid ''too many registry names'')) (\<lambda>_.
     let bs = enc rc payload; digest = blake3 cr bs
     in rbind (sign_bindings cr bc payload digest sk (rg_entries payload)) (\<lambda>bindings.
        let signed = \<lparr>sr_payload = bs, sr_signature = auth_sign cr registry_domain bs sk,
                      sr_bindings = bindings\<rparr>
        in rbind (map_err invalid (json signed)) (\<lambda>text.
           rbind (ensure (\<not> length text > max_body) (invalid ''registry exceeds wire body limit'')) (\<lambda>_.
           Inr signed)))))"

definition registry_publish ::
  "crypto \<Rightarrow> registry_payload codec \<Rightarrow> name_binding_payload codec \<Rightarrow>
     (signed_registry \<Rightarrow> (string, bytes) result) \<Rightarrow> bytes \<Rightarrow> u64 \<Rightarrow> u64 \<Rightarrow>
     (string, endpoint_key) btree \<Rightarrow> duration \<Rightarrow> (discovery_error, u64) result \<Rightarrow>
     (discovery_error, signed_registry) result" where
  "registry_publish cr rc bc json sk epoch revision entries ttl now_unix =
     rbind now_unix (\<lambda>issued_at.
     rbind (stamp_new (sk_public cr sk) epoch revision) (\<lambda>stamp.
     rbind (ok_or (invalid ''TTL overflow'') (checked_add64 issued_at (as_secs ttl))) (\<lambda>expires_at.
     registry_sign cr rc bc json
       \<lparr>rg_stamp = stamp, rg_entries = entries, rg_issued_at = issued_at, rg_expires_at = expires_at\<rparr> sk)))"

definition registry_check_entry ::
  "crypto \<Rightarrow> name_binding_payload codec \<Rightarrow> signed_registry \<Rightarrow> bytes \<Rightarrow> registry_payload \<Rightarrow>
     string \<times> endpoint_key \<Rightarrow> (discovery_error, unit) result" where
  "registry_check_entry cr bc s key payload e =
     rbind (ok_or (invalid ''missing name proof'') (map_of (sr_bindings s) (fst e))) (\<lambda>proof.
     rbind (binding_verify cr bc proof key (fst e) (rg_issued_at payload)) (\<lambda>b.
     ensure (\<not> (nb_key b \<noteq> snd e \<or> nb_stamp b \<noteq> rg_stamp payload
                \<or> nb_registry_digest b \<noteq> blake3 cr (sr_payload s)
                \<or> nb_issued_at b \<noteq> rg_issued_at payload
                \<or> nb_expires_at b \<noteq> rg_expires_at payload))
       (invalid ''registry and name proof disagree'')))"

definition registry_verify ::
  "crypto \<Rightarrow> registry_payload codec \<Rightarrow> name_binding_payload codec \<Rightarrow> signed_registry \<Rightarrow> bytes \<Rightarrow>
     (discovery_error, registry_payload) result" where
  "registry_verify cr rc bc s key =
     rbind (ensure (\<not> (length (sr_payload s) > max_body \<or> length (sr_bindings s) > max_registry_names))
             (invalid ''registry too large'')) (\<lambda>_.
     rbind (auth_verify cr registry_domain (sr_payload s) (sr_signature s) key max_body) (\<lambda>_.
     rbind (map_err invalid (from_bytes rc (sr_payload s))) (\<lambda>payload.
     rbind (stamp_verify (rg_stamp payload) key) (\<lambda>_.
     rbind (check_lifetime (rg_issued_at payload) (rg_expires_at payload) (rg_issued_at payload)) (\<lambda>_.
     rbind (ensure (length (rg_entries payload) = length (sr_bindings s))
             (invalid ''missing name proofs: re-sign registry'')) (\<lambda>_.
     rbind (each_ok (registry_check_entry cr bc s key payload) (rg_entries payload)) (\<lambda>_.
     Inr payload)))))))"

definition registry_verify_fresh ::
  "crypto \<Rightarrow> registry_payload codec \<Rightarrow> name_binding_payload codec \<Rightarrow> signed_registry \<Rightarrow> bytes \<Rightarrow>
     registry_payload option \<Rightarrow> (discovery_error, u64) result \<Rightarrow>
     (discovery_error, registry_payload) result" where
  "registry_verify_fresh cr rc bc s key current now_unix =
     rbind (registry_verify cr rc bc s key) (\<lambda>payload.
     rbind now_unix (\<lambda>now.
     rbind (check_lifetime (rg_issued_at payload) (rg_expires_at payload) now) (\<lambda>_.
     rbind (case current of None \<Rightarrow> Inr ()
            | Some cur \<Rightarrow> newer_than (rg_stamp payload) (rg_stamp cur)) (\<lambda>_.
     Inr payload))))"

section \<open>Acceptance of revocation snapshots\<close>

lemma stamp_new_Inr_iff [res_simps]:
  "stamp_new key epoch revision = Inr st \<longleftrightarrow>
     0 < epoch \<and> 0 < revision \<and>
     st = \<lparr>st_authority = \<lparr>a_key = key, a_epoch = epoch\<rparr>, st_revision = revision\<rparr>"
  by (auto simp: stamp_new_def authority_new_def res_simps Let_def)

lemma revocations_verify_Inr_iff:
  "revocations_verify cr cd s key = Inr p \<longleftrightarrow>
     auth_verify cr revocations_domain (sv_payload s) (sv_signature s) key max_revocations_payload = Inr () \<and>
     from_bytes cd (sv_payload s) = Inr p \<and> stamp_verify (rv_stamp p) key = Inr () \<and>
     fcard (rv_revoked p) \<le> max_revoked_grants \<and>
     rv_issued_at p < rv_expires_at p \<and>
     rv_expires_at p - rv_issued_at p \<le> max_revocation_ttl_secs"
  by (auto simp: revocations_verify_def res_simps)

lemma revocations_verify_at_Inr_iff:
  "revocations_verify_at cr cd s key now = Inr p \<longleftrightarrow>
     revocations_verify cr cd s key = Inr p \<and> rv_issued_at p \<le> now \<and> now < rv_expires_at p"
  by (auto simp: revocations_verify_at_def revocations_verify_Inr_iff res_simps)

lemma codec_at_from_bytes: "codec_at c x \<Longrightarrow> from_bytes c (enc c x) = Inr x"
  by (simp add: codec_at_def from_bytes_def)

text \<open>
  A published revocation snapshot is usable for exactly its lifetime: what
  \<open>publish\<close> returns verifies under the publisher's key at a time \<open>t\<close> if and only if
  \<open>t\<close> lies between issue and expiry, and it then yields the revoked set and the stamp
  that were published.
\<close>

theorem published_revocations_verify:
  assumes sig: "signatures_ok cr"
    and pub: "revocations_publish cr cd sk epoch revision revoked ttl (Inr now) = Inr s"
    and p: "p = \<lparr>rv_stamp = \<lparr>st_authority = \<lparr>a_key = sk_public cr sk, a_epoch = epoch\<rparr>,
                            st_revision = revision\<rparr>,
                 rv_revoked = revoked, rv_issued_at = now, rv_expires_at = now + as_secs ttl\<rparr>"
    and cod: "codec_at cd p"
  shows "revocations_verify_at cr cd s (sk_public cr sk) t = Inr p \<longleftrightarrow>
           now \<le> t \<and> t < now + as_secs ttl"
proof -
  have s: "s = \<lparr>sv_payload = enc cd p, sv_signature = auth_sign cr revocations_domain (enc cd p) sk\<rparr>"
    and bounds: "length (enc cd p) \<le> max_revocations_payload" "fcard revoked \<le> max_revoked_grants"
      "0 < epoch" "0 < revision" "0 < as_secs ttl" "as_secs ttl \<le> max_revocation_ttl_secs"
    using pub unfolding p
    by (auto simp: revocations_publish_def revocations_sign_def res_simps Let_def)
  have "revocations_verify cr cd s (sk_public cr sk) = Inr p"
    unfolding revocations_verify_Inr_iff
    using bounds auth_sign_verifies [OF sig bounds(1)] codec_at_from_bytes [OF cod]
    by (simp add: s p res_simps)
  then show ?thesis
    by (simp add: revocations_verify_at_Inr_iff p)
qed

definition revocations0 :: revocation_payload where
  "revocations0 =
     \<lparr>rv_stamp = \<lparr>st_authority = \<lparr>a_key = replicate 32 7, a_epoch = 1\<rparr>, st_revision = 4\<rparr>,
      rv_revoked = {|replicate 32 5|}, rv_issued_at = 1000, rv_expires_at = 1060\<rparr>"

theorem published_revocations_verify_witness:
  "revocations_verify_at crypto0 (tag_codec 1 revocations0)
     \<lparr>sv_payload = [1], sv_signature = replicate 64 7\<rparr> (replicate 32 7) 1059 = Inr revocations0"
proof -
  have pub: "revocations_publish crypto0 (tag_codec 1 revocations0) (replicate 32 7) 1 4
      {|replicate 32 5|} (from_secs 60) (Inr 1000)
    = Inr \<lparr>sv_payload = [1], sv_signature = replicate 64 7\<rparr>"
    by (simp add: revocations_publish_def revocations_sign_def res_simps stamp_new_def authority_new_def
        stamp_verify_def lifetime_def checked_add64_def u64_max_def max_revocation_ttl_secs_def
        max_revoked_grants_def max_revocations_payload_def auth_sign_def crypto0_def Let_def fcard.rep_eq)
  have pk: "sk_public crypto0 (replicate 32 7) = replicate 32 7"
    by (simp add: crypto0_def)
  from published_revocations_verify [OF crypto0_ok pub _, of revocations0 1059] show ?thesis
    by (simp add: revocations0_def pk)
qed

section \<open>Acceptance of registries\<close>

lemma binding_verify_Inr_iff:
  "binding_verify cr cd b key name now = Inr p \<longleftrightarrow>
     valid_name name \<and> length (nb_payload b) \<le> max_binding_bytes \<and> length (nb_signature b) = 64 \<and>
     verify_strict cr key (name_domain @ nb_payload b) (nb_signature b) \<and>
     from_bytes cd (nb_payload b) = Inr p \<and> stamp_verify (nb_stamp p) key = Inr () \<and>
     nb_version p = 2 \<and> nb_name p = name \<and>
     check_lifetime (nb_issued_at p) (nb_expires_at p) now = Inr ()"
  by (auto simp: binding_verify_def signature_bytes_def res_simps)

text \<open>A binding accepted inside its lifetime is accepted again when it is reloaded.\<close>

lemma binding_committed_after_verify:
  "binding_verify cr cd b key name now = Inr p \<Longrightarrow> binding_verify_committed cr cd b key = Inr p"
  by (auto simp: binding_verify_committed_def binding_verify_Inr_iff check_lifetime_def res_simps)

lemma binding_committed_Inr_iff:
  "binding_verify_committed cr cd b key = Inr p \<longleftrightarrow>
     binding_verify cr cd b key (nb_name p) (nb_issued_at p) = Inr p"
  by (auto simp: binding_verify_committed_def binding_verify_Inr_iff check_lifetime_def res_simps)

lemma registry_verify_Inr_iff:
  "registry_verify cr rc bc s key = Inr p \<longleftrightarrow>
     length (sr_bindings s) \<le> max_registry_names \<and>
     auth_verify cr registry_domain (sr_payload s) (sr_signature s) key max_body = Inr () \<and>
     from_bytes rc (sr_payload s) = Inr p \<and> stamp_verify (rg_stamp p) key = Inr () \<and>
     check_lifetime (rg_issued_at p) (rg_expires_at p) (rg_issued_at p) = Inr () \<and>
     length (rg_entries p) = length (sr_bindings s) \<and>
     (\<forall>e\<in>set (rg_entries p). registry_check_entry cr bc s key p e = Inr ())"
  by (auto simp: registry_verify_def res_simps)

lemma registry_check_entry_Inr_iff:
  "registry_check_entry cr bc s key p e = Inr () \<longleftrightarrow>
     (\<exists>proof. map_of (sr_bindings s) (fst e) = Some proof \<and>
        binding_verify cr bc proof key (fst e) (rg_issued_at p)
          = Inr (binding_for p (blake3 cr (sr_payload s)) (fst e) (snd e)))"
proof -
  let ?agrees = "\<lambda>b. nb_key b = snd e \<and> nb_stamp b = rg_stamp p \<and>
      nb_registry_digest b = blake3 cr (sr_payload s) \<and> nb_issued_at b = rg_issued_at p \<and>
      nb_expires_at b = rg_expires_at p"
  have eq: "?agrees b \<longleftrightarrow> b = binding_for p (blake3 cr (sr_payload s)) (fst e) (snd e)"
    if "binding_verify cr bc proof key (fst e) (rg_issued_at p) = Inr b" for b "proof"
    using that by (cases b) (auto simp: binding_for_def binding_verify_Inr_iff)
  have "registry_check_entry cr bc s key p e = Inr () \<longleftrightarrow>
      (\<exists>proof b. map_of (sr_bindings s) (fst e) = Some proof \<and>
        binding_verify cr bc proof key (fst e) (rg_issued_at p) = Inr b \<and> ?agrees b)"
    by (auto simp: registry_check_entry_def res_simps)
  then show ?thesis using eq by blast
qed

text \<open>
  C40. An accepted registry discloses no unproved name: for every entry of its payload
  there is a proof, signed by the registry key for that very name, which verifies to the
  entry's endpoint key, the snapshot's stamp and lifetime and the digest of this signed
  payload.
\<close>

theorem registry_entries_proved:
  assumes "registry_verify cr rc bc s key = Inr p" and "(name, endpoint) \<in> set (rg_entries p)"
  shows "valid_name name \<and>
         (\<exists>proof. map_of (sr_bindings s) name = Some proof \<and>
            binding_verify cr bc proof key name (rg_issued_at p)
              = Inr (binding_for p (blake3 cr (sr_payload s)) name endpoint))"
  using assms by (fastforce simp: registry_verify_Inr_iff registry_check_entry_Inr_iff binding_verify_Inr_iff)

lemma binding_sign_verifies:
  assumes "signatures_ok cr" and "binding_sign cr cd p sk = Inr b" and "codec_at cd p"
    and "check_lifetime (nb_issued_at p) (nb_expires_at p) now = Inr ()"
  shows "binding_verify cr cd b (sk_public cr sk) (nb_name p) now = Inr p"
  using assms codec_at_from_bytes [of cd p]
  by (auto simp: binding_verify_Inr_iff binding_sign_def signatures_ok_def res_simps Let_def)

lemma sign_bindings_Inr:
  assumes "sign_bindings cr cd p d sk es = Inr bs"
  shows "map fst bs = map fst es"
    and "distinct (map fst es) \<Longrightarrow> (n, k) \<in> set es \<Longrightarrow>
           \<exists>b. map_of bs n = Some b \<and> binding_sign cr cd (binding_for p d n k) sk = Inr b"
  using assms
proof (induction es arbitrary: bs)
  case (Cons e es)
  { case 1 then show ?case using Cons.IH(1) by (auto simp: res_simps) }
  { case 2
    then obtain b bs' where b: "binding_sign cr cd (binding_for p d (fst e) (snd e)) sk = Inr b"
      and bs': "sign_bindings cr cd p d sk es = Inr bs'" and bs: "bs = (fst e, b) # bs'"
      by (auto simp: res_simps)
    have "fst e \<notin> fst ` set es" using 2(1) by simp
    then have "n \<noteq> fst e" if "(n, k) \<in> set es" using that by (metis fst_conv imageI)
    then show ?case
      using 2(1,2) b bs Cons.IH(2) [OF _ _ bs'] by auto }
qed auto

text \<open>
  A signed registry verifies: whatever \<open>sign\<close> returns for a payload with distinct
  names and a legal lifetime is accepted by \<open>verify\<close> under the signer's key and gives
  the payload back. The hypothesis on \<open>json\<close> is that the JSON text is no shorter than
  the payload bytes it contains.
\<close>

theorem signed_registry_verifies:
  assumes sig: "signatures_ok cr" and sign: "registry_sign cr rc bc json p sk = Inr s"
    and wf: "bt_wf (rg_entries p)"
    and life: "check_lifetime (rg_issued_at p) (rg_expires_at p) (rg_issued_at p) = Inr ()"
    and rc: "codec_at rc p"
    and bc: "\<And>n k. (n, k) \<in> set (rg_entries p) \<Longrightarrow>
               codec_at bc (binding_for p (blake3 cr (enc rc p)) n k)"
    and json: "\<And>body. json s = Inr body \<Longrightarrow> length (sr_payload s) \<le> length body"
  shows "registry_verify cr rc bc s (sk_public cr sk) = Inr p"
proof -
  let ?d = "blake3 cr (enc rc p)" and ?pk = "sk_public cr sk"
  obtain bindings body where bs: "sign_bindings cr bc p ?d sk (rg_entries p) = Inr bindings"
    and s: "s = \<lparr>sr_payload = enc rc p, sr_signature = auth_sign cr registry_domain (enc rc p) sk,
                sr_bindings = bindings\<rparr>"
    and body: "json s = Inr body" "length body \<le> max_body"
    and names: "length (rg_entries p) \<le> max_registry_names" and stamp: "stamp_verify (rg_stamp p) ?pk = Inr ()"
    using sign by (auto simp: registry_sign_def Let_def res_simps)
  have len: "length bindings = length (rg_entries p)"
    using sign_bindings_Inr(1) [OF bs] by (metis length_map)
  have size: "length (enc rc p) \<le> max_body"
    using json [OF body(1)] body(2) by (simp add: s)
  have dist: "distinct (map fst (rg_entries p))"
    using wf by (simp add: bt_wf_def strict_sorted_iff)
  have "registry_check_entry cr bc s ?pk p e = Inr ()" if "e \<in> set (rg_entries p)" for e
  proof -
    obtain b where "map_of bindings (fst e) = Some b"
      and b: "binding_sign cr bc (binding_for p ?d (fst e) (snd e)) sk = Inr b"
      using sign_bindings_Inr(2) [OF bs dist, of "fst e" "snd e"] \<open>e \<in> set _\<close> by auto
    moreover have "binding_verify cr bc b ?pk (fst e) (rg_issued_at p)
        = Inr (binding_for p ?d (fst e) (snd e))"
      using binding_sign_verifies [OF sig b bc, of "rg_issued_at p"] \<open>e \<in> set _\<close> life
      by (simp add: binding_for_def)
    ultimately show ?thesis by (simp add: registry_check_entry_Inr_iff s)
  qed
  then show ?thesis
    unfolding registry_verify_Inr_iff
    using auth_sign_verifies [OF sig size] codec_at_from_bytes [OF rc] names stamp life len
    by (simp add: s)
qed

definition registry0 :: registry_payload where
  "registry0 =
     \<lparr>rg_stamp = \<lparr>st_authority = \<lparr>a_key = replicate 32 7, a_epoch = 1\<rparr>, st_revision = 4\<rparr>,
      rg_entries = [(''desk'', replicate 32 5)], rg_issued_at = 1000, rg_expires_at = 1060\<rparr>"

definition signed_registry0 :: signed_registry where
  "signed_registry0 =
     \<lparr>sr_payload = [1], sr_signature = replicate 64 7,
      sr_bindings = [(''desk'', \<lparr>nb_payload = [2], nb_signature = replicate 64 7\<rparr>)]\<rparr>"

definition binding_codec0 :: "name_binding_payload codec" where
  "binding_codec0 = tag_codec 2 (binding_for registry0 (blake3 crypto0 [1]) ''desk'' (replicate 32 5))"

lemma registry0_signed:
  "registry_sign crypto0 (tag_codec 1 registry0) binding_codec0 (\<lambda>s. Inr (sr_payload s)) registry0
     (replicate 32 7) = Inr signed_registry0"
proof -
  have "valid_name ''desk''"
    by (simp add: valid_name_def name_byte_ok_def less_eq_char_def)
  then show ?thesis
    by (simp add: registry_sign_def registry0_def signed_registry0_def binding_codec0_def binding_sign_def
        binding_for_def stamp_verify_def max_registry_names_def max_binding_bytes_def max_body_def
        auth_sign_def crypto0_def Let_def)
qed

lemma registry0_lifetime:
  "check_lifetime (rg_issued_at registry0) (rg_expires_at registry0) (rg_issued_at registry0) = Inr ()"
  by (simp add: registry0_def check_lifetime_def max_name_ttl_secs_def res_simps)

theorem signed_registry_verifies_witness:
  "registry_verify crypto0 (tag_codec 1 registry0) binding_codec0 signed_registry0
     (sk_public crypto0 (replicate 32 7)) = Inr registry0"
  by (rule signed_registry_verifies [OF crypto0_ok registry0_signed _ registry0_lifetime])
    (simp_all add: registry0_def binding_codec0_def)

lemma registry0_verified:
  "registry_verify crypto0 (tag_codec 1 registry0) binding_codec0 signed_registry0 (replicate 32 7)
     = Inr registry0"
proof -
  have "valid_name ''desk''"
    by (simp add: valid_name_def name_byte_ok_def less_eq_char_def)
  then show ?thesis
    using registry0_lifetime
    by (simp add: registry_verify_Inr_iff registry_check_entry_Inr_iff binding_verify_Inr_iff
        signed_registry0_def registry0_def binding_codec0_def binding_for_def res_simps
        max_registry_names_def max_binding_bytes_def max_body_def crypto0_def)
qed

theorem registry_entries_proved_witness:
  "valid_name ''desk'' \<and>
   (\<exists>proof. map_of (sr_bindings signed_registry0) ''desk'' = Some proof \<and>
      binding_verify crypto0 binding_codec0 proof (replicate 32 7) ''desk'' (rg_issued_at registry0)
        = Inr (binding_for registry0 (blake3 crypto0 (sr_payload signed_registry0)) ''desk'' (replicate 32 5)))"
  by (rule registry_entries_proved [OF registry0_verified]) (simp add: registry0_def)

end
