(* ===== verification/Rds_Http.thy ===== *)
theory Rds_Http
  imports Rds_Net Rds_Snapshots
begin

text \<open>
  The directory's HTTP/1.1 subset (\<open>rds-discovery/src/http.rs\<close> and \<open>http/headers.rs\<close>): heads and
  bodies as they are read from and written to a connection. A connection is the bytes the peer
  sends and what follows them, the end of the stream or an error of the operating system.
  \<open>url::Url::parse\<close> is a parameter.
\<close>

section \<open>Text\<close>

text \<open>\<open>std::str::from_utf8\<close> accepts exactly the well-formed sequences of the Unicode standard.\<close>

definition utf8_cont :: "byte \<Rightarrow> bool" where
  "utf8_cont b \<longleftrightarrow> 128 \<le> unat b \<and> unat b \<le> 191"

fun utf8_ok :: "bytes \<Rightarrow> bool" where
  "utf8_ok [] = True"
| "utf8_ok (a # bs) =
     (if unat a < 128 then utf8_ok bs
      else if 194 \<le> unat a \<and> unat a \<le> 223 then
        (case bs of b # r \<Rightarrow> utf8_cont b \<and> utf8_ok r | _ \<Rightarrow> False)
      else if 224 \<le> unat a \<and> unat a \<le> 239 then
        (case bs of b # c # r \<Rightarrow>
           utf8_cont b \<and> (unat a = 224 \<longrightarrow> 160 \<le> unat b) \<and> (unat a = 237 \<longrightarrow> unat b \<le> 159) \<and>
           utf8_cont c \<and> utf8_ok r
         | _ \<Rightarrow> False)
      else if 240 \<le> unat a \<and> unat a \<le> 244 then
        (case bs of b # c # d # r \<Rightarrow>
           utf8_cont b \<and> (unat a = 240 \<longrightarrow> 144 \<le> unat b) \<and> (unat a = 244 \<longrightarrow> unat b \<le> 143) \<and>
           utf8_cont c \<and> utf8_cont d \<and> utf8_ok r
         | _ \<Rightarrow> False)
      else False)"

definition bytes_str :: "bytes \<Rightarrow> string" where
  "bytes_str bs = map (\<lambda>b. char_of (unat b)) bs"

definition crlf :: string where
  "crlf = [CHR 0x0D, CHR 0x0A]"

text \<open>\<open>str::split("\r\n")\<close>\<close>

fun split_crlf :: "string \<Rightarrow> string list" where
  "split_crlf [] = [[]]"
| "split_crlf [c] = [[c]]"
| "split_crlf (c # d # cs) =
     (if c = CHR 0x0D \<and> d = CHR 0x0A then [] # split_crlf cs
      else (case split_crlf (d # cs) of w # ws \<Rightarrow> (c # w) # ws | [] \<Rightarrow> [[c]]))"

text \<open>\<open>trim_matches([' ', '\t'])\<close>\<close>

definition is_blank :: "char \<Rightarrow> bool" where
  "is_blank c \<longleftrightarrow> c = CHR '' '' \<or> c = CHR 0x09"

definition trim_blank :: "string \<Rightarrow> string" where
  "trim_blank s = rev (dropWhile is_blank (rev (dropWhile is_blank s)))"

definition eq_ignore_ascii_case :: "string \<Rightarrow> string \<Rightarrow> bool" where
  "eq_ignore_ascii_case a b \<longleftrightarrow> map ascii_lower a = map ascii_lower b"

definition is_graphic :: "char \<Rightarrow> bool" where
  "is_graphic c \<longleftrightarrow> 33 \<le> (of_char c :: nat) \<and> (of_char c :: nat) \<le> 126"

section \<open>Header fields\<close>

definition max_head :: usize where "max_head = 8 * 1024"

definition bad :: "string \<Rightarrow> discovery_error" where
  "bad msg = InvalidRecord (''http: '' @ msg)"

definition token :: "string \<Rightarrow> bool" where
  "token value \<longleftrightarrow>
     value \<noteq> [] \<and>
     list_all (\<lambda>b. is_alnum b \<or> b \<in> set (''!#$%&'' @ [CHR 0x27] @ ''*+-.^_`|~'')) value"

definition field_value :: "string \<Rightarrow> bool" where
  "field_value value \<longleftrightarrow> list_all (\<lambda>b. is_graphic b \<or> b = CHR '' '' \<or> b = CHR 0x09) value"

definition target :: "string \<Rightarrow> string \<Rightarrow> (discovery_error, unit) result" where
  "target meth path =
     rbind (ensure (\<not> (length meth > 16 \<or> \<not> token meth)) (bad ''bad method'')) (\<lambda>_.
     ensure (\<not> (\<not> prefix ''/'' path \<or> length path > 512 \<or>
                \<not> list_all (\<lambda>b. is_graphic b \<and> b \<notin> set [CHR ''?'', CHR ''#'', CHR 0x5C]) path))
       (bad ''bad path''))"

text \<open>
  \<open>Url::parse\<close> fails or gives what the code looks at: whether there is a host, and
  \<open>port_or_known_default\<close>.
\<close>

type_synonym url_parser = "string \<Rightarrow> (bool \<times> u16 option) option"

definition host_authority :: "url_parser \<Rightarrow> string \<Rightarrow> (discovery_error, unit) result" where
  "host_authority url value =
     rbind (ensure (\<not> (value = [] \<or> length value > 2048 \<or> suffix '':'' value \<or>
                       \<not> list_all (\<lambda>b. is_alnum b \<or> b \<in> set ''.-:[]'') value))
             (bad ''invalid host authority'')) (\<lambda>_.
     rbind (ok_or (bad ''invalid host authority'') (url (''http://'' @ value @ ''/''))) (\<lambda>(host, port).
     ensure (\<not> (\<not> host \<or> (case port of None \<Rightarrow> True | Some p \<Rightarrow> p = 0))) (bad ''invalid host authority'')))"

definition http_version :: "string \<Rightarrow> bool" where
  "http_version value \<longleftrightarrow> value = ''HTTP/1.0'' \<or> value = ''HTTP/1.1''"

record headers =
  hd_length :: "usize option"
  hd_host :: bool

definition header_line :: "url_parser \<Rightarrow> string \<Rightarrow> headers \<Rightarrow> (discovery_error, headers) result" where
  "header_line url line h =
     rbind (ok_or (bad ''bad header'') (split_once CHR '':'' line)) (\<lambda>(name, raw).
     rbind (ensure (\<not> (\<not> token name \<or> \<not> field_value raw)) (bad ''bad header syntax'')) (\<lambda>_.
     let value = trim_blank raw in
     if eq_ignore_ascii_case name ''content-length'' then
       rbind (ensure (hd_length h = None) (bad ''duplicate content-length'')) (\<lambda>_.
       rbind (ensure (\<not> (value = [] \<or> \<not> list_all (is_digit 10) value)) (bad ''bad content-length'')) (\<lambda>_.
       let n = digits_value 10 value in
       rbind (ensure (n \<le> u64_max) (bad ''bad content-length'')) (\<lambda>_.
       rbind (ensure (\<not> n > max_body) (bad ''body too large'')) (\<lambda>_.
       Inr (h\<lparr>hd_length := Some n\<rparr>)))))
     else if eq_ignore_ascii_case name ''transfer-encoding'' then Inl (bad ''transfer-encoding unsupported'')
     else if eq_ignore_ascii_case name ''host'' then
       rbind (ensure (\<not> hd_host h) (bad ''duplicate host'')) (\<lambda>_.
       rbind (host_authority url value) (\<lambda>_.
       Inr (h\<lparr>hd_host := True\<rparr>)))
     else if eq_ignore_ascii_case name ''content-encoding'' \<and> \<not> eq_ignore_ascii_case value ''identity''
     then Inl (bad ''content-encoding unsupported'')
     else if eq_ignore_ascii_case name ''expect'' then Inl (bad ''expectation unsupported'')
     else Inr h))"

fun header_lines :: "url_parser \<Rightarrow> string list \<Rightarrow> headers \<Rightarrow> (discovery_error, headers) result" where
  "header_lines url [] h = Inr h"
| "header_lines url (line # rest) h = rbind (header_line url line h) (header_lines url rest)"

definition headers_parse :: "url_parser \<Rightarrow> string list \<Rightarrow> (discovery_error, headers) result" where
  "headers_parse url ls = header_lines url ls \<lparr>hd_length = None, hd_host = False\<rparr>"

section \<open>Connections\<close>

text \<open>What the peer sends, then the end of the stream (\<^const>\<open>None\<close>) or an I/O error.\<close>

type_synonym in_stream = "bytes \<times> string option"

definition head_end :: bytes where
  "head_end = str_bytes (crlf @ crlf)"

text \<open>The loop of \<open>read_head\<close>: the head so far, the bytes still to come.\<close>

fun read_head_loop ::
  "bytes \<Rightarrow> bytes \<Rightarrow> string option \<Rightarrow> (discovery_error, (bytes \<times> bytes) option) result" where
  "read_head_loop buf [] stop =
     (case stop of
        Some e \<Rightarrow> Inl (Store e)
      | None \<Rightarrow> if buf = [] then Inr None else Inl (bad ''head truncated''))"
| "read_head_loop buf (b # bs) stop =
     (let buf2 = buf @ [b] in
      if length buf2 > max_head then Inl (bad ''head too large'')
      else if suffix head_end buf2 then Inr (Some (buf2, bs))
      else read_head_loop buf2 bs stop)"

definition read_head :: "in_stream \<Rightarrow> (discovery_error, (bytes \<times> bytes) option) result" where
  "read_head s = read_head_loop [] (fst s) (snd s)"

text \<open>\<open>read_exact\<close> fails alike at the end of the stream and at an error.\<close>

definition read_exact :: "usize \<Rightarrow> bytes \<Rightarrow> (discovery_error, bytes) result" where
  "read_exact n bs = (if n \<le> length bs then Inr (take n bs) else Inl (bad ''body truncated''))"

section \<open>Requests\<close>

record request =
  rq_method :: string
  rq_path :: string
  rq_body :: bytes

definition strip_head_end :: "bytes \<Rightarrow> (discovery_error, string) result" where
  "strip_head_end head =
     rbind (ensure (utf8_ok head) (bad ''head is not utf-8'')) (\<lambda>_.
     if suffix (crlf @ crlf) (bytes_str head) then Inr (take (length head - 4) (bytes_str head))
     else Inl (bad ''head truncated''))"

definition request_line :: "string \<Rightarrow> (discovery_error, string \<times> string \<times> string) result" where
  "request_line line =
     (case split_on (\<lambda>c. c = CHR '' '') line of
        [] \<Rightarrow> Inl (bad ''no method'')
      | [meth] \<Rightarrow> Inl (bad ''no path'')
      | [meth, path] \<Rightarrow> Inl (bad ''no version'')
      | meth # path # version # extra \<Rightarrow>
          rbind (ensure (\<not> (extra \<noteq> [] \<or> \<not> http_version version)) (bad ''malformed request line'')) (\<lambda>_.
          Inr (meth, path, version)))"

definition read_request :: "url_parser \<Rightarrow> in_stream \<Rightarrow> (discovery_error, request option) result" where
  "read_request url s =
     rbind (read_head s) (\<lambda>r.
     case r of
       None \<Rightarrow> Inr None
     | Some (head, rest) \<Rightarrow>
         rbind (strip_head_end head) (\<lambda>content.
         case split_crlf content of
           [] \<Rightarrow> Inl (bad ''empty head'')
         | line # ls \<Rightarrow>
             rbind (request_line line) (\<lambda>(meth, path, version).
             rbind (target meth path) (\<lambda>_.
             rbind (headers_parse url ls) (\<lambda>h.
             rbind (ensure (\<not> (version = ''HTTP/1.1'' \<and> \<not> hd_host h)) (bad ''missing host'')) (\<lambda>_.
             rbind (read_exact (case hd_length h of None \<Rightarrow> 0 | Some n \<Rightarrow> n) rest) (\<lambda>body.
             Inr (Some \<lparr>rq_method = meth, rq_path = path, rq_body = body\<rparr>))))))))"

text \<open>The errors of the three writes to the connection, in order.\<close>

record send_io =
  si_head :: "string option"
  si_body :: "string option"
  si_flush :: "string option"

definition sent :: "string option \<Rightarrow> (discovery_error, unit) result" where
  "sent e = (case e of None \<Rightarrow> Inr () | Some msg \<Rightarrow> Inl (Store msg))"

definition send_message :: "send_io \<Rightarrow> string \<Rightarrow> bytes \<Rightarrow> (discovery_error, bytes) result" where
  "send_message io head body =
     rbind (ensure (\<not> length head > max_head) (bad ''head too large'')) (\<lambda>_.
     rbind (sent (si_head io)) (\<lambda>_.
     rbind (sent (si_body io)) (\<lambda>_.
     rbind (sent (si_flush io)) (\<lambda>_.
     Inr (str_bytes head @ body)))))"

definition request_head :: "string \<Rightarrow> string \<Rightarrow> string \<Rightarrow> usize \<Rightarrow> string" where
  "request_head authority meth path n =
     meth @ '' '' @ path @ '' HTTP/1.1'' @ crlf @ ''Host: '' @ authority @ crlf @
     ''Content-Length: '' @ print_number 10 n @ crlf @ ''Connection: close'' @ crlf @ crlf"

definition write_request_with_host ::
  "url_parser \<Rightarrow> send_io \<Rightarrow> string \<Rightarrow> string \<Rightarrow> string \<Rightarrow> bytes \<Rightarrow> (discovery_error, bytes) result" where
  "write_request_with_host url io authority meth path body =
     rbind (host_authority url authority) (\<lambda>_.
     rbind (target meth path) (\<lambda>_.
     rbind (ensure (\<not> length body > max_body) (bad ''body too large'')) (\<lambda>_.
     send_message io (request_head authority meth path (length body)) body)))"

definition write_request ::
  "url_parser \<Rightarrow> send_io \<Rightarrow> string \<Rightarrow> string \<Rightarrow> bytes \<Rightarrow> (discovery_error, bytes) result" where
  "write_request url io meth path body = write_request_with_host url io ''localhost'' meth path body"

section \<open>Responses\<close>

record response =
  rp_status :: u16
  rp_body :: bytes

definition status_line :: "string \<Rightarrow> (discovery_error, u16) result" where
  "status_line line =
     (let (first, extra) = (case split_once CHR '' '' line of None \<Rightarrow> (line, None) | Some (v, r) \<Rightarrow> (v, Some r)) in
      rbind (ensure (http_version first) (bad ''malformed status line'')) (\<lambda>_.
      rbind (ok_or (bad ''no status code'') extra) (\<lambda>r.
      let (code, tail) = (case split_once CHR '' '' r of None \<Rightarrow> (r, None) | Some (c, t) \<Rightarrow> (c, Some t)) in
      rbind (ensure (\<not> (length code \<noteq> 3 \<or> \<not> list_all (is_digit 10) code)) (bad ''bad status code'')) (\<lambda>_.
      let status = digits_value 10 code in
      rbind (ensure (status \<le> 65535) (bad ''bad status code'')) (\<lambda>_.
      rbind (ensure (200 \<le> status \<and> status \<le> 599) (bad ''unsupported status code'')) (\<lambda>_.
      rbind (ok_or (bad ''missing status separator'') tail) (\<lambda>reason.
      rbind (ensure (field_value reason) (bad ''bad reason phrase'')) (\<lambda>_.
      Inr status))))))))"

definition response_length :: "u16 \<Rightarrow> headers \<Rightarrow> (discovery_error, usize) result" where
  "response_length status h =
     (if status = 204 \<and> hd_length h \<noteq> None then Inl (bad ''content-length forbidden for 204'')
      else if status = 204 \<or> status = 304 then Inr 0
      else ok_or (bad ''response requires content-length'') (hd_length h))"

definition read_response :: "url_parser \<Rightarrow> in_stream \<Rightarrow> (discovery_error, response) result" where
  "read_response url s =
     rbind (read_head s) (\<lambda>r.
     rbind (ok_or (bad ''empty response'') r) (\<lambda>(head, rest).
     rbind (strip_head_end head) (\<lambda>content.
     case split_crlf content of
       [] \<Rightarrow> Inl (bad ''empty head'')
     | line # ls \<Rightarrow>
         rbind (status_line line) (\<lambda>status.
         rbind (headers_parse url ls) (\<lambda>h.
         rbind (response_length status h) (\<lambda>n.
         rbind (read_exact n rest) (\<lambda>body.
         Inr \<lparr>rp_status = status, rp_body = body\<rparr>)))))))"

definition reason_phrase :: "u16 \<Rightarrow> string" where
  "reason_phrase status =
     (if status = 200 then ''OK'' else if status = 400 then ''Bad Request''
      else if status = 401 then ''Unauthorized'' else if status = 403 then ''Forbidden''
      else if status = 404 then ''Not Found'' else if status = 405 then ''Method Not Allowed''
      else if status = 409 then ''Conflict'' else if status = 410 then ''Gone''
      else if status = 413 then ''Payload Too Large'' else if status = 429 then ''Too Many Requests''
      else if status = 500 then ''Internal Server Error'' else ''Status'')"

definition response_head :: "u16 \<Rightarrow> usize \<Rightarrow> string" where
  "response_head status n =
     (if status = 204 \<or> status = 304
      then ''HTTP/1.1 '' @ print_number 10 status @ '' '' @ reason_phrase status @ crlf @
             ''Connection: close'' @ crlf @ crlf
      else ''HTTP/1.1 '' @ print_number 10 status @ '' '' @ reason_phrase status @ crlf @
             ''Content-Length: '' @ print_number 10 n @ crlf @
             ''Content-Type: application/json'' @ crlf @ ''Connection: close'' @ crlf @ crlf)"

definition write_response :: "send_io \<Rightarrow> response \<Rightarrow> (discovery_error, bytes) result" where
  "write_response io resp =
     rbind (ensure (200 \<le> rp_status resp \<and> rp_status resp \<le> 599) (bad ''unsupported status code'')) (\<lambda>_.
     rbind (ensure (\<not> length (rp_body resp) > max_body) (bad ''body too large'')) (\<lambda>_.
     rbind (ensure (\<not> ((rp_status resp = 204 \<or> rp_status resp = 304) \<and> rp_body resp \<noteq> []))
             (bad ''body forbidden for status'')) (\<lambda>_.
     send_message io (response_head (rp_status resp) (length (rp_body resp))) (rp_body resp))))"

section \<open>Bytes and text\<close>

lemma unat_of_char: "unat (of_char c :: byte) = of_char c"
proof -
  have "(of_char c :: byte) = of_nat (of_char c)"
    by (simp add: of_nat_of_char)
  then show ?thesis
    using of_char_less [of c] by (simp add: unat_of_nat take_bit_eq_mod)
qed

lemma bytes_str_bytes [simp]: "bytes_str (str_bytes s) = s"
  by (simp add: bytes_str_def str_bytes_def comp_def unat_of_char)

lemma str_bytes_simps [simp]:
  "str_bytes [] = []" "str_bytes (c # s) = of_char c # str_bytes s" "str_bytes (s @ t) = str_bytes s @ str_bytes t"
  "length (str_bytes s) = length s"
  by (simp_all add: str_bytes_def)

lemma str_bytes_eq_iff [simp]: "str_bytes s = str_bytes t \<longleftrightarrow> s = t"
  using bytes_str_bytes [of s] bytes_str_bytes [of t] by metis

definition ascii :: "string \<Rightarrow> bool" where
  "ascii s \<longleftrightarrow> list_all (\<lambda>c. (of_char c :: nat) < 128) s"

lemma ascii_simps [simp]: "ascii []" "ascii (c # s) \<longleftrightarrow> (of_char c :: nat) < 128 \<and> ascii s" "ascii (s @ t) \<longleftrightarrow> ascii s \<and> ascii t"
  by (simp_all add: ascii_def)

lemma utf8_ok_ascii: "ascii s \<Longrightarrow> utf8_ok (str_bytes s)"
  by (induction s) (simp_all add: unat_of_char)

lemma split_on_Cons [simp]:
  "(\<forall>c\<in>set a. \<not> p c) \<Longrightarrow> p d \<Longrightarrow> split_on p (a @ d # b) = a # split_on p b"
  by (induction a) auto

lemma split_on_last [simp]: "(\<forall>c\<in>set a. \<not> p c) \<Longrightarrow> split_on p a = [a]"
  by (induction a) auto

section \<open>Lines\<close>

definition plain :: "string \<Rightarrow> bool" where
  "plain l \<longleftrightarrow> l \<noteq> [] \<and> CHR 0x0D \<notin> set l \<and> CHR 0x0A \<notin> set l"

fun join_crlf :: "string list \<Rightarrow> string" where
  "join_crlf [] = []"
| "join_crlf [l] = l"
| "join_crlf (l # m # ls) = l @ crlf @ join_crlf (m # ls)"

lemma split_crlf_plain: "CHR 0x0D \<notin> set l \<Longrightarrow> split_crlf l = [l]"
  by (induction l rule: split_crlf.induct) auto

lemma split_crlf_line: "CHR 0x0D \<notin> set l \<Longrightarrow> split_crlf (l @ crlf @ s) = l # split_crlf s"
proof (induction l)
  case (Cons c l)
  then show ?case by (cases l) (auto simp: crlf_def)
qed (simp add: crlf_def)

lemma split_join_crlf: "ls \<noteq> [] \<Longrightarrow> list_all plain ls \<Longrightarrow> split_crlf (join_crlf ls) = ls"
  by (induction ls rule: join_crlf.induct) (auto simp: plain_def split_crlf_plain split_crlf_line)

lemma join_crlf_end: "ls \<noteq> [] \<Longrightarrow> join_crlf ls @ crlf = concat (map (\<lambda>l. l @ crlf) ls)"
  by (induction ls rule: join_crlf.induct) auto

lemma crlf_length: "length crlf = 2"
  by (simp add: crlf_def)

text \<open>Reading byte by byte, no line ends the head before the empty one.\<close>

lemma suffix_snoc_ne: "suffix s (buf @ [b]) \<Longrightarrow> s \<noteq> [] \<Longrightarrow> last s = b"
  by (auto simp: suffix_def) (metis last_appendR last_snoc)

lemma of_char_eq_byte [simp]: "(of_char c :: byte) = of_char d \<longleftrightarrow> c = d"
  using str_bytes_eq_iff [of "[c]" "[d]"] by simp

lemma head_end_last: "suffix head_end (buf @ [of_char c]) \<Longrightarrow> c = CHR 0x0A"
  using suffix_snoc_ne [of head_end buf "of_char c"] of_char_eq_byte [of "CHR 0x0A" c]
  by (simp add: head_end_def crlf_def del: of_char_eq_byte)

lemma head_end_mid: "suffix head_end (buf @ [b, of_char (CHR 0x0D), of_char (CHR 0x0A)]) \<Longrightarrow> b = of_char (CHR 0x0A)"
  by (auto simp: head_end_def crlf_def suffix_def append_eq_append_conv2 Cons_eq_append_conv)

lemma read_chars:
  "CHR 0x0A \<notin> set l \<Longrightarrow> length buf + length l \<le> max_head \<Longrightarrow>
     read_head_loop buf (str_bytes l @ s) stop = read_head_loop (buf @ str_bytes l) s stop"
proof (induction l arbitrary: buf)
  case (Cons c l)
  then show ?case
    using Cons.IH [of "buf @ [of_char c]"] head_end_last [of buf c] by (auto simp: Let_def)
qed simp

lemma read_line:
  assumes "plain l" "length buf + length l + 2 \<le> max_head"
  shows "read_head_loop buf (str_bytes (l @ crlf) @ s) stop = read_head_loop (buf @ str_bytes (l @ crlf)) s stop"
proof -
  obtain m c where l: "l = m @ [c]" "c \<noteq> CHR 0x0A"
    using assms(1) by (cases l rule: rev_cases) (auto simp: plain_def)
  have "read_head_loop buf (str_bytes (l @ [CHR 0x0D]) @ of_char (CHR 0x0A) # s) stop =
      read_head_loop (buf @ str_bytes (l @ [CHR 0x0D])) (of_char (CHR 0x0A) # s) stop"
    by (rule read_chars) (use assms in \<open>auto simp: plain_def\<close>)
  moreover have "\<not> suffix head_end ((buf @ str_bytes m) @ [of_char c, of_char (CHR 0x0D), of_char (CHR 0x0A)])"
    using head_end_mid l(2) of_char_eq_byte by blast
  ultimately show ?thesis
    using assms(2) l(1) by (simp add: crlf_def Let_def)
qed

lemma read_lines:
  "list_all plain ls \<Longrightarrow> length buf + length (concat (map (\<lambda>l. l @ crlf) ls)) \<le> max_head \<Longrightarrow>
     read_head_loop buf (str_bytes (concat (map (\<lambda>l. l @ crlf) ls)) @ s) stop =
     read_head_loop (buf @ str_bytes (concat (map (\<lambda>l. l @ crlf) ls))) s stop"
proof (induction ls arbitrary: buf)
  case (Cons l ls)
  have "read_head_loop buf (str_bytes (l @ crlf) @ str_bytes (concat (map (\<lambda>l. l @ crlf) ls)) @ s) stop =
      read_head_loop (buf @ str_bytes (l @ crlf)) (str_bytes (concat (map (\<lambda>l. l @ crlf) ls)) @ s) stop"
    by (rule read_line) (use Cons.prems in \<open>auto simp: crlf_def\<close>)
  then show ?case
    using Cons.IH [of "buf @ str_bytes (l @ crlf)"] Cons.prems by (simp add: crlf_def)
qed simp

lemma read_head_lines:
  assumes "ls \<noteq> []" "list_all plain ls" "length (join_crlf ls @ crlf @ crlf) \<le> max_head"
  shows "read_head (str_bytes (join_crlf ls @ crlf @ crlf) @ s, stop) =
    Inr (Some (str_bytes (join_crlf ls @ crlf @ crlf), s))"
proof -
  let ?c = "concat (map (\<lambda>l. l @ crlf) ls)"
  have j: "join_crlf ls @ crlf @ crlf = ?c @ crlf"
    using join_crlf_end [OF assms(1)] by simp
  have len: "length ?c + 2 \<le> max_head"
    using assms(3) arg_cong [OF j, of length] by (simp add: crlf_length)
  have e: "suffix head_end (str_bytes (?c @ crlf))"
    using j unfolding head_end_def suffix_def
    by (intro exI [of _ "str_bytes (join_crlf ls)"]) (metis append.assoc str_bytes_simps(3))
  have "\<not> suffix head_end (str_bytes ?c @ [of_char (CHR 0x0D)])"
    using head_end_last [of "str_bytes ?c" "CHR 0x0D"] by auto
  then have "read_head_loop (str_bytes ?c) (str_bytes crlf @ s) stop = Inr (Some (str_bytes (?c @ crlf), s))"
    using e len by (simp add: crlf_def Let_def)
  then show ?thesis
    using read_lines [of ls "[]" "str_bytes crlf @ s" stop] assms(2) len by (simp add: read_head_def j)
qed



lemma print_number_all: "list_all (is_digit 10) (print_number 10 n)"
  using print_number_digits [of 10 _ n] by (simp add: list_all_iff)

lemma strip_head_lines:
  "ascii (join_crlf ls) \<Longrightarrow> strip_head_end (str_bytes (join_crlf ls @ crlf @ crlf)) = Inr (join_crlf ls)"
proof -
  assume a: "ascii (join_crlf ls)"
  have "ascii (join_crlf ls @ crlf @ crlf)"
    using a by (simp add: crlf_def)
  then have "utf8_ok (str_bytes (join_crlf ls @ crlf @ crlf))"
    by (rule utf8_ok_ascii)
  moreover have "length (str_bytes (join_crlf ls @ crlf @ crlf)) - 4 = length (join_crlf ls)"
    by (simp add: crlf_def)
  ultimately show ?thesis
    by (simp add: strip_head_end_def suffixI del: str_bytes_simps)
qed

section \<open>Fields\<close>

definition visible :: "string \<Rightarrow> bool" where
  "visible s \<longleftrightarrow> list_all is_graphic s"

lemma is_graphic_facts:
  "is_graphic c \<Longrightarrow> c \<noteq> CHR 0x0D \<and> c \<noteq> CHR 0x0A \<and> c \<noteq> CHR '' '' \<and> c \<noteq> CHR 0x09 \<and> (of_char c :: nat) < 128 \<and> \<not> is_blank c"
  by (auto simp: is_graphic_def is_blank_def)

lemma is_digit_graphic: "is_digit r c \<Longrightarrow> is_graphic c"
  by (auto simp: is_digit_def digit_value_def is_graphic_def Let_def split: if_splits)

lemma is_alnum_graphic: "is_alnum c \<Longrightarrow> is_graphic c"
  using is_digit_graphic [of 36 c] by (simp add: is_alnum_def is_digit_def)

lemma visible_append [simp]: "visible (a @ b) \<longleftrightarrow> visible a \<and> visible b" "visible []" "visible (c # a) \<longleftrightarrow> is_graphic c \<and> visible a"
  by (simp_all add: visible_def)

lemma visible_chars:
  "visible s \<Longrightarrow> CHR 0x0D \<notin> set s \<and> CHR 0x0A \<notin> set s \<and> CHR '' '' \<notin> set s \<and> ascii s \<and> field_value s \<and> trim_blank s = s"
proof -
  assume v: "visible s"
  then have g: "is_graphic c" if "c \<in> set s" for c
    using that by (simp add: visible_def list_all_iff)
  have d: "dropWhile is_blank (rev s) = rev s" "dropWhile is_blank s = s"
    using g by (cases s rule: rev_cases; simp add: is_graphic_facts) (cases s; simp add: is_graphic_facts g)
  have "CHR 0x0D \<notin> set s" "CHR 0x0A \<notin> set s" "CHR '' '' \<notin> set s" "ascii s"
    using g [THEN is_graphic_facts] by (auto simp: ascii_def list_all_iff)
  then show ?thesis
    using v d by (auto simp: visible_def list_all_iff field_value_def trim_blank_def)
qed

lemma token_visible: "token s \<Longrightarrow> visible s \<and> s \<noteq> []"
  unfolding token_def visible_def
  by (elim conjE, intro conjI, erule list.pred_mono_strong) (auto simp: is_alnum_graphic, simp_all add: is_graphic_def)

lemma target_visible: "target meth path = Inr () \<Longrightarrow> visible meth \<and> visible path \<and> meth \<noteq> [] \<and> path \<noteq> []"
  by (auto simp: target_def res_simps visible_def dest: token_visible elim: list.pred_mono_strong)



lemma authority_visible: "host_authority url a = Inr () \<Longrightarrow> visible a \<and> a \<noteq> []"
  unfolding host_authority_def res_simps visible_def de_Morgan_disj not_not
  by (elim exE conjE, intro conjI, erule list.pred_mono_strong) (auto simp: is_alnum_graphic, simp_all add: is_graphic_def)

lemma trim_leading: "trim_blank (CHR '' '' # s) = trim_blank s"
  by (simp add: trim_blank_def is_blank_def)

lemma field_names:
  "eq_ignore_ascii_case ''Host'' ''host''" "\<not> eq_ignore_ascii_case ''Host'' ''content-length''"
  "\<not> eq_ignore_ascii_case ''Host'' ''transfer-encoding''"
  "eq_ignore_ascii_case ''Content-Length'' ''content-length''"
  by code_simp+

lemma header_line_host:
  assumes "host_authority url a = Inr ()" "\<not> hd_host h"
  shows "header_line url (''Host: '' @ a) h = Inr (h\<lparr>hd_host := True\<rparr>)"
proof -
  have a: "field_value a" "trim_blank a = a"
    using authority_visible [OF assms(1)] visible_chars by blast+
  have "split_once CHR '':'' (''Host'' @ CHR '':'' # '' '' @ a) = Some (''Host'', '' '' @ a)"
    by (rule split_once_append) simp
  moreover have "token ''Host''"
    by (simp add: token_def is_alnum_def digit_value_def)
  moreover have "field_value ('' '' @ a)"
    using a by (simp add: field_value_def)
  ultimately show ?thesis
    using assms a by (simp add: header_line_def trim_leading field_names)
qed

lemma header_line_length:
  assumes "hd_length h = None" "n \<le> max_body"
  shows "header_line url (''Content-Length: '' @ print_number 10 n) h = Inr (h\<lparr>hd_length := Some n\<rparr>)"
proof -
  have "visible (print_number 10 n)"
    using print_number_all [of n] is_digit_graphic by (auto simp: visible_def list_all_iff)
  then have a: "field_value (print_number 10 n)" "trim_blank (print_number 10 n) = print_number 10 n"
    using visible_chars by blast+
  have "split_once CHR '':'' (''Content-Length'' @ CHR '':'' # '' '' @ print_number 10 n) =
      Some (''Content-Length'', '' '' @ print_number 10 n)"
    by (rule split_once_append) simp
  moreover have "token ''Content-Length''"
    by (simp add: token_def is_alnum_def digit_value_def)
  moreover have "field_value ('' '' @ print_number 10 n)"
    using a by (simp add: field_value_def)
  moreover have "n \<le> u64_max"
    using assms(2) by (simp add: max_body_def u64_max_def)
  ultimately show ?thesis
    using assms a print_number_all [of n] digits_value_print [of 10 n]
    by (simp add: header_line_def trim_leading field_names)
qed

lemma header_line_other:
  "header_line url ''Connection: close'' h = Inr h"
  "header_line url ''Content-Type: application/json'' h = Inr h"
  by code_simp+

section \<open>Messages survive the wire\<close>

lemma visible_plain: "visible s \<Longrightarrow> s \<noteq> [] \<Longrightarrow> plain s \<and> ascii s"
  using visible_chars by (auto simp: plain_def)

lemma plain_ascii_append:
  "ascii a \<Longrightarrow> plain a \<Longrightarrow> ascii b \<Longrightarrow> (b \<noteq> [] \<longrightarrow> plain b) \<Longrightarrow> plain (a @ b) \<and> ascii (a @ b)"
  by (auto simp: plain_def)

lemma number_plain: "plain (print_number 10 n) \<and> ascii (print_number 10 n)"
proof -
  have "visible (print_number 10 n)"
    using print_number_all [of n] is_digit_graphic by (auto simp: visible_def list_all_iff)
  then show ?thesis using visible_plain by simp
qed

lemma request_head_lines:
  "request_head authority meth path n =
     join_crlf [meth @ '' '' @ path @ '' HTTP/1.1'', ''Host: '' @ authority,
                ''Content-Length: '' @ print_number 10 n, ''Connection: close''] @ crlf @ crlf"
  by (simp add: request_head_def)

lemma send_message_Inr:
  "send_message io head body = Inr bs \<Longrightarrow> length head \<le> max_head \<and> bs = str_bytes head @ body"
  by (auto simp: send_message_def res_simps)

lemma request_line_ok:
  assumes "visible meth" "visible path"
  shows "request_line (meth @ '' '' @ path @ '' HTTP/1.1'') = Inr (meth, path, ''HTTP/1.1'')"
proof -
  have "CHR '' '' \<notin> set meth" "CHR '' '' \<notin> set path"
    using assms visible_chars by blast+
  then have "split_on (\<lambda>c. c = CHR '' '') (meth @ CHR '' '' # path @ CHR '' '' # ''HTTP/1.1'') =
      [meth, path, ''HTTP/1.1'']"
    by (subst split_on_Cons, blast, simp)+ simp
  then show ?thesis
    by (simp add: request_line_def http_version_def)
qed

lemma request_roundtrip_lemma:
  assumes "write_request_with_host url io authority meth path body = Inr bs"
  shows "read_request url (bs @ rest, stop) = Inr (Some \<lparr>rq_method = meth, rq_path = path, rq_body = body\<rparr>)"
proof -
  let ?ls = "[meth @ '' '' @ path @ '' HTTP/1.1'', ''Host: '' @ authority,
      ''Content-Length: '' @ print_number 10 (length body), ''Connection: close'']"
  have a: "host_authority url authority = Inr ()" and t: "target meth path = Inr ()"
    and n: "length body \<le> max_body"
    and sm: "send_message io (request_head authority meth path (length body)) body = Inr bs"
    using assms by (auto simp: write_request_with_host_def res_simps)
  note v = target_visible [OF t] authority_visible [OF a]
  note p = visible_plain [of meth] visible_plain [of path] visible_plain [of authority]
  have plain: "list_all plain ?ls" and asc: "ascii (join_crlf ?ls)"
    using v p number_plain [of "length body"] by (auto simp: plain_def crlf_def)
  have len: "length (join_crlf ?ls @ crlf @ crlf) \<le> max_head"
    and bs: "bs = str_bytes (join_crlf ?ls @ crlf @ crlf) @ body"
    using send_message_Inr [OF sm] unfolding request_head_lines by blast+
  have "headers_parse url (tl ?ls) = Inr \<lparr>hd_length = Some (length body), hd_host = True\<rparr>"
    using header_line_host [OF a] header_line_length [OF _ n] by (simp add: headers_parse_def header_line_other)
  moreover have "read_head (bs @ rest, stop) = Inr (Some (str_bytes (join_crlf ?ls @ crlf @ crlf), body @ rest))"
    using read_head_lines [OF _ plain len, of "body @ rest"] unfolding bs by simp
  moreover have "split_crlf (join_crlf ?ls) = ?ls"
    using split_join_crlf [OF _ plain] by simp
  ultimately show ?thesis
    using t request_line_ok [of meth path] v strip_head_lines [OF asc]
    by (simp add: read_request_def read_exact_def del: join_crlf.simps str_bytes_simps)
qed

text \<open>
  C34. Every request the client sends is read back unchanged by the directory: whatever authority,
  method, path and body \<open>write_request_with_host\<close> accepts, \<open>read_request\<close> returns exactly that method,
  path and body from the bytes written, also when more bytes or an error follow.
\<close>

theorem request_roundtrip:
  assumes "write_request_with_host url io authority meth path body = Inr bs"
  shows "read_request url (bs @ rest, stop) = Inr (Some \<lparr>rq_method = meth, rq_path = path, rq_body = body\<rparr>)"
  by (rule request_roundtrip_lemma [OF assms])

lemma status_digits: "100 \<le> n \<Longrightarrow> n < 1000 \<Longrightarrow> length (print_number 10 n) = 3"
  by (simp add: print_number.simps [of 10 n] print_number.simps [of 10 "n div 10"]
      print_number.simps [of 10 "n div 100"] div_mult2_eq [symmetric] div_less_iff_less_mult)

lemma reason_phrase_ok: "field_value (reason_phrase n) \<and> plain (reason_phrase n) \<and> ascii (reason_phrase n)"
  by (simp add: reason_phrase_def field_value_def is_graphic_def plain_def)

lemma status_line_ok:
  assumes "200 \<le> n" "n \<le> 599"
  shows "status_line (''HTTP/1.1 '' @ print_number 10 n @ '' '' @ reason_phrase n) = Inr n"
proof -
  have "split_once CHR '' '' (''HTTP/1.1'' @ CHR '' '' # print_number 10 n @ CHR '' '' # reason_phrase n) =
      Some (''HTTP/1.1'', print_number 10 n @ CHR '' '' # reason_phrase n)"
    by (rule split_once_append) simp
  moreover have "CHR '' '' \<notin> set (print_number 10 n)"
    using print_number_all [of n] is_digit_graphic is_graphic_facts by (auto simp: list_all_iff)
  then have "split_once CHR '' '' (print_number 10 n @ CHR '' '' # reason_phrase n) =
      Some (print_number 10 n, reason_phrase n)"
    by (rule split_once_append)
  ultimately show ?thesis
    using assms status_digits [of n] print_number_all [of n] digits_value_print [of 10 n] reason_phrase_ok [of n]
    by (simp add: status_line_def http_version_def)
qed

definition response_lines :: "u16 \<Rightarrow> usize \<Rightarrow> string list" where
  "response_lines status n =
     (''HTTP/1.1 '' @ print_number 10 status @ '' '' @ reason_phrase status) #
     (if status = 204 \<or> status = 304 then []
      else [''Content-Length: '' @ print_number 10 n, ''Content-Type: application/json'']) @ [''Connection: close'']"

lemma response_head_lines: "response_head status n = join_crlf (response_lines status n) @ crlf @ crlf"
  by (simp add: response_head_def response_lines_def)

lemma response_lines_plain:
  "list_all plain (response_lines status n) \<and> ascii (join_crlf (response_lines status n))"
  using number_plain [of n] number_plain [of status] reason_phrase_ok [of status]
  by (auto simp: response_lines_def plain_def crlf_def)

lemma response_roundtrip_lemma:
  assumes "write_response io resp = Inr bs"
  shows "read_response url (bs @ rest, stop) = Inr resp"
proof -
  let ?ls = "response_lines (rp_status resp) (length (rp_body resp))"
  let ?e = "rp_status resp = 204 \<or> rp_status resp = 304"
  have st: "200 \<le> rp_status resp" "rp_status resp \<le> 599" and n: "length (rp_body resp) \<le> max_body"
    and e: "?e \<longrightarrow> rp_body resp = []"
    and sm: "send_message io (response_head (rp_status resp) (length (rp_body resp))) (rp_body resp) = Inr bs"
    using assms by (auto simp: write_response_def res_simps)
  have ne: "?ls \<noteq> []" by (simp add: response_lines_def)
  note plain = response_lines_plain [of "rp_status resp" "length (rp_body resp)"]
  have len: "length (join_crlf ?ls @ crlf @ crlf) \<le> max_head"
    and bs: "bs = str_bytes (join_crlf ?ls @ crlf @ crlf) @ rp_body resp"
    using send_message_Inr [OF sm] unfolding response_head_lines by blast+
  have h: "headers_parse url (tl ?ls) =
      Inr \<lparr>hd_length = (if ?e then None else Some (length (rp_body resp))), hd_host = False\<rparr>"
    using header_line_length [OF _ n] by (simp add: headers_parse_def header_line_other response_lines_def)
  have "read_head (bs @ rest, stop) = Inr (Some (str_bytes (join_crlf ?ls @ crlf @ crlf), rp_body resp @ rest))"
    using read_head_lines [OF ne _ len, of "rp_body resp @ rest"] plain unfolding bs by simp
  moreover have "split_crlf (join_crlf ?ls) = hd ?ls # tl ?ls" "status_line (hd ?ls) = Inr (rp_status resp)"
    using split_join_crlf [OF ne] plain status_line_ok [OF st] by (simp_all add: response_lines_def)
  ultimately show ?thesis
    using h e strip_head_lines [of ?ls] plain
    by (cases resp) (auto simp: read_response_def read_exact_def response_length_def simp del: str_bytes_simps)
qed

text \<open>
  C35. Every response the directory sends is read back unchanged by the client, status and body,
  also the bodiless 204 and 304.
\<close>

theorem response_roundtrip:
  assumes "write_response io resp = Inr bs"
  shows "read_response url (bs @ rest, stop) = Inr resp"
  by (rule response_roundtrip_lemma [OF assms])

section \<open>What a read accepts\<close>

text \<open>The shortest prefix, within the limit, that ends with an empty line.\<close>

definition head_prefix :: "bytes \<Rightarrow> nat option" where
  "head_prefix bs = find (\<lambda>n. suffix head_end (take n bs)) [0..<Suc (min (length bs) max_head)]"

definition head_spec :: "in_stream \<Rightarrow> (discovery_error, (bytes \<times> bytes) option) result" where
  "head_spec s =
     (case head_prefix (fst s) of
        Some n \<Rightarrow> Inr (Some (take n (fst s), drop n (fst s)))
      | None \<Rightarrow>
          if length (fst s) > max_head then Inl (bad ''head too large'')
          else (case snd s of
                  Some e \<Rightarrow> Inl (Store e)
                | None \<Rightarrow> if fst s = [] then Inr None else Inl (bad ''head truncated'')))"

lemma find_shift: "find P [Suc a..<Suc b] = map_option Suc (find (\<lambda>n. P (Suc n)) [a..<b])"
proof -
  have "find P (map Suc xs) = map_option Suc (find (\<lambda>n. P (Suc n)) xs)" for xs
    by (induction xs) auto
  then show ?thesis by (metis map_Suc_upt)
qed

lemma read_head_loop_find:
  "length buf \<le> max_head \<Longrightarrow>
   read_head_loop buf bs stop =
     (case find (\<lambda>n. suffix head_end (buf @ take n bs)) [1..<Suc (min (length bs) (max_head - length buf))] of
        Some n \<Rightarrow> Inr (Some (buf @ take n bs, drop n bs))
      | None \<Rightarrow>
          if length buf + length bs > max_head then Inl (bad ''head too large'')
          else (case stop of
                  Some e \<Rightarrow> Inl (Store e)
                | None \<Rightarrow> if buf = [] \<and> bs = [] then Inr None else Inl (bad ''head truncated'')))"
proof (induction bs arbitrary: buf)
  case (Cons b bs)
  show ?case
  proof (cases "length buf < max_head")
    case True
    let ?m = "min (length bs) (max_head - Suc (length buf))"
    have m: "min (length (b # bs)) (max_head - length buf) = Suc ?m"
      using True by simp
    have "[1..<Suc (Suc ?m)] = 1 # [Suc 1..<Suc (Suc ?m)]"
      by (rule upt_conv_Cons) simp
    then show ?thesis
      using True Cons.IH [of "buf @ [b]"] unfolding m
      by (auto simp: find_shift Let_def simp del: upt_Suc split: option.splits)
  qed (use Cons.prems in \<open>simp add: Let_def\<close>)
qed (simp add: Let_def split: option.splits)

lemma head_end_not_Nil: "\<not> suffix head_end []"
  by (simp add: head_end_def crlf_def)

lemma read_head_eq: "read_head s = head_spec s"
proof -
  have "[0..<Suc n] = 0 # [1..<Suc n]" for n
    by (simp add: upt_conv_Cons)
  then show ?thesis
    using read_head_loop_find [of "[]" "fst s" "snd s", unfolded append_Nil] head_end_not_Nil
    by (simp add: read_head_def head_spec_def head_prefix_def del: upt_Suc)
qed

text \<open>
  C36. Reading a head byte by byte finds exactly the shortest prefix of at most 8 KiB that ends with
  an empty line, leaves the rest of the connection untouched, and otherwise reports an oversized
  head, the I/O error, a truncated head or an unused connection.
\<close>

theorem read_head_reference: "read_head s = head_spec s"
  by (rule read_head_eq)

lemma header_line_bound:
  assumes "header_line url line h = Inr h2" "pred_option (\<lambda>n. n \<le> max_body) (hd_length h)"
  shows "pred_option (\<lambda>n. n \<le> max_body) (hd_length h2)"
proof -
  have "hd_length h2 = hd_length h \<or> (\<exists>n \<le> max_body. hd_length h2 = Some n)"
    using assms(1) unfolding header_line_def rbind_Inr_iff ok_or_Inr_iff ensure_Inr_iff Let_def
    by (elim exE conjE; simp only: split: prod.splits if_split_asm; auto simp: res_simps Let_def split: if_split_asm)
  then show ?thesis using assms(2) by auto
qed

lemma header_lines_bound:
  "header_lines url ls h = Inr h2 \<Longrightarrow> pred_option (\<lambda>n. n \<le> max_body) (hd_length h) \<Longrightarrow>
     pred_option (\<lambda>n. n \<le> max_body) (hd_length h2)"
  by (induction ls arbitrary: h) (auto simp: res_simps dest: header_line_bound)

lemma headers_bound: "headers_parse url ls = Inr h \<Longrightarrow> hd_length h = Some n \<Longrightarrow> n \<le> max_body"
  using header_lines_bound [of url ls _ h] by (fastforce simp: headers_parse_def)

lemma head_prefix_Some:
  assumes "head_prefix bs = Some n"
  shows "n \<le> length bs" "n \<le> max_head" "suffix head_end (take n bs)"
  using assms by (auto simp: head_prefix_def find_Some_iff simp del: upt_Suc)

lemma read_exact_take: "read_exact n bs = Inr body \<Longrightarrow> length body = n \<and> body = take n bs"
  by (auto simp: read_exact_def split: if_splits)

text \<open>
  A request that is accepted is well formed and bounded: its method is a token of at most 16
  bytes, its path starts with a slash and has at most 512 visible bytes without query, fragment
  or backslash, its head is at most 8 KiB and ends with an empty line, and its body is at most
  256 KiB and exactly the bytes that follow that head.
\<close>

theorem read_request_typed:
  assumes "read_request url (bs, stop) = Inr (Some r)"
  shows "token (rq_method r) \<and> length (rq_method r) \<le> 16 \<and>
    prefix ''/'' (rq_path r) \<and> length (rq_path r) \<le> 512 \<and>
    (\<forall>c\<in>set (rq_path r). is_graphic c \<and> c \<notin> {CHR ''?'', CHR ''#'', CHR 0x5C}) \<and>
    length (rq_body r) \<le> max_body \<and>
    (\<exists>head rest. bs = head @ rq_body r @ rest \<and> length head \<le> max_head \<and> suffix head_end head)"
proof -
  obtain x where x: "read_head (bs, stop) = Inr x"
    using assms by (auto simp: read_request_def rbind_Inr_iff)
  then obtain head rest where hr: "x = Some (head, rest)"
    using assms by (cases x) (auto simp: read_request_def)
  then obtain content where content: "strip_head_end head = Inr content"
    using assms x by (auto simp: read_request_def rbind_Inr_iff)
  obtain line ls where ls: "split_crlf content = line # ls"
    using assms x hr content by (cases "split_crlf content") (auto simp: read_request_def)
  obtain h where h: "headers_parse url ls = Inr h" and t: "target (rq_method r) (rq_path r) = Inr ()"
    and rd: "read_exact (case hd_length h of None \<Rightarrow> 0 | Some n \<Rightarrow> n) rest = Inr (rq_body r)"
    using assms x hr content ls by (auto simp: read_request_def res_simps)
  have len: "length (rq_body r) = (case hd_length h of None \<Rightarrow> 0 | Some n \<Rightarrow> n)"
    and body: "rq_body r = take (length (rq_body r)) rest"
    using read_exact_take [OF rd] by auto
  have hd: "read_head (bs, stop) = Inr (Some (head, rest))"
    using x hr by simp
  have "rest = rq_body r @ drop (length (rq_body r)) rest"
    using body append_take_drop_id by metis
  moreover have "bs = head @ rest" "length head \<le> max_head" "suffix head_end head"
    using hd head_prefix_Some [of bs]
    by (auto simp: read_head_eq head_spec_def split: option.splits if_splits)
  ultimately have "\<exists>head rest. bs = head @ rq_body r @ rest \<and> length head \<le> max_head \<and> suffix head_end head"
    by (intro exI [of _ head] exI [of _ "drop (length (rq_body r)) rest"] conjI) simp_all
  moreover have "length (rq_body r) \<le> max_body"
    using h len headers_bound by (auto split: option.splits)
  moreover have "token (rq_method r) \<and> length (rq_method r) \<le> 16 \<and> prefix ''/'' (rq_path r) \<and>
      length (rq_path r) \<le> 512 \<and> (\<forall>c\<in>set (rq_path r). is_graphic c \<and> c \<notin> {CHR ''?'', CHR ''#'', CHR 0x5C})"
    using t by (simp add: target_def res_simps list_all_iff)
  ultimately show ?thesis by (intro conjI) simp_all
qed

text \<open>A request to a host that the URL parser accepts, and its answer.\<close>

definition url0 :: url_parser where
  "url0 s = (if s = ''http://localhost/'' then Some (True, Some 80) else None)"

definition send_ok :: send_io where
  "send_ok = \<lparr>si_head = None, si_body = None, si_flush = None\<rparr>"

definition get_health :: bytes where
  "get_health = str_bytes (request_head ''localhost'' ''GET'' ''/v1/health'' 2) @ [7, 8]"

lemma get_health_sent: "write_request url0 send_ok ''GET'' ''/v1/health'' [7, 8] = Inr get_health"
proof -
  have "host_authority url0 ''localhost'' = Inr ()" "target ''GET'' ''/v1/health'' = Inr ()"
    by code_simp+
  moreover have "length (request_head ''localhost'' ''GET'' ''/v1/health'' 2) \<le> max_head"
    by (simp add: request_head_def max_head_def crlf_def print_number.simps)
  ultimately show ?thesis
    by (simp add: write_request_def write_request_with_host_def send_message_def send_ok_def sent_def
        get_health_def max_body_def numeral_2_eq_2)
qed

theorem request_roundtrip_witness:
  "read_request url0 (get_health @ [9], None) =
     Inr (Some \<lparr>rq_method = ''GET'', rq_path = ''/v1/health'', rq_body = [7, 8]\<rparr>)"
  using request_roundtrip [of url0 send_ok "''localhost''" "''GET''" "''/v1/health''" "[7, 8]" get_health "[9]" None]
    get_health_sent by (simp add: write_request_def)

theorem response_roundtrip_witness:
  "\<exists>bs. write_response send_ok \<lparr>rp_status = 404, rp_body = [1]\<rparr> = Inr bs \<and>
     read_response url0 (bs, None) = Inr \<lparr>rp_status = 404, rp_body = [1]\<rparr>"
proof -
  have "length (response_head 404 (Suc 0)) \<le> max_head"
    by (simp add: response_head_def max_head_def crlf_def print_number.simps reason_phrase_def)
  then have w: "write_response send_ok \<lparr>rp_status = 404, rp_body = [1]\<rparr> = Inr (str_bytes (response_head 404 (Suc 0)) @ [1])"
    by (simp add: write_response_def send_message_def send_ok_def sent_def max_body_def)
  show ?thesis
    using response_roundtrip [OF w, of url0 "[]" None] w by auto
qed

theorem read_request_typed_witness:
  "\<exists>head rest. get_health = head @ [7, 8] @ rest \<and> length head \<le> max_head \<and> suffix head_end head"
proof -
  have "read_request url0 (get_health, None) = Inr (Some \<lparr>rq_method = ''GET'', rq_path = ''/v1/health'', rq_body = [7, 8]\<rparr>)"
    using request_roundtrip_lemma [of url0 send_ok "''localhost''" _ _ _ _ "[]" None] get_health_sent
    by (simp add: write_request_def)
  from read_request_typed [OF this] show ?thesis by simp
qed

end
