(* ===== verification/Rds_Admission.thy ===== *)
theory Rds_Admission
  imports Rds_Record_Memory
begin

text \<open>
  Publisher enrollment and the mutation budgets of the directory
  (\<open>rds-discovery/src/admission.rs\<close>, with \<open>Limits\<close> of \<open>rds-discovery/src/service.rs\<close>). An
  \<open>Instant\<close> is the number of nanoseconds of the monotonic clock; the \<open>HashMap\<close> of writers is
  an ordered map, since no operation depends on its order. The \<open>u32\<close> counters are words.
\<close>

section \<open>Enrollment\<close>

record enrollment =
  en_keys :: "endpoint_key set"
  en_unrestricted :: bool

definition enrollment_default :: enrollment where
  "enrollment_default = \<lparr>en_keys = {}, en_unrestricted = False\<rparr>"

fun enroll_from :: "crypto \<Rightarrow> nat \<Rightarrow> endpoint_key list \<Rightarrow> enrollment \<Rightarrow> (discovery_error, enrollment) result" where
  "enroll_from cr index [] e = Inr e"
| "enroll_from cr index (key # keys) e =
     rbind (ensure (\<not> index \<ge> max_identities) (Configuration ''enrollment exceeds 4096 identities'')) (\<lambda>_.
     rbind (ensure (vk_error cr key = None) (Configuration ''invalid enrollment key'')) (\<lambda>_.
     rbind (ensure (\<not> (vk_weak cr key \<or> key \<in> en_keys e)) (Configuration ''weak or duplicate enrollment key'')) (\<lambda>_.
     enroll_from cr (index + 1) keys (e\<lparr>en_keys := insert key (en_keys e)\<rparr>))))"

definition enrollment_new :: "crypto \<Rightarrow> endpoint_key list \<Rightarrow> (discovery_error, enrollment) result" where
  "enrollment_new cr keys = enroll_from cr 0 keys enrollment_default"

definition unrestricted_for_tests :: enrollment where
  "unrestricted_for_tests = enrollment_default\<lparr>en_unrestricted := True\<rparr>"

definition allows :: "enrollment \<Rightarrow> endpoint_key \<Rightarrow> bool" where
  "allows e key \<longleftrightarrow> en_unrestricted e \<or> key \<in> en_keys e"

section \<open>Budgets\<close>

record limits =
  lm_put_min_interval :: duration
  lm_put_per_minute :: "32 word"
  lm_admissions_per_minute :: "32 word"
  lm_writer_per_minute :: "32 word"
  lm_policy_per_minute :: "32 word"
  lm_conn_timeout :: duration
  lm_max_conns :: usize
  lm_max_workers :: usize

definition limits_default :: limits where
  "limits_default =
     \<lparr>lm_put_min_interval = 0, lm_put_per_minute = 600, lm_admissions_per_minute = 600,
      lm_writer_per_minute = 120, lm_policy_per_minute = 60, lm_conn_timeout = from_secs 10,
      lm_max_conns = 1024, lm_max_workers = 16\<rparr>"

definition window_length :: duration where
  "window_length = from_secs 60"

text \<open>\<open>Instant::saturating_duration_since\<close>\<close>

definition since :: "duration \<Rightarrow> duration \<Rightarrow> duration" where
  "since now earlier = (if earlier \<le> now then now - earlier else 0)"

record window =
  wd_start :: duration
  wd_used :: "32 word"

definition window_new :: "duration \<Rightarrow> window" where
  "window_new now = \<lparr>wd_start = now, wd_used = 0\<rparr>"

definition window_reset :: "duration \<Rightarrow> window \<Rightarrow> window \<times> bool" where
  "window_reset now w =
     (if since now (wd_start w) \<ge> window_length then (window_new now, True) else (w, False))"

definition window_take :: "duration \<Rightarrow> 32 word \<Rightarrow> window \<Rightarrow> window \<times> bool" where
  "window_take now limit w0 =
     (case window_reset now w0 of (w, _) \<Rightarrow>
        if wd_used w \<ge> limit then (w, False)
        else (w\<lparr>wd_used := wd_used w + 1\<rparr>, True))"

record writer =
  wr_window :: window
  wr_reserved :: bool
  wr_last :: "duration option"

record limiter =
  li_poisoned :: bool
  li_writers :: "(endpoint_key, writer) btree"
  li_admissions :: window
  li_burst :: window
  li_registry :: window
  li_revocations :: window

definition limiter_default :: "duration \<Rightarrow> limiter" where
  "limiter_default now =
     \<lparr>li_poisoned = False, li_writers = [], li_admissions = window_new now, li_burst = window_new now,
      li_registry = window_new now, li_revocations = window_new now\<rparr>"

definition writer_new :: "duration \<Rightarrow> writer" where
  "writer_new now = \<lparr>wr_window = window_new now, wr_reserved = False, wr_last = None\<rparr>"

text \<open>The writer's entry after \<open>or_insert_with\<close> and the reset of its window.\<close>

definition writer_current :: "duration \<Rightarrow> writer option \<Rightarrow> writer" where
  "writer_current now entry =
     (let writer = (case entry of None \<Rightarrow> writer_new now | Some w \<Rightarrow> w) in
      case window_reset now (wr_window writer) of (w, renewed) \<Rightarrow>
        if renewed then writer\<lparr>wr_window := w, wr_reserved := False\<rparr> else writer\<lparr>wr_window := w\<rparr>)"

definition put_writer :: "endpoint_key \<Rightarrow> writer \<Rightarrow> limiter \<Rightarrow> limiter" where
  "put_writer key w s = s\<lparr>li_writers := bt_put key w (li_writers s)\<rparr>"

text \<open>Whether a verified new mutation may spend: the protected renewal or a shared budget.\<close>

definition spend :: "bool \<Rightarrow> bool \<Rightarrow> limits \<Rightarrow> duration \<Rightarrow> limiter \<Rightarrow> limiter \<times> bool" where
  "spend reserved known lim now s =
     (if reserved then (s, True)
      else if known then
        (case window_take now (lm_put_per_minute lim) (li_burst s) of (w, b) \<Rightarrow> (s\<lparr>li_burst := w\<rparr>, b))
      else
        (case window_take now (lm_admissions_per_minute lim) (li_admissions s) of
           (w, b) \<Rightarrow> (s\<lparr>li_admissions := w\<rparr>, b)))"

definition limiter_record_at ::
  "endpoint_key \<Rightarrow> bool \<Rightarrow> limits \<Rightarrow> duration \<Rightarrow> limiter \<Rightarrow> limiter \<times> (discovery_error, unit) result" where
  "limiter_record_at key known lim now s0 =
     attempt s0 (ensure (\<not> li_poisoned s0) (Store ''admission state poisoned'')) (\<lambda>_.
     let full = (\<lambda>s. map_of (li_writers s) key = None \<and> length (li_writers s) \<ge> max_identities);
         s = (if full s0
              then s0\<lparr>li_writers := filter (\<lambda>e. since now (wd_start (wr_window (snd e))) < window_length)
                                     (li_writers s0)\<rparr>
              else s0)
     in attempt s (ensure (\<not> (full s0 \<and> length (li_writers s) \<ge> max_identities)) RateLimited) (\<lambda>_.
     let writer = writer_current now (map_of (li_writers s) key);
         s1 = put_writer key writer s
     in attempt s1
          (ensure (\<not> ((case wr_last writer of None \<Rightarrow> False
                        | Some t \<Rightarrow> since now t < lm_put_min_interval lim)
                      \<or> wd_used (wr_window writer) \<ge> lm_writer_per_minute lim)) RateLimited) (\<lambda>_.
     let reserved = (known \<and> \<not> wr_reserved writer) in
     case spend reserved known lim now s1 of (s2, allowed) \<Rightarrow>
       if allowed
       then (put_writer key
               (writer\<lparr>wr_window := (wr_window writer)\<lparr>wd_used := wd_used (wr_window writer) + 1\<rparr>,
                       wr_last := Some now, wr_reserved := (wr_reserved writer \<or> reserved)\<rparr>) s2,
             Inr ())
       else (s2, Inl RateLimited))))"

definition limiter_record ::
  "endpoint_key \<Rightarrow> bool \<Rightarrow> limits \<Rightarrow> duration \<Rightarrow> limiter \<Rightarrow> limiter \<times> (discovery_error, unit) result" where
  "limiter_record key known lim now s = limiter_record_at key known lim now s"

definition limiter_policy ::
  "bool \<Rightarrow> limits \<Rightarrow> duration \<Rightarrow> limiter \<Rightarrow> limiter \<times> (discovery_error, unit) result" where
  "limiter_policy revocations lim now s =
     attempt s (ensure (\<not> li_poisoned s) (Store ''admission state poisoned'')) (\<lambda>_.
     case window_take now (lm_policy_per_minute lim) (if revocations then li_revocations s else li_registry s) of
       (w, allowed) \<Rightarrow>
         ((if revocations then s\<lparr>li_revocations := w\<rparr> else s\<lparr>li_registry := w\<rparr>),
          if allowed then Inr () else Inl RateLimited))"

section \<open>Enrollment bounds\<close>

lemma enroll_from_ok:
  "enroll_from cr n keys e = Inr e' \<Longrightarrow> n \<le> max_identities \<Longrightarrow>
     en_keys e' = en_keys e \<union> set keys \<and> en_unrestricted e' = en_unrestricted e \<and> distinct keys \<and>
     set keys \<inter> en_keys e = {} \<and> n + length keys \<le> max_identities \<and>
     (\<forall>k\<in>set keys. vk_error cr k = None \<and> \<not> vk_weak cr k)"
proof (induction cr n keys e rule: enroll_from.induct)
  case (2 cr n key keys e)
  from "2.prems" have rest: "enroll_from cr (n + 1) keys (e\<lparr>en_keys := insert key (en_keys e)\<rparr>) = Inr e'"
    and here: "n < max_identities" "vk_error cr key = None" "\<not> vk_weak cr key" "key \<notin> en_keys e"
    by (auto simp: res_simps)
  show ?case
    using "2.IH" [OF rest] here by auto
qed simp

section \<open>Runs of the limiter\<close>

lemma since_eq: "since now t = now - t"
  by (simp add: since_def)

text \<open>
  Calls in the order in which they take the limiter's lock, each with the instant it reads
  there; the run keeps the accepted record calls with their times.
\<close>

datatype limiter_call = RecordCall endpoint_key bool duration | PolicyCall bool duration

fun call_time :: "limiter_call \<Rightarrow> duration" where
  "call_time (RecordCall key known now) = now"
| "call_time (PolicyCall revocations now) = now"

fun call_keys :: "limiter_call \<Rightarrow> endpoint_key set" where
  "call_keys (RecordCall key known now) = {key}"
| "call_keys (PolicyCall revocations now) = {}"

type_synonym history = "(endpoint_key \<times> duration) list"

fun limiter_step :: "limits \<Rightarrow> limiter \<times> history \<Rightarrow> limiter_call \<Rightarrow> limiter \<times> history" where
  "limiter_step lim (s, h) (RecordCall key known now) =
     (case limiter_record key known lim now s of (s2, r) \<Rightarrow> (s2, if is_ok r then h @ [(key, now)] else h))"
| "limiter_step lim (s, h) (PolicyCall revocations now) = (fst (limiter_policy revocations lim now s), h)"

definition limiter_run :: "limits \<Rightarrow> duration \<Rightarrow> limiter_call list \<Rightarrow> limiter \<times> history" where
  "limiter_run lim start calls = foldl (limiter_step lim) (limiter_default start, []) calls"

definition accepted_times :: "endpoint_key \<Rightarrow> history \<Rightarrow> duration list" where
  "accepted_times key h = map snd (filter (\<lambda>e. fst e = key) h)"

lemma accepted_times_simps [simp]:
  "accepted_times key [] = []"
  "accepted_times key (h @ [(k, t)]) = accepted_times key h @ (if k = key then [t] else [])"
  by (simp_all add: accepted_times_def)

text \<open>What a writer's entry says of the times at which its owner was admitted.\<close>

definition writer_ok :: "duration \<Rightarrow> duration \<Rightarrow> duration list \<Rightarrow> writer \<Rightarrow> bool" where
  "writer_ok interval clk ts w \<longleftrightarrow>
     wr_last w = (if ts = [] then None else Some (last ts)) \<and>
     (wr_reserved w \<or> wd_used (wr_window w) \<noteq> 0 \<longrightarrow> ts \<noteq> [] \<and> wd_start (wr_window w) \<le> last ts) \<and>
     wd_start (wr_window w) \<le> clk \<and> (\<forall>t\<in>set ts. t \<le> clk) \<and> sorted_wrt (\<lambda>a b. a + interval \<le> b) ts"

definition entry_ok :: "duration \<Rightarrow> duration \<Rightarrow> duration list \<Rightarrow> writer option \<Rightarrow> bool" where
  "entry_ok interval clk ts entry =
     (case entry of None \<Rightarrow> ts = [] | Some w \<Rightarrow> writer_ok interval clk ts w)"

definition limiter_inv :: "limits \<Rightarrow> endpoint_key set \<Rightarrow> duration \<Rightarrow> limiter \<times> history \<Rightarrow> bool" where
  "limiter_inv lim K clk sh \<longleftrightarrow>
     (case sh of (s, h) \<Rightarrow>
        \<not> li_poisoned s \<and> bt_wf (li_writers s) \<and> fst ` set (li_writers s) \<subseteq> K \<and>
        (\<forall>k. entry_ok (lm_put_min_interval lim) clk (accepted_times k h) (map_of (li_writers s) k)))"

lemma writer_ok_mono: "writer_ok i clk ts w \<Longrightarrow> clk \<le> now \<Longrightarrow> writer_ok i now ts w"
  by (auto simp: writer_ok_def)

lemma entry_ok_simps [simp]:
  "entry_ok interval clk ts None \<longleftrightarrow> ts = []"
  "entry_ok interval clk ts (Some w) \<longleftrightarrow> writer_ok interval clk ts w"
  by (simp_all add: entry_ok_def)

lemma entry_ok_mono: "entry_ok i clk ts e \<Longrightarrow> clk \<le> now \<Longrightarrow> entry_ok i now ts e"
  by (cases e) (simp_all add: writer_ok_mono)

lemma limiter_inv_mono: "limiter_inv lim K clk sh \<Longrightarrow> clk \<le> now \<Longrightarrow> limiter_inv lim K now sh"
  by (cases sh) (auto simp: limiter_inv_def intro: entry_ok_mono)

lemma limiter_default_inv: "limiter_inv lim K clk (limiter_default start, [])"
  by (simp add: limiter_inv_def limiter_default_def)

lemma bt_distinct: "bt_wf m \<Longrightarrow> distinct (map fst m)"
  by (induction m) auto

text \<open>With at most 4096 possible callers the table never turns one of them away.\<close>

lemma limiter_room:
  assumes "limiter_inv lim K clk (s, h)" "finite K" "card K \<le> max_identities" "k \<in> K"
    "map_of (li_writers s) k = None"
  shows "length (li_writers s) < max_identities"
proof -
  have "fst ` set (li_writers s) \<subseteq> K - {k}"
    using assms by (auto simp: limiter_inv_def map_of_eq_None_iff)
  then have "card (fst ` set (li_writers s)) \<le> card K - 1"
    using assms by (metis card_Diff_singleton card_mono finite_Diff)
  moreover have "card (fst ` set (li_writers s)) = length (li_writers s)"
    using distinct_card [OF bt_distinct, of "li_writers s"] assms by (simp add: limiter_inv_def)
  moreover have "0 < card K"
    using assms card_gt_0_iff by blast
  ultimately show ?thesis using assms by linarith
qed

section \<open>One call\<close>

definition writer_refuses :: "limits \<Rightarrow> duration \<Rightarrow> writer \<Rightarrow> bool" where
  "writer_refuses lim now w \<longleftrightarrow>
     (case wr_last w of None \<Rightarrow> False | Some t \<Rightarrow> since now t < lm_put_min_interval lim) \<or>
     wd_used (wr_window w) \<ge> lm_writer_per_minute lim"

definition charged :: "bool \<Rightarrow> duration \<Rightarrow> writer \<Rightarrow> writer" where
  "charged known now w =
     w\<lparr>wr_window := (wr_window w)\<lparr>wd_used := wd_used (wr_window w) + 1\<rparr>,
       wr_last := Some now, wr_reserved := (wr_reserved w \<or> known \<and> \<not> wr_reserved w)\<rparr>"

lemma spend_frame:
  "spend reserved known lim now s = (s2, b) \<Longrightarrow>
     li_writers s2 = li_writers s \<and> li_poisoned s2 = li_poisoned s \<and> (reserved \<longrightarrow> b)"
  by (auto simp: spend_def split: if_splits prod.splits)

text \<open>
  A call with a free or existing slot either refuses and leaves the writer's current entry, or
  admits and charges it.
\<close>

lemma record_outcomes:
  assumes "\<not> li_poisoned s" "map_of (li_writers s) key = None \<longrightarrow> length (li_writers s) < max_identities"
    and "limiter_record key known lim now s = (s2, r)"
  defines "w \<equiv> writer_current now (map_of (li_writers s) key)"
  shows "\<not> li_poisoned s2 \<and>
    (r = Inl RateLimited \<and> li_writers s2 = bt_put key w (li_writers s) \<and>
       (writer_refuses lim now w \<or> \<not> (known \<and> \<not> wr_reserved w)) \<or>
     r = Inr () \<and> \<not> writer_refuses lim now w \<and>
       li_writers s2 = bt_put key (charged known now w) (bt_put key w (li_writers s)))"
proof -
  have free: "(map_of (li_writers s) key = None \<and> max_identities \<le> length (li_writers s)) = False"
    using assms(2) by auto
  define s1 where "s1 = put_writer key w s"
  have s1: "li_writers s1 = bt_put key w (li_writers s)" "li_poisoned s1 = li_poisoned s"
    by (simp_all add: s1_def put_writer_def)
  have "limiter_record key known lim now s =
      attempt s1 (ensure (\<not> writer_refuses lim now w) RateLimited) (\<lambda>_.
        case spend (known \<and> \<not> wr_reserved w) known lim now s1 of (s2, allowed) \<Rightarrow>
          if allowed then (put_writer key (charged known now w) s2, Inr ()) else (s2, Inl RateLimited))"
    unfolding s1_def writer_refuses_def charged_def w_def
    using assms(1) by (simp add: limiter_record_def limiter_record_at_def free Let_def del: not_None_eq)
  moreover obtain t b where sp: "spend (known \<and> \<not> wr_reserved w) known lim now s1 = (t, b)"
    by fastforce
  ultimately have "(s2, r) = (if writer_refuses lim now w then (s1, Inl RateLimited)
      else if b then (put_writer key (charged known now w) t, Inr ()) else (t, Inl RateLimited))"
    using assms(3) by simp
  then show ?thesis
    using assms(1) s1 spend_frame [OF sp] by (auto simp: put_writer_def split: if_splits)
qed

lemma writer_current_ok:
  assumes "entry_ok i now ts e"
  shows "writer_ok i now ts (writer_current now e)"
  using assms
  by (cases e)
    (auto simp: writer_ok_def writer_current_def window_reset_def window_new_def writer_new_def
      since_eq Let_def)



lemma spaced_last:
  "sorted_wrt (\<lambda>a b. a + (i::nat) \<le> b) ts \<Longrightarrow> t \<in> set ts \<Longrightarrow> t \<le> last ts"
  by (induction ts) (auto simp: le_trans split: if_splits intro: order.trans [OF le_add1])

lemma charged_ok:
  assumes "writer_ok (lm_put_min_interval lim) now ts w" "\<not> writer_refuses lim now w"
  shows "writer_ok (lm_put_min_interval lim) now (ts @ [now]) (charged known now w)"
proof -
  have "t + lm_put_min_interval lim \<le> now" if "t \<in> set ts" for t
  proof -
    have "wr_last w = Some (last ts)" "last ts \<le> now" "t \<le> last ts"
      using assms(1) that spaced_last [of "lm_put_min_interval lim" ts t] last_in_set [of ts]
      by (auto simp: writer_ok_def split: if_splits)
    then show ?thesis
      using assms(2) by (auto simp: writer_refuses_def since_eq)
  qed
  then show ?thesis
    using assms by (auto simp: writer_ok_def charged_def sorted_wrt_append)
qed

section \<open>Every run\<close>

lemma policy_frame:
  "limiter_policy b lim now s = (s2, r) \<Longrightarrow> li_writers s2 = li_writers s \<and> li_poisoned s2 = li_poisoned s"
  by (auto simp: limiter_policy_def attempt_def split: sum.splits prod.splits if_splits)

lemma record_step_inv:
  assumes inv: "limiter_inv lim K now (s, h)" and K: "finite K" "card K \<le> max_identities" "key \<in> K"
  shows "limiter_inv lim K now (limiter_step lim (s, h) (RecordCall key known now))"
proof -
  let ?i = "lm_put_min_interval lim" and ?e = "map_of (li_writers s) key"
  obtain s2 r where run: "limiter_record key known lim now s = (s2, r)"
    by fastforce
  have facts: "\<not> li_poisoned s" "bt_wf (li_writers s)" "fst ` set (li_writers s) \<subseteq> K"
      and entries: "\<And>k. entry_ok ?i now (accepted_times k h) (map_of (li_writers s) k)"
    using inv by (auto simp: limiter_inv_def)
  define w where "w = writer_current now ?e"
  have w: "writer_ok ?i now (accepted_times key h) w"
    using writer_current_ok [OF entries] by (simp add: w_def)
  have room: "?e = None \<longrightarrow> length (li_writers s) < max_identities"
    using limiter_room [of lim K now s h key] inv K by auto
  note out = record_outcomes [OF facts(1) room run, folded w_def]
  show ?thesis
  proof (cases "r = Inr ()")
    case True
    with out have ws: "li_writers s2 = bt_put key (charged known now w) (bt_put key w (li_writers s))"
      and fine: "\<not> writer_refuses lim now w" and "\<not> li_poisoned s2"
      by auto
    then show ?thesis
      using facts entries K run True charged_ok [OF w fine]
      by (simp add: limiter_inv_def bt_put_wf)
  next
    case False
    with out have "li_writers s2 = bt_put key w (li_writers s)" "\<not> li_poisoned s2" "r = Inl RateLimited"
      by auto
    then show ?thesis
      using facts entries K run w by (simp add: limiter_inv_def bt_put_wf)
  qed
qed

lemma policy_call_inv:
  assumes "limiter_inv lim K now (s, h)"
  shows "limiter_inv lim K now (limiter_step lim (s, h) (PolicyCall b now))"
proof -
  obtain s2 r where "limiter_policy b lim now s = (s2, r)"
    by fastforce
  with policy_frame [OF this] assms show ?thesis
    by (simp add: limiter_inv_def)
qed

lemma limiter_step_inv:
  assumes "limiter_inv lim K clk sh" "clk \<le> call_time c" "call_keys c \<subseteq> K" "finite K" "card K \<le> max_identities"
  shows "limiter_inv lim K (call_time c) (limiter_step lim sh c)"
proof (cases c)
  case (RecordCall key known now)
  then show ?thesis
    using assms limiter_inv_mono [of lim K clk sh now] record_step_inv [of lim K now "fst sh" "snd sh" key known]
    by simp
next
  case (PolicyCall b now)
  then show ?thesis
    using assms limiter_inv_mono [of lim K clk sh now] policy_call_inv [of lim K now "fst sh" "snd sh" b]
    by simp
qed

lemma limiter_run_inv:
  assumes "limiter_inv lim K clk sh" "sorted (clk # map call_time calls)" "(\<Union>c\<in>set calls. call_keys c) \<subseteq> K"
    "finite K" "card K \<le> max_identities"
  shows "limiter_inv lim K (last (clk # map call_time calls)) (foldl (limiter_step lim) sh calls)"
  using assms
proof (induction calls arbitrary: clk sh)
  case (Cons c calls)
  have "limiter_inv lim K (call_time c) (limiter_step lim sh c)"
    using Cons.prems limiter_step_inv [of lim K clk sh c] by simp
  then show ?case
    using Cons.IH [of "call_time c" "limiter_step lim sh c"] Cons.prems by simp
qed simp

lemma limiter_run_state:
  assumes "finite K" "card K \<le> max_identities" "(\<Union>c\<in>set calls. call_keys c) \<subseteq> K"
    "sorted (start # map call_time calls @ [now])"
  shows "limiter_inv lim K now (limiter_run lim start calls)"
proof -
  have "sorted ((start # map call_time calls) @ [now])"
    using assms(4) by simp
  then have s: "sorted (start # map call_time calls)" and le: "last (start # map call_time calls) \<le> now"
    unfolding sorted_append using last_in_set [of "start # map call_time calls"] by (blast, auto)
  show ?thesis
    unfolding limiter_run_def
    by (rule limiter_inv_mono [OF limiter_run_inv [OF limiter_default_inv s assms(3,1,2)] le])
qed

lemma renewal_lemma:
  assumes inv: "limiter_inv lim K now (s, h)" and K: "finite K" "card K \<le> max_identities" "k \<in> K"
    and budget: "0 < lm_writer_per_minute lim"
    and old: "\<forall>t\<in>set (accepted_times k h). t + window_length \<le> now \<and> t + lm_put_min_interval lim \<le> now"
  shows "snd (limiter_record k True lim now s) = Inr ()"
proof -
  obtain s2 r where run: "limiter_record k True lim now s = (s2, r)"
    by fastforce
  have "\<not> li_poisoned s" and entry: "entry_ok (lm_put_min_interval lim) now (accepted_times k h) (map_of (li_writers s) k)"
    using inv by (auto simp: limiter_inv_def)
  moreover have room: "map_of (li_writers s) k = None \<longrightarrow> length (li_writers s) < max_identities"
    using limiter_room [of lim K now s h k] inv K by auto
  moreover have old': "accepted_times k h \<noteq> [] \<Longrightarrow>
      last (accepted_times k h) + window_length \<le> now \<and> last (accepted_times k h) + lm_put_min_interval lim \<le> now"
    using old last_in_set by blast
  moreover define w where "w = writer_current now (map_of (li_writers s) k)"
  have "\<not> wr_reserved w \<and> wd_used (wr_window w) = 0 \<and>
      (accepted_times k h = [] \<longrightarrow> wr_last w = None) \<and>
      (accepted_times k h \<noteq> [] \<longrightarrow> wr_last w = Some (last (accepted_times k h)))"
    using entry old' unfolding w_def
    by (cases "map_of (li_writers s) k")
      (auto simp: writer_ok_def writer_current_def window_reset_def window_new_def writer_new_def since_eq Let_def)
  moreover from this have "\<not> writer_refuses lim now w"
    using old' budget by (cases "accepted_times k h = []") (auto simp: writer_refuses_def since_eq)
  ultimately show ?thesis
    using record_outcomes [OF _ room run] run by (auto simp: w_def)
qed

text \<open>
  C14. Protected renewal. Let the limiter serve any sequence of calls by at most 4096 identities, in
  clock order and with any mix of new identities, known identities and policy writes, so that the
  shared budgets may be exhausted. A known identity whose last admitted mutation is at least one
  minute and one minimum interval old is then admitted.
\<close>

theorem protected_renewal:
  assumes "finite K" "card K \<le> max_identities" "(\<Union>c\<in>set calls. call_keys c) \<subseteq> K" "k \<in> K"
    and "sorted (start # map call_time calls @ [now])" and "0 < lm_writer_per_minute lim"
    and "limiter_run lim start calls = (s, h)"
    and "\<forall>t\<in>set (accepted_times k h). t + window_length \<le> now \<and> t + lm_put_min_interval lim \<le> now"
  shows "snd (limiter_record k True lim now s) = Inr ()"
  using renewal_lemma [OF _ assms(1,2,4,6,8)] limiter_run_state [OF assms(1-3,5)] assms(7) by metis

text \<open>
  Spacing. Two admitted mutations of one identity are never closer than the configured minimum
  interval, whatever the other identities do.
\<close>

theorem writer_spacing:
  assumes "finite K" "card K \<le> max_identities" "(\<Union>c\<in>set calls. call_keys c) \<subseteq> K"
    and "sorted (start # map call_time calls @ [now])"
  shows "sorted_wrt (\<lambda>a b. a + lm_put_min_interval lim \<le> b) (accepted_times k (snd (limiter_run lim start calls)))"
proof -
  have "limiter_inv lim K now (limiter_run lim start calls)"
    using limiter_run_state [OF assms] .
  then have "entry_ok (lm_put_min_interval lim) now (accepted_times k (snd (limiter_run lim start calls)))
      (map_of (li_writers (fst (limiter_run lim start calls))) k)"
    by (simp add: limiter_inv_def split: prod.splits)
  then show ?thesis
    by (cases "map_of (li_writers (fst (limiter_run lim start calls))) k") (auto simp: writer_ok_def)
qed

text \<open>One admission per minute and no shared burst: the newcomer uses it up, its neighbour is refused.\<close>

definition limits_tight :: limits where
  "limits_tight =
     limits_default\<lparr>lm_put_per_minute := 0, lm_admissions_per_minute := 1, lm_put_min_interval := 5\<rparr>"

definition calls_tight :: "limiter_call list" where
  "calls_tight = [RecordCall [1] False 10, RecordCall [2] False 11, RecordCall [1] False 12]"

lemma calls_tight_run: "snd (limiter_run limits_tight 0 calls_tight) = [([1], 10)]"
  by (simp add: limiter_run_def calls_tight_def limiter_default_def limiter_record_def limiter_record_at_def
      limits_tight_def limits_default_def max_identities_def writer_current_def window_reset_def since_eq
      window_length_def from_secs_def nanos_per_sec_def writer_new_def window_new_def put_writer_def
      spend_def window_take_def Let_def)

theorem protected_renewal_witness:
  "snd (limiter_record [1] True limits_tight (from_secs 61) (fst (limiter_run limits_tight 0 calls_tight))) = Inr ()"
proof (rule protected_renewal)
  show "limiter_run limits_tight 0 calls_tight = (fst (limiter_run limits_tight 0 calls_tight), [([1], 10)])"
    using calls_tight_run by (metis prod.collapse)
  show "(\<Union>c\<in>set calls_tight. call_keys c) \<subseteq> {[1], [2]}"
    by (auto simp: calls_tight_def)
  show "card {[1::byte], [2]} \<le> max_identities"
    using card_insert_le_m1 [of 2 "{[2::byte]}" "[1]"] by (simp add: max_identities_def)
qed (simp_all add: calls_tight_def from_secs_def nanos_per_sec_def limits_tight_def limits_default_def
      accepted_times_def window_length_def)

theorem writer_spacing_witness:
  "sorted_wrt (\<lambda>a b. a + 5 \<le> b) (accepted_times [1] (snd (limiter_run limits_tight 0 calls_tight)))"
proof -
  have "(\<Union>c\<in>set calls_tight. call_keys c) \<subseteq> {[1], [2]}" "card {[1::byte], [2]} \<le> max_identities"
    "sorted (0 # map call_time calls_tight @ [12])"
    using card_insert_le_m1 [of 2 "{[2::byte]}" "[1]"] by (auto simp: calls_tight_def max_identities_def)
  from writer_spacing [OF _ this(2,1,3), of limits_tight "[1]"] show ?thesis
    by (simp add: limits_tight_def)
qed

end
