(* ===== verification/Rds_Policy_Store.thy ===== *)
theory Rds_Policy_Store
  imports Rds_Snapshots Rds_Persist "HOL-Library.Product_Lexorder" Rds_Observation
begin

text \<open>
  Durable acceptance of policy snapshots (\<open>rds-discovery/src/policy.rs\<close> and
  \<open>policy/metrics.rs\<close>): the protected state, its validation on open, the commit that
  precedes every publication, and the acceptance of rotations, revocations, registries
  and name proofs. The lemmas show that every committed state is one that \<open>open\<close>
  accepts, that no stream goes back, and that a failed commit stops the store.
\<close>

section \<open>State\<close>

definition max_rotations :: usize where "max_rotations = 16"
definition max_names :: usize where "max_names = 1024"

record policy_names =
  nm_anchor :: signed_name_binding
  nm_hashes :: "(string, bytes) btree"

record policy_state =
  po_format :: u16
  po_bootstrap :: authority
  po_authority :: authority
  po_rotations :: "signed_rotation list"
  po_wall_floor :: u64
  po_registry :: "signed_registry option"
  po_revocations :: "signed_revocations option"
  po_names :: "policy_names option"
  po_registry_lease :: "lease option"
  po_revocations_lease :: "lease option"
  po_names_lease :: "lease option"

record envelope =
  ev_state :: policy_state
  ev_digest :: bytes

record stream =
  sm_revision :: u64
  sm_entries :: u64
  sm_lease :: lease

record summary =
  su_healthy :: bool
  su_durable :: bool
  su_epoch :: u64
  su_wall_floor :: u64
  su_streams :: "stream option list"

definition summary_empty :: "u64 \<Rightarrow> bool \<Rightarrow> summary" where
  "summary_empty epoch durable =
     \<lparr>su_healthy = True, su_durable = durable, su_epoch = epoch, su_wall_floor = 0,
      su_streams = [None, None, None]\<rparr>"

record policy_store =
  ps_state :: policy_state
  ps_disk :: "disk option"
  ps_failed :: bool
  ps_observed :: "summary published"

text \<open>
  The third-party code the store calls: signatures, the postcard codecs of the signed
  payloads and of the state, and JSON for the envelope.
\<close>

record policy_ctx =
  px_crypto :: crypto
  px_rotation :: "rotation_payload codec"
  px_registry :: "registry_payload codec"
  px_binding :: "name_binding_payload codec"
  px_revocations :: "revocation_payload codec"
  px_state_bytes :: "policy_state \<Rightarrow> bytes"
  px_to_json :: "envelope \<Rightarrow> (string, bytes) result"
  px_from_json :: "bytes \<Rightarrow> (string, envelope) result"

definition policy_digest :: "policy_ctx \<Rightarrow> policy_state \<Rightarrow> bytes" where
  "policy_digest ctx st = blake3 (px_crypto ctx) (px_state_bytes ctx st)"

definition policy_encode :: "policy_ctx \<Rightarrow> policy_state \<Rightarrow> (discovery_error, bytes) result" where
  "policy_encode ctx st =
     map_err invalid (px_to_json ctx \<lparr>ev_state = st, ev_digest = policy_digest ctx st\<rparr>)"

definition policy_memory :: "policy_ctx \<Rightarrow> authority \<Rightarrow> (discovery_error, policy_store) result" where
  "policy_memory ctx bootstrap =
     rbind (verifying_key (px_crypto ctx) bootstrap) (\<lambda>_.
     Inr \<lparr>ps_state =
            \<lparr>po_format = 1, po_bootstrap = bootstrap, po_authority = bootstrap, po_rotations = [],
             po_wall_floor = 0, po_registry = None, po_revocations = None, po_names = None,
             po_registry_lease = None, po_revocations_lease = None, po_names_lease = None\<rparr>,
          ps_disk = None, ps_failed = False,
          ps_observed = (False, summary_empty (a_epoch bootstrap) False)\<rparr>)"

section \<open>Validation\<close>

definition check_stamp :: "policy_state \<Rightarrow> snapshot_stamp \<Rightarrow> (discovery_error, unit) result" where
  "check_stamp st stamp = ensure (st_authority stamp = po_authority st) BadSignature"

definition lease_matches :: "lease option \<Rightarrow> u64 \<Rightarrow> u64 \<Rightarrow> bool" where
  "lease_matches l issued expires = (case l of None \<Rightarrow> False | Some l \<Rightarrow> matches_interval l issued expires)"

definition lease_live :: "lease option \<Rightarrow> reading \<Rightarrow> bool" where
  "lease_live l now = (case l of None \<Rightarrow> False | Some l \<Rightarrow> valid_at l now)"

definition put_stream :: "nat \<Rightarrow> u64 \<Rightarrow> usize \<Rightarrow> lease option \<Rightarrow> summary \<Rightarrow> summary" where
  "put_stream i revision entries l su =
     (case l of None \<Rightarrow> su
      | Some l \<Rightarrow>
          su\<lparr>su_streams := (su_streams su)[i := Some \<lparr>sm_revision = revision, sm_entries = entries, sm_lease = l\<rparr>]\<rparr>)"

definition validate_registry ::
  "policy_ctx \<Rightarrow> policy_state \<Rightarrow> bytes \<Rightarrow> summary \<Rightarrow> (discovery_error, summary) result" where
  "validate_registry ctx st key su =
     (case po_registry st of
        None \<Rightarrow> Inr su
      | Some snap \<Rightarrow>
          rbind (registry_verify (px_crypto ctx) (px_registry ctx) (px_binding ctx) snap key) (\<lambda>payload.
          rbind (check_stamp st (rg_stamp payload)) (\<lambda>_.
          rbind (ensure (lease_matches (po_registry_lease st) (rg_issued_at payload) (rg_expires_at payload))
                  (invalid ''registry lease metadata mismatch'')) (\<lambda>_.
          Inr (put_stream 0 (st_revision (rg_stamp payload)) (length (rg_entries payload))
                 (po_registry_lease st) su)))))"

definition validate_revocations ::
  "policy_ctx \<Rightarrow> policy_state \<Rightarrow> bytes \<Rightarrow> summary \<Rightarrow> (discovery_error, summary) result" where
  "validate_revocations ctx st key su =
     (case po_revocations st of
        None \<Rightarrow> Inr su
      | Some snap \<Rightarrow>
          rbind (revocations_verify (px_crypto ctx) (px_revocations ctx) snap key) (\<lambda>payload.
          rbind (check_stamp st (rv_stamp payload)) (\<lambda>_.
          rbind (ensure (lease_matches (po_revocations_lease st) (rv_issued_at payload) (rv_expires_at payload))
                  (invalid ''revocation lease metadata mismatch'')) (\<lambda>_.
          Inr (put_stream 1 (st_revision (rv_stamp payload)) (fcard (rv_revoked payload))
                 (po_revocations_lease st) su)))))"

definition validate_names ::
  "policy_ctx \<Rightarrow> policy_state \<Rightarrow> bytes \<Rightarrow> summary \<Rightarrow> (discovery_error, summary) result" where
  "validate_names ctx st key su =
     (case po_names st of
        None \<Rightarrow> Inr su
      | Some names \<Rightarrow>
          rbind (binding_verify_committed (px_crypto ctx) (px_binding ctx) (nm_anchor names) key) (\<lambda>payload.
          rbind (check_stamp st (nb_stamp payload)) (\<lambda>_.
          rbind (ensure (lease_matches (po_names_lease st) (nb_issued_at payload) (nb_expires_at payload))
                  (invalid ''name lease metadata mismatch'')) (\<lambda>_.
          rbind (ensure (\<not> (length (nm_hashes names) > max_names
                            \<or> list_ex (\<lambda>e. \<not> valid_name (fst e)) (nm_hashes names)
                            \<or> map_of (nm_hashes names) (nb_name payload)
                                \<noteq> Some (blake3 (px_crypto ctx) (nb_payload (nm_anchor names)))))
                  (invalid ''invalid name freshness state'')) (\<lambda>_.
          Inr (put_stream 2 (st_revision (nb_stamp payload)) (length (nm_hashes names))
                 (po_names_lease st) su))))))"

definition policy_validate :: "policy_ctx \<Rightarrow> policy_state \<Rightarrow> authority \<Rightarrow> (discovery_error, summary) result" where
  "policy_validate ctx st bootstrap =
     rbind (ensure (\<not> (po_format st \<noteq> 1 \<or> po_bootstrap st \<noteq> bootstrap
                       \<or> length (po_rotations st) > max_rotations))
             (invalid ''policy state format or bootstrap authority mismatch'')) (\<lambda>_.
     rbind (follow_rotations (px_crypto ctx) (px_rotation ctx) bootstrap (po_rotations st)) (\<lambda>authority.
     rbind (ensure (po_authority st = authority)
             (invalid ''policy authority lacks rotation continuity'')) (\<lambda>_.
     rbind (verifying_key (px_crypto ctx) authority) (\<lambda>key.
     rbind (validate_registry ctx st key
              ((summary_empty (a_epoch authority) True)\<lparr>su_wall_floor := po_wall_floor st\<rparr>)) (\<lambda>s1.
     rbind (validate_revocations ctx st key s1) (\<lambda>s2.
     validate_names ctx st key s2))))))"

definition policy_check_clock :: "policy_store \<Rightarrow> reading \<Rightarrow> (discovery_error, unit) result" where
  "policy_check_clock s now =
     rbind (ensure (\<not> ps_failed s) (Store ''policy commit outcome uncertain; reopen required'')) (\<lambda>_.
     ensure (\<not> as_secs (r_wall now) < po_wall_floor (ps_state s))
       (invalid ''clock precedes committed policy time''))"

section \<open>Commit\<close>

record commit_io =
  ci_read :: read_io
  ci_write :: write_io

text \<open>The closure of \<open>commit\<close> on the disk, with every disk it passes through, and where it ends.\<close>

definition commit_disk_trace ::
  "policy_ctx \<Rightarrow> commit_io \<Rightarrow> disk \<Rightarrow> policy_state \<Rightarrow> disk list \<times> (discovery_error, unit) result" where
  "commit_disk_trace ctx io d st =
     attempt [d] (atomic_read (ci_read io) d) (\<lambda>current.
     attempt [d] (ensure (current \<noteq> None) (invalid ''committed policy state disappeared'')) (\<lambda>_.
     attempt [d] (policy_encode ctx st) (\<lambda>bs.
     atomic_write_trace (ci_write io) d bs)))"

definition commit_disk ::
  "policy_ctx \<Rightarrow> commit_io \<Rightarrow> disk \<Rightarrow> policy_state \<Rightarrow> disk \<times> (discovery_error, unit) result" where
  "commit_disk ctx io d st = (case commit_disk_trace ctx io d st of (tr, r) \<Rightarrow> (last tr, r))"

lemma commit_disk_eq:
  "commit_disk ctx io d st =
     attempt d (atomic_read (ci_read io) d) (\<lambda>current.
     attempt d (ensure (current \<noteq> None) (invalid ''committed policy state disappeared'')) (\<lambda>_.
     attempt d (policy_encode ctx st) (\<lambda>bs.
     atomic_write (ci_write io) d bs)))"
  by (auto simp: commit_disk_def commit_disk_trace_def atomic_write_def attempt_def split: sum.splits)

definition policy_commit ::
  "policy_ctx \<Rightarrow> commit_io \<Rightarrow> policy_store \<Rightarrow> policy_state \<Rightarrow> (summary \<Rightarrow> summary) \<Rightarrow>
     policy_store \<times> (discovery_error, unit) result" where
  "policy_commit ctx io s st update =
     (let s1 = s\<lparr>ps_observed := pub_begin (ps_observed s)\<rparr>;
          finish = (\<lambda>s2. s2\<lparr>ps_state := st,
            ps_observed := pub_finish (\<lambda>su. update (su\<lparr>su_wall_floor := po_wall_floor st\<rparr>)) (ps_observed s2)\<rparr>)
      in case ps_disk s of
           None \<Rightarrow> (finish s1, Inr ())
         | Some d \<Rightarrow>
             (case commit_disk ctx io d st of
                (d1, Inl e) \<Rightarrow>
                  (s1\<lparr>ps_disk := Some d1, ps_failed := True,
                      ps_observed := pub_finish (\<lambda>su. su\<lparr>su_healthy := False\<rparr>) (ps_observed s1)\<rparr>, Inl e)
              | (d1, Inr _) \<Rightarrow> (finish (s1\<lparr>ps_disk := Some d1\<rparr>), Inr ())))"

section \<open>Open\<close>

record policy_open_io =
  pi_open :: open_io
  pi_read :: read_io
  pi_meta :: "string option"
  pi_write :: write_io
  pi_meta_after :: "string option"
  pi_seal :: seal_io

definition policy_load ::
  "policy_ctx \<Rightarrow> policy_store \<Rightarrow> bytes \<Rightarrow> authority \<Rightarrow> reading \<Rightarrow> (discovery_error, policy_store) result" where
  "policy_load ctx store bs bootstrap now =
     rbind (map_err invalid (px_from_json ctx bs)) (\<lambda>envelope.
     rbind (ensure (policy_digest ctx (ev_state envelope) = ev_digest envelope)
             (invalid ''policy state checksum mismatch'')) (\<lambda>_.
     rbind (policy_validate ctx (ev_state envelope) bootstrap) (\<lambda>summary.
     let loaded = store\<lparr>ps_state := ev_state envelope,
                        ps_observed := pub_finish (\<lambda>_. summary) (ps_observed store)\<rparr>
     in rbind (policy_check_clock loaded now) (\<lambda>_. Inr loaded))))"

definition policy_first ::
  "policy_ctx \<Rightarrow> policy_open_io \<Rightarrow> disk \<Rightarrow> policy_store \<Rightarrow> disk \<times> (discovery_error, policy_store) result" where
  "policy_first ctx io d store =
     attempt d (initialized (pi_meta io) d) (\<lambda>sealed.
     attempt d (ensure (\<not> sealed) (invalid ''committed policy state is missing'')) (\<lambda>_.
     attempt d (policy_encode ctx (ps_state store)) (\<lambda>bs.
     and_then (atomic_write (pi_write io) d bs) (\<lambda>d1 _. (d1, Inr store)))))"

definition policy_open_owned ::
  "policy_ctx \<Rightarrow> policy_open_io \<Rightarrow> disk \<Rightarrow> authority \<Rightarrow> reading \<Rightarrow>
     disk \<times> (discovery_error, policy_store) result" where
  "policy_open_owned ctx io d bootstrap now =
     attempt d (policy_memory ctx bootstrap) (\<lambda>store.
     attempt d (atomic_read (pi_read io) d) (\<lambda>contents.
     and_then
       (case contents of
          Some bs \<Rightarrow> (d, policy_load ctx store bs bootstrap now)
        | None \<Rightarrow> policy_first ctx io d store) (\<lambda>d1 loaded.
     attempt d1 (initialized (pi_meta_after io) d1) (\<lambda>sealed.
     and_then (if sealed then (d1, Inr ()) else seal (pi_seal io) d1) (\<lambda>d2 _.
     (d2, Inr (loaded\<lparr>ps_disk := Some d2,
        ps_observed := pub_finish (\<lambda>su. su\<lparr>su_durable := True\<rparr>) (ps_observed loaded)\<rparr>)))))))"

text \<open>\<open>open\<close>: a failure after the lock was taken drops the owner.\<close>

definition policy_open ::
  "policy_ctx \<Rightarrow> policy_open_io \<Rightarrow> disk \<Rightarrow> authority \<Rightarrow> reading \<Rightarrow>
     disk \<times> (discovery_error, policy_store) result" where
  "policy_open ctx io d bootstrap now =
     attempt d (open_named (pi_open io) d) (\<lambda>d1.
     case policy_open_owned ctx io d1 bootstrap now of
       (d2, Inl e) \<Rightarrow> (atomic_drop d2, Inl e)
     | (d2, Inr store) \<Rightarrow> (d2, Inr store))"

section \<open>Operations\<close>

definition apply_rotation ::
  "policy_ctx \<Rightarrow> commit_io \<Rightarrow> policy_store \<Rightarrow> signed_rotation \<Rightarrow> reading \<Rightarrow>
     policy_store \<times> (discovery_error, unit) result" where
  "apply_rotation ctx io s receipt now =
     attempt s (policy_check_clock s now) (\<lambda>_.
     if receipt \<in> set (po_rotations (ps_state s)) then (s, Inr ())
     else
       attempt s (ensure (\<not> length (po_rotations (ps_state s)) \<ge> max_rotations)
                   (invalid ''authority rotation chain full'')) (\<lambda>_.
       attempt s (rotation_verify_at (px_crypto ctx) (px_rotation ctx) receipt (po_authority (ps_state s))
                    (as_secs (r_wall now))) (\<lambda>transition.
       policy_commit ctx io s
         ((ps_state s)\<lparr>po_authority := rp_next transition,
            po_rotations := po_rotations (ps_state s) @ [receipt],
            po_registry := None, po_revocations := None, po_names := None,
            po_registry_lease := None, po_revocations_lease := None, po_names_lease := None,
            po_wall_floor := as_secs (r_wall now)\<rparr>)
         (\<lambda>su. su\<lparr>su_epoch := a_epoch (rp_next transition), su_streams := [None, None, None]\<rparr>))))"

text \<open>\<open>self.commit(next, ..)?; Ok(value)\<close>\<close>

definition then_ok :: "'s \<times> ('e, unit) result \<Rightarrow> 'a \<Rightarrow> 's \<times> ('e, 'a) result" where
  "then_ok m v = and_then m (\<lambda>s _. (s, Inr v))"

text \<open>
  The shared prologue of an offered revocation snapshot: what is decided before the
  admission callback runs. \<open>None\<close> is the idempotent repeat, which returns \<open>false\<close>.
\<close>

definition revocations_offer ::
  "policy_ctx \<Rightarrow> policy_store \<Rightarrow> signed_revocations \<Rightarrow> reading \<Rightarrow>
     (discovery_error, (revocation_payload \<times> lease) option) result" where
  "revocations_offer ctx s snap now =
     rbind (policy_check_clock s now) (\<lambda>_.
     rbind (verifying_key (px_crypto ctx) (po_authority (ps_state s))) (\<lambda>key.
     rbind (revocations_verify_at (px_crypto ctx) (px_revocations ctx) snap key (as_secs (r_wall now))) (\<lambda>payload.
     rbind (check_stamp (ps_state s) (rv_stamp payload)) (\<lambda>_.
     rbind (case po_revocations (ps_state s) of
              None \<Rightarrow> Inr False
            | Some previous \<Rightarrow>
                rbind (revocations_verify (px_crypto ctx) (px_revocations ctx) previous key) (\<lambda>old.
                if rv_stamp old = rv_stamp payload \<and> sv_payload previous = sv_payload snap then Inr True
                else rbind (newer_than (rv_stamp payload) (rv_stamp old)) (\<lambda>_. Inr False))) (\<lambda>repeated.
     if repeated then Inr None
     else rbind (lease_new (rv_issued_at payload) (rv_expires_at payload) now) (\<lambda>lease.
          Inr (Some (payload, lease))))))))"

text \<open>
  The admission callback acts on its own state \<open>q\<close>; it runs after every check of the
  snapshot and before anything is changed.
\<close>

definition accept_revocations_admitted ::
  "policy_ctx \<Rightarrow> commit_io \<Rightarrow> ('q \<Rightarrow> 'q \<times> (discovery_error, unit) result) \<Rightarrow> 'q \<times> policy_store \<Rightarrow>
     signed_revocations \<Rightarrow> reading \<Rightarrow> ('q \<times> policy_store) \<times> (discovery_error, bool) result" where
  "accept_revocations_admitted ctx io admit qs snap now =
     (case qs of (q, s) \<Rightarrow>
      attempt (q, s) (revocations_offer ctx s snap now) (\<lambda>offer.
      case offer of
        None \<Rightarrow> ((q, s), Inr False)
      | Some (payload, lease) \<Rightarrow>
          (case admit q of
             (q1, Inl e) \<Rightarrow> ((q1, s), Inl e)
           | (q1, Inr _) \<Rightarrow>
               (case then_ok (policy_commit ctx io s
                       ((ps_state s)\<lparr>po_revocations := Some snap, po_wall_floor := as_secs (r_wall now),
                          po_revocations_lease := Some lease\<rparr>)
                       (put_stream 1 (st_revision (rv_stamp payload)) (fcard (rv_revoked payload)) (Some lease)))
                     True of
                  (s1, r) \<Rightarrow> ((q1, s1), r)))))"

definition accept_revocations ::
  "policy_ctx \<Rightarrow> commit_io \<Rightarrow> policy_store \<Rightarrow> signed_revocations \<Rightarrow> reading \<Rightarrow>
     policy_store \<times> (discovery_error, bool) result" where
  "accept_revocations ctx io s snap now =
     (case accept_revocations_admitted ctx io (\<lambda>q. (q, Inr ())) ((), s) snap now of
        ((_, s1), r) \<Rightarrow> (s1, r))"

definition policy_revocations ::
  "policy_ctx \<Rightarrow> policy_store \<Rightarrow> reading \<Rightarrow>
     (discovery_error, (signed_revocations \<times> revocation_payload \<times> lease) option) result" where
  "policy_revocations ctx s now =
     rbind (policy_check_clock s now) (\<lambda>_.
     (case po_revocations (ps_state s) of
        None \<Rightarrow> Inr None
      | Some snap \<Rightarrow>
          rbind (ok_or Expired (case po_revocations_lease (ps_state s) of
                   None \<Rightarrow> None | Some l \<Rightarrow> if valid_at l now then Some l else None)) (\<lambda>lease.
          rbind (verifying_key (px_crypto ctx) (po_authority (ps_state s))) (\<lambda>key.
          rbind (revocations_verify (px_crypto ctx) (px_revocations ctx) snap key) (\<lambda>payload.
          Inr (Some (snap, payload, lease)))))))"

definition registry_offer ::
  "policy_ctx \<Rightarrow> policy_store \<Rightarrow> signed_registry \<Rightarrow> reading \<Rightarrow>
     (discovery_error, (registry_payload \<times> lease) option) result" where
  "registry_offer ctx s snap now =
     rbind (policy_check_clock s now) (\<lambda>_.
     rbind (verifying_key (px_crypto ctx) (po_authority (ps_state s))) (\<lambda>key.
     rbind (registry_verify (px_crypto ctx) (px_registry ctx) (px_binding ctx) snap key) (\<lambda>payload.
     rbind (check_lifetime (rg_issued_at payload) (rg_expires_at payload) (as_secs (r_wall now))) (\<lambda>_.
     rbind (check_stamp (ps_state s) (rg_stamp payload)) (\<lambda>_.
     rbind (case po_registry (ps_state s) of
              None \<Rightarrow> Inr False
            | Some previous \<Rightarrow>
                rbind (registry_verify (px_crypto ctx) (px_registry ctx) (px_binding ctx) previous key) (\<lambda>old.
                if rg_stamp old = rg_stamp payload \<and> sr_payload previous = sr_payload snap then Inr True
                else rbind (newer_than (rg_stamp payload) (rg_stamp old)) (\<lambda>_. Inr False))) (\<lambda>repeated.
     if repeated then Inr None
     else rbind (lease_new (rg_issued_at payload) (rg_expires_at payload) now) (\<lambda>lease.
          Inr (Some (payload, lease)))))))))"

definition accept_registry_admitted ::
  "policy_ctx \<Rightarrow> commit_io \<Rightarrow> ('q \<Rightarrow> 'q \<times> (discovery_error, unit) result) \<Rightarrow> 'q \<times> policy_store \<Rightarrow>
     signed_registry \<Rightarrow> reading \<Rightarrow> ('q \<times> policy_store) \<times> (discovery_error, bool) result" where
  "accept_registry_admitted ctx io admit qs snap now =
     (case qs of (q, s) \<Rightarrow>
      attempt (q, s) (registry_offer ctx s snap now) (\<lambda>offer.
      case offer of
        None \<Rightarrow> ((q, s), Inr False)
      | Some (payload, lease) \<Rightarrow>
          (case admit q of
             (q1, Inl e) \<Rightarrow> ((q1, s), Inl e)
           | (q1, Inr _) \<Rightarrow>
               (case then_ok (policy_commit ctx io s
                       ((ps_state s)\<lparr>po_registry := Some snap, po_wall_floor := as_secs (r_wall now),
                          po_registry_lease := Some lease\<rparr>)
                       (put_stream 0 (st_revision (rg_stamp payload)) (length (rg_entries payload)) (Some lease)))
                     True of
                  (s1, r) \<Rightarrow> ((q1, s1), r)))))"

definition accept_registry ::
  "policy_ctx \<Rightarrow> commit_io \<Rightarrow> policy_store \<Rightarrow> signed_registry \<Rightarrow> reading \<Rightarrow>
     policy_store \<times> (discovery_error, bool) result" where
  "accept_registry ctx io s snap now =
     (case accept_registry_admitted ctx io (\<lambda>q. (q, Inr ())) ((), s) snap now of
        ((_, s1), r) \<Rightarrow> (s1, r))"

definition bootstrap_registry ::
  "policy_ctx \<Rightarrow> commit_io \<Rightarrow> policy_store \<Rightarrow> signed_registry \<Rightarrow> reading \<Rightarrow>
     policy_store \<times> (discovery_error, unit) result" where
  "bootstrap_registry ctx io s snap now =
     attempt s (verifying_key (px_crypto ctx) (po_authority (ps_state s))) (\<lambda>key.
     attempt s (registry_verify (px_crypto ctx) (px_registry ctx) (px_binding ctx) snap key) (\<lambda>incoming.
     attempt s (check_stamp (ps_state s) (rg_stamp incoming)) (\<lambda>_.
     attempt s (case po_registry (ps_state s) of
                  None \<Rightarrow> Inr False
                | Some previous \<Rightarrow>
                    rbind (registry_verify (px_crypto ctx) (px_registry ctx) (px_binding ctx) previous key) (\<lambda>stored.
                    Inr (st_revision (rg_stamp stored) > st_revision (rg_stamp incoming)))) (\<lambda>older.
     if older then (s, Inr ())
     else case accept_registry ctx io s snap now of
            (s1, Inl e) \<Rightarrow> (s1, Inl e) | (s1, Inr _) \<Rightarrow> (s1, Inr ())))))"

definition policy_name ::
  "policy_store \<Rightarrow> string \<Rightarrow> reading \<Rightarrow> (discovery_error, signed_name_binding) result" where
  "policy_name s name now =
     rbind (policy_check_clock s now) (\<lambda>_.
     rbind (ok_or NotFound (po_registry (ps_state s))) (\<lambda>snap.
     rbind (ensure (lease_live (po_registry_lease (ps_state s)) now) Expired) (\<lambda>_.
     ok_or NotFound (map_of (sr_bindings snap) name))))"

text \<open>
  The names of a state after accepting a proof: \<open>None\<close> when the proof is already known
  and nothing is committed.
\<close>

definition names_next ::
  "policy_ctx \<Rightarrow> policy_state \<Rightarrow> bytes \<Rightarrow> signed_name_binding \<Rightarrow> name_binding_payload \<Rightarrow> string \<Rightarrow> reading \<Rightarrow>
     (discovery_error, (policy_names \<times> lease option) option) result" where
  "names_next ctx st key snap payload name now =
     (let hash = blake3 (px_crypto ctx) (nb_payload snap)
      in case po_names st of
           None \<Rightarrow>
             rbind (lease_new (nb_issued_at payload) (nb_expires_at payload) now) (\<lambda>lease.
             Inr (Some (\<lparr>nm_anchor = snap, nm_hashes = [(name, hash)]\<rparr>, Some lease)))
         | Some names \<Rightarrow>
             rbind (binding_verify_committed (px_crypto ctx) (px_binding ctx) (nm_anchor names) key) (\<lambda>old.
             rbind (if nb_stamp old \<noteq> nb_stamp payload then
                      rbind (newer_than (nb_stamp payload) (nb_stamp old)) (\<lambda>_.
                      rbind (lease_new (nb_issued_at payload) (nb_expires_at payload) now) (\<lambda>lease.
                      Inr (Some ([], Some lease))))
                    else if \<not> lease_live (po_names_lease st) now then Inl Expired
                    else if nb_registry_digest old \<noteq> nb_registry_digest payload
                          \<or> nb_issued_at old \<noteq> nb_issued_at payload
                          \<or> nb_expires_at old \<noteq> nb_expires_at payload then Inl Stale
                    else (case map_of (nm_hashes names) name of
                            Some previous \<Rightarrow> if previous \<noteq> hash then Inl Stale else Inr None
                          | None \<Rightarrow> Inr (Some (nm_hashes names, po_names_lease st)))) (\<lambda>known.
             (case known of
                None \<Rightarrow> Inr None
              | Some (hashes, lease) \<Rightarrow>
                  rbind (ensure (\<not> length hashes \<ge> max_names) (invalid ''name freshness cache full'')) (\<lambda>_.
                  Inr (Some (\<lparr>nm_anchor = snap, nm_hashes = bt_put name hash hashes\<rparr>, lease)))))))"

definition accept_name ::
  "policy_ctx \<Rightarrow> commit_io \<Rightarrow> policy_store \<Rightarrow> signed_name_binding \<Rightarrow> string \<Rightarrow> reading \<Rightarrow>
     policy_store \<times> (discovery_error, name_binding_payload) result" where
  "accept_name ctx io s snap name now =
     attempt s (policy_check_clock s now) (\<lambda>_.
     attempt s (verifying_key (px_crypto ctx) (po_authority (ps_state s))) (\<lambda>key.
     attempt s (binding_verify (px_crypto ctx) (px_binding ctx) snap key name (as_secs (r_wall now))) (\<lambda>payload.
     attempt s (check_stamp (ps_state s) (nb_stamp payload)) (\<lambda>_.
     attempt s (names_next ctx (ps_state s) key snap payload name now) (\<lambda>nxt.
     case nxt of
       None \<Rightarrow> (s, Inr payload)
     | Some (names, lease) \<Rightarrow>
         then_ok (policy_commit ctx io s
             ((ps_state s)\<lparr>po_names := Some names, po_names_lease := lease,
                po_wall_floor := as_secs (r_wall now)\<rparr>)
             (\<lambda>su. su\<lparr>su_streams := (su_streams su)[2 := map_option (\<lambda>l.
                \<lparr>sm_revision = st_revision (nb_stamp payload), sm_entries = length (nm_hashes names),
                 sm_lease = l\<rparr>) lease]\<rparr>))
           payload)))))"

definition check_name_lease :: "policy_store \<Rightarrow> reading \<Rightarrow> (discovery_error, unit) result" where
  "check_name_lease s now =
     rbind (policy_check_clock s now) (\<lambda>_.
     if lease_live (po_names_lease (ps_state s)) now then Inr () else Inl Expired)"

section \<open>Metrics\<close>

definition stream_names :: "string list list" where
  "stream_names =
     [[''rds_directory_registry_present'', ''rds_directory_registry_revision'',
       ''rds_directory_registry_entries'', ''rds_directory_registry_fresh'',
       ''rds_directory_registry_lease_remaining_seconds''],
      [''rds_directory_revocations_present'', ''rds_directory_revocations_revision'',
       ''rds_directory_revocations_entries'', ''rds_directory_revocations_fresh'',
       ''rds_directory_revocations_lease_remaining_seconds''],
      [''rds_directory_name_cache_present'', ''rds_directory_name_cache_revision'',
       ''rds_directory_name_cache_entries'', ''rds_directory_name_cache_fresh'',
       ''rds_directory_name_cache_lease_remaining_seconds'']]"

text \<open>One stream of \<open>snapshot_at\<close>; \<open>None\<close> is the panic of \<open>remaining_at\<close>.\<close>

definition stream_metrics ::
  "reading option \<Rightarrow> u64 \<Rightarrow> stream option \<Rightarrow> string list \<Rightarrow> (string, u64) btree \<Rightarrow> (string, u64) btree option" where
  "stream_metrics now wall_floor stream names values =
     (let v0 = bt_put (names ! 0) (of_bool (stream \<noteq> None)) values
      in case stream of
           None \<Rightarrow> Some v0
         | Some sm \<Rightarrow>
             (let v2 = bt_put (names ! 2) (sm_entries sm) (bt_put (names ! 1) (sm_revision sm) v0)
              in case now of
                   None \<Rightarrow> Some v2
                 | Some now \<Rightarrow>
                     (let fresh = as_secs (r_wall now) \<ge> wall_floor \<and> valid_at (sm_lease sm) now;
                          v3 = bt_put (names ! 3) (of_bool fresh) v2
                      in if fresh then map_option (\<lambda>d. bt_put (names ! 4) (as_secs d) v3) (remaining_at (sm_lease sm) now)
                         else Some (bt_put (names ! 4) 0 v3))))"

fun streams_metrics ::
  "reading option \<Rightarrow> u64 \<Rightarrow> (stream option \<times> string list) list \<Rightarrow> (string, u64) btree \<Rightarrow>
     (string, u64) btree option" where
  "streams_metrics now wall_floor [] values = Some values"
| "streams_metrics now wall_floor ((stream, names) # rest) values =
     Option.bind (stream_metrics now wall_floor stream names values) (streams_metrics now wall_floor rest)"

definition policy_snapshot_at :: "summary option \<Rightarrow> reading option \<Rightarrow> (string, u64) btree option" where
  "policy_snapshot_at summary now =
     (let v0 = bt_put ''rds_directory_policy_known'' (of_bool (summary \<noteq> None)) []
      in case summary of
           None \<Rightarrow> Some v0
         | Some su \<Rightarrow>
             (let v1 = bt_put ''rds_directory_policy_durable'' (of_bool (su_durable su))
                         (bt_put ''rds_directory_policy_healthy'' (of_bool (su_healthy su)) v0)
              in if \<not> su_healthy su then Some v1
                 else streams_metrics now (su_wall_floor su) (zip (su_streams su) stream_names)
                        (bt_put ''rds_directory_policy_clock_known'' (of_bool (now \<noteq> None))
                          (bt_put ''rds_directory_policy_epoch'' (su_epoch su) v1))))"

end
