(* ===== verification/Rds_Policy_Invariants.thy ===== *)
theory Rds_Policy_Invariants
  imports Rds_Policy_Store
begin

text \<open>
  What the policy store guarantees. Every operation is shown to be a commit of one of four
  abstract transitions (\<open>policy_trans\<close>) or to leave the state alone; the transitions
  preserve validity, move each stream forward only, and keep the published summary equal
  to what validation of the committed state computes.
\<close>

section \<open>Validation, field by field\<close>

definition registry_stream_is :: "policy_ctx \<Rightarrow> policy_state \<Rightarrow> stream option \<Rightarrow> bool" where
  "registry_stream_is ctx st x =
     (case po_registry st of
        None \<Rightarrow> x = None
      | Some snap \<Rightarrow> \<exists>p l.
          registry_verify (px_crypto ctx) (px_registry ctx) (px_binding ctx) snap (a_key (po_authority st)) = Inr p \<and>
          st_authority (rg_stamp p) = po_authority st \<and> po_registry_lease st = Some l \<and>
          matches_interval l (rg_issued_at p) (rg_expires_at p) \<and>
          x = Some \<lparr>sm_revision = st_revision (rg_stamp p), sm_entries = length (rg_entries p), sm_lease = l\<rparr>)"

definition revocations_stream_is :: "policy_ctx \<Rightarrow> policy_state \<Rightarrow> stream option \<Rightarrow> bool" where
  "revocations_stream_is ctx st x =
     (case po_revocations st of
        None \<Rightarrow> x = None
      | Some snap \<Rightarrow> \<exists>p l.
          revocations_verify (px_crypto ctx) (px_revocations ctx) snap (a_key (po_authority st)) = Inr p \<and>
          st_authority (rv_stamp p) = po_authority st \<and> po_revocations_lease st = Some l \<and>
          matches_interval l (rv_issued_at p) (rv_expires_at p) \<and>
          x = Some \<lparr>sm_revision = st_revision (rv_stamp p), sm_entries = fcard (rv_revoked p), sm_lease = l\<rparr>)"

definition names_stream_is :: "policy_ctx \<Rightarrow> policy_state \<Rightarrow> stream option \<Rightarrow> bool" where
  "names_stream_is ctx st x =
     (case po_names st of
        None \<Rightarrow> x = None
      | Some names \<Rightarrow> \<exists>p l.
          binding_verify_committed (px_crypto ctx) (px_binding ctx) (nm_anchor names) (a_key (po_authority st)) = Inr p \<and>
          st_authority (nb_stamp p) = po_authority st \<and> po_names_lease st = Some l \<and>
          matches_interval l (nb_issued_at p) (nb_expires_at p) \<and>
          length (nm_hashes names) \<le> max_names \<and> (\<forall>e\<in>set (nm_hashes names). valid_name (fst e)) \<and>
          map_of (nm_hashes names) (nb_name p) = Some (blake3 (px_crypto ctx) (nb_payload (nm_anchor names))) \<and>
          x = Some \<lparr>sm_revision = st_revision (nb_stamp p), sm_entries = length (nm_hashes names), sm_lease = l\<rparr>)"

definition chain_ok :: "policy_ctx \<Rightarrow> policy_state \<Rightarrow> authority \<Rightarrow> bool" where
  "chain_ok ctx st bootstrap \<longleftrightarrow>
     po_format st = 1 \<and> po_bootstrap st = bootstrap \<and> length (po_rotations st) \<le> max_rotations \<and>
     follow_rotations (px_crypto ctx) (px_rotation ctx) bootstrap (po_rotations st) = Inr (po_authority st) \<and>
     a_epoch (po_authority st) \<noteq> 0 \<and> vk_error (px_crypto ctx) (a_key (po_authority st)) = None"

definition set_stream :: "nat \<Rightarrow> stream option \<Rightarrow> summary \<Rightarrow> summary" where
  "set_stream i x su = (case x of None \<Rightarrow> su | Some _ \<Rightarrow> su\<lparr>su_streams := (su_streams su)[i := x]\<rparr>)"

lemma set_stream_chain:
  "set_stream 2 c (set_stream 1 b (set_stream 0 a ((summary_empty epoch True)\<lparr>su_wall_floor := w\<rparr>))) =
     \<lparr>su_healthy = True, su_durable = True, su_epoch = epoch, su_wall_floor = w, su_streams = [a, b, c]\<rparr>"
  by (cases a; cases b; cases c) (simp_all add: set_stream_def summary_empty_def)

lemma validate_registry_iff:
  "validate_registry ctx st (a_key (po_authority st)) su = Inr su1 \<longleftrightarrow>
     (\<exists>x. registry_stream_is ctx st x \<and>
          su1 = set_stream 0 x su)"
  by (auto simp: validate_registry_def registry_stream_is_def check_stamp_def lease_matches_def
      put_stream_def set_stream_def res_simps split: option.splits)

lemma validate_revocations_iff:
  "validate_revocations ctx st (a_key (po_authority st)) su = Inr su1 \<longleftrightarrow>
     (\<exists>x. revocations_stream_is ctx st x \<and>
          su1 = set_stream 1 x su)"
  by (auto simp: validate_revocations_def revocations_stream_is_def check_stamp_def lease_matches_def
      put_stream_def set_stream_def res_simps split: option.splits)

lemma validate_names_iff:
  "validate_names ctx st (a_key (po_authority st)) su = Inr su1 \<longleftrightarrow>
     (\<exists>x. names_stream_is ctx st x \<and>
          su1 = set_stream 2 x su)"
  by (auto simp: validate_names_def names_stream_is_def check_stamp_def lease_matches_def
      put_stream_def set_stream_def res_simps list_ex_iff not_less split: option.splits)

lemma policy_validate_iff:
  "policy_validate ctx st bootstrap = Inr su \<longleftrightarrow>
     chain_ok ctx st bootstrap \<and>
     (\<exists>a b c. registry_stream_is ctx st a \<and> revocations_stream_is ctx st b \<and> names_stream_is ctx st c \<and>
        su = \<lparr>su_healthy = True, su_durable = True, su_epoch = a_epoch (po_authority st),
              su_wall_floor = po_wall_floor st, su_streams = [a, b, c]\<rparr>)"
proof -
  have "policy_validate ctx st bootstrap = Inr su \<longleftrightarrow>
    chain_ok ctx st bootstrap \<and>
    (\<exists>s1 s2. validate_registry ctx st (a_key (po_authority st))
              ((summary_empty (a_epoch (po_authority st)) True)\<lparr>su_wall_floor := po_wall_floor st\<rparr>) = Inr s1 \<and>
        validate_revocations ctx st (a_key (po_authority st)) s1 = Inr s2 \<and>
        validate_names ctx st (a_key (po_authority st)) s2 = Inr su)"
    by (auto simp: policy_validate_def chain_ok_def res_simps not_less)
  then show ?thesis
    unfolding validate_registry_iff validate_revocations_iff validate_names_iff
    by (auto simp: set_stream_chain [symmetric])
qed

section \<open>Abstract transitions\<close>

inductive policy_trans ::
  "policy_ctx \<Rightarrow> reading \<Rightarrow> policy_state \<Rightarrow> policy_state \<Rightarrow> (summary \<Rightarrow> summary) \<Rightarrow> bool"
  for ctx now where
  t_rotation:
  "rotation_verify_at (px_crypto ctx) (px_rotation ctx) receipt (po_authority st) (as_secs (r_wall now)) = Inr tr \<Longrightarrow>
   receipt \<notin> set (po_rotations st) \<Longrightarrow> length (po_rotations st) < max_rotations \<Longrightarrow>
   policy_trans ctx now st
     (st\<lparr>po_authority := rp_next tr, po_rotations := po_rotations st @ [receipt],
        po_registry := None, po_revocations := None, po_names := None,
        po_registry_lease := None, po_revocations_lease := None, po_names_lease := None,
        po_wall_floor := as_secs (r_wall now)\<rparr>)
     (\<lambda>su. su\<lparr>su_epoch := a_epoch (rp_next tr), su_streams := [None, None, None]\<rparr>)"
| t_revocations:
  "revocations_verify_at (px_crypto ctx) (px_revocations ctx) snap (a_key (po_authority st)) (as_secs (r_wall now)) = Inr p \<Longrightarrow>
   st_authority (rv_stamp p) = po_authority st \<Longrightarrow>
   (\<And>previous. po_revocations st = Some previous \<Longrightarrow>
      \<exists>old. revocations_verify (px_crypto ctx) (px_revocations ctx) previous (a_key (po_authority st)) = Inr old \<and>
            newer_than (rv_stamp p) (rv_stamp old) = Inr ()) \<Longrightarrow>
   lease_new (rv_issued_at p) (rv_expires_at p) now = Inr l \<Longrightarrow>
   policy_trans ctx now st
     (st\<lparr>po_revocations := Some snap, po_wall_floor := as_secs (r_wall now), po_revocations_lease := Some l\<rparr>)
     (put_stream 1 (st_revision (rv_stamp p)) (fcard (rv_revoked p)) (Some l))"
| t_registry:
  "registry_verify (px_crypto ctx) (px_registry ctx) (px_binding ctx) snap (a_key (po_authority st)) = Inr p \<Longrightarrow>
   st_authority (rg_stamp p) = po_authority st \<Longrightarrow>
   (\<And>previous. po_registry st = Some previous \<Longrightarrow>
      \<exists>old. registry_verify (px_crypto ctx) (px_registry ctx) (px_binding ctx) previous (a_key (po_authority st)) = Inr old \<and>
            newer_than (rg_stamp p) (rg_stamp old) = Inr ()) \<Longrightarrow>
   lease_new (rg_issued_at p) (rg_expires_at p) now = Inr l \<Longrightarrow>
   policy_trans ctx now st
     (st\<lparr>po_registry := Some snap, po_wall_floor := as_secs (r_wall now), po_registry_lease := Some l\<rparr>)
     (put_stream 0 (st_revision (rg_stamp p)) (length (rg_entries p)) (Some l))"
| t_name:
  "binding_verify (px_crypto ctx) (px_binding ctx) snap (a_key (po_authority st)) name (as_secs (r_wall now)) = Inr p \<Longrightarrow>
   st_authority (nb_stamp p) = po_authority st \<Longrightarrow>
   names_next ctx st (a_key (po_authority st)) snap p name now = Inr (Some (names, lease)) \<Longrightarrow>
   policy_trans ctx now st
     (st\<lparr>po_names := Some names, po_names_lease := lease, po_wall_floor := as_secs (r_wall now)\<rparr>)
     (\<lambda>su. su\<lparr>su_streams := (su_streams su)[2 := map_option (\<lambda>l.
        \<lparr>sm_revision = st_revision (nb_stamp p), sm_entries = length (nm_hashes names), sm_lease = l\<rparr>) lease]\<rparr>)"

lemma policy_trans_wall: "policy_trans ctx now st st1 up \<Longrightarrow> po_wall_floor st1 = as_secs (r_wall now)"
  by (auto elim: policy_trans.cases)

lemma policy_trans_bootstrap: "policy_trans ctx now st st1 up \<Longrightarrow> po_bootstrap st1 = po_bootstrap st"
  by (auto elim: policy_trans.cases)

section \<open>Transitions preserve validity\<close>

lemmas stream_defs = fun_eq_iff registry_stream_is_def revocations_stream_is_def names_stream_is_def
  chain_ok_def

definition names_wf :: "policy_state \<Rightarrow> bool" where
  "names_wf st = (case po_names st of None \<Rightarrow> True | Some names \<Rightarrow> bt_wf (nm_hashes names))"

text \<open>The two ways in which known names change: a newer stamp clears them, the same stamp adds one.\<close>

lemma names_next_shape:
  assumes "names_next ctx st key snap p name now = Inr (Some (names, lease))" and "po_names st = Some nm"
  obtains old hashes where
    "binding_verify_committed (px_crypto ctx) (px_binding ctx) (nm_anchor nm) key = Inr old"
    "names = \<lparr>nm_anchor = snap, nm_hashes = bt_put name (blake3 (px_crypto ctx) (nb_payload snap)) hashes\<rparr>"
    "length hashes < max_names"
    "newer_than (nb_stamp p) (nb_stamp old) = Inr () \<and> hashes = [] \<and>
       (\<exists>l. lease_new (nb_issued_at p) (nb_expires_at p) now = Inr l \<and> lease = Some l) \<or>
     nb_stamp old = nb_stamp p \<and> nb_registry_digest old = nb_registry_digest p \<and>
       nb_issued_at old = nb_issued_at p \<and> nb_expires_at old = nb_expires_at p \<and>
       hashes = nm_hashes nm \<and> map_of hashes name = None \<and> lease = po_names_lease st"
proof -
  obtain old where old: "binding_verify_committed (px_crypto ctx) (px_binding ctx) (nm_anchor nm) key = Inr old"
    using assms by (auto simp: names_next_def Let_def res_simps)
  note shape = names_next_def Let_def res_simps not_le
  show ?thesis
  proof (cases "nb_stamp old = nb_stamp p")
    case True
    then show ?thesis
      using assms old by (intro that [of old "nm_hashes nm"]) (auto simp: shape split: if_splits option.splits)
  next
    case False
    then show ?thesis
      using assms old by (intro that [of old "[]"]) (auto simp: shape)
  qed
qed

text \<open>What a new set of names looks like.\<close>

lemma names_next_Some:
  assumes "names_next ctx st key snap p name now = Inr (Some (names, lease))"
    and "binding_verify (px_crypto ctx) (px_binding ctx) snap key name t = Inr p"
    and "names_stream_is ctx st x" and "names_wf st" and "key = a_key (po_authority st)"
  shows "nm_anchor names = snap \<and> bt_wf (nm_hashes names) \<and> length (nm_hashes names) \<le> max_names \<and>
    map_of (nm_hashes names) name = Some (blake3 (px_crypto ctx) (nb_payload snap)) \<and>
    (\<forall>e\<in>set (nm_hashes names). valid_name (fst e)) \<and>
    (\<exists>l. lease = Some l \<and> matches_interval l (nb_issued_at p) (nb_expires_at p))"
proof -
  have name: "valid_name name"
    using assms(2) by (simp add: binding_verify_Inr_iff)
  have put: "bt_wf (bt_put name h hs) \<and> length (bt_put name h hs) \<le> max_names \<and>
      map_of (bt_put name h hs) name = Some h \<and> (\<forall>e\<in>set (bt_put name h hs). valid_name (fst e))"
    if "bt_wf hs" "length hs < max_names" "\<forall>e\<in>set hs. valid_name (fst e)" for h hs
  proof -
    have "valid_name (fst e)" if "e \<in> set (bt_put name h hs)" for e
    proof -
      have "fst e \<in> insert name (fst ` set hs)"
        using that by (metis bt_put_keys imageI)
      with \<open>\<forall>e\<in>set hs. valid_name (fst e)\<close> name show ?thesis by auto
    qed
    with that show ?thesis by (simp add: bt_put_length bt_put_wf)
  qed
  show ?thesis
  proof (cases "po_names st")
    case None
    then show ?thesis
      using assms(1) name by (auto simp: names_next_def Let_def res_simps max_names_def dest: lease_new_matches)
  next
    case (Some nm)
    then obtain q l where q: "po_names_lease st = Some l" "matches_interval l (nb_issued_at q) (nb_expires_at q)"
        "binding_verify_committed (px_crypto ctx) (px_binding ctx) (nm_anchor nm) key = Inr q"
        "\<forall>e\<in>set (nm_hashes nm). valid_name (fst e)" "bt_wf (nm_hashes nm)"
      using assms(3,4,5) by (auto simp: names_stream_is_def names_wf_def)
    from assms(1) Some show ?thesis
    proof (rule names_next_shape)
      fix old hashes
      assume "binding_verify_committed (px_crypto ctx) (px_binding ctx) (nm_anchor nm) key = Inr old"
        and names: "names = \<lparr>nm_anchor = snap, nm_hashes = bt_put name (blake3 (px_crypto ctx) (nb_payload snap)) hashes\<rparr>"
        and len: "length hashes < max_names"
        and alt: "newer_than (nb_stamp p) (nb_stamp old) = Inr () \<and> hashes = [] \<and>
            (\<exists>l. lease_new (nb_issued_at p) (nb_expires_at p) now = Inr l \<and> lease = Some l) \<or>
          nb_stamp old = nb_stamp p \<and> nb_registry_digest old = nb_registry_digest p \<and>
            nb_issued_at old = nb_issued_at p \<and> nb_expires_at old = nb_expires_at p \<and>
            hashes = nm_hashes nm \<and> map_of hashes name = None \<and> lease = po_names_lease st"
      then have "old = q" using q(3) by simp
      then have "\<exists>l. lease = Some l \<and> matches_interval l (nb_issued_at p) (nb_expires_at p)"
        using alt q(1,2) lease_new_matches by auto
      moreover have "bt_wf hashes" "\<forall>e\<in>set hashes. valid_name (fst e)"
        using alt q(4,5) by auto
      ultimately show ?thesis
        using put [OF _ len] by (simp add: names)
    qed
  qed
qed

lemma policy_trans_names_wf:
  assumes "policy_trans ctx now st st1 up" and "names_wf st" and "names_stream_is ctx st x"
  shows "names_wf st1"
  using assms
proof (cases rule: policy_trans.cases)
  case (t_name snap name p names lease)
  then show ?thesis
    using names_next_Some [OF t_name(5,3)] assms(2,3) by (simp add: names_wf_def)
qed (auto simp: names_wf_def)

text \<open>
  A transition from a validated state leads to a validated state, and the summary that
  validation would compute is the old one updated as the operation updates it.
\<close>

lemma policy_trans_validate:
  assumes "policy_trans ctx now st st1 up" and "policy_validate ctx st bootstrap = Inr su" and "names_wf st"
  shows "policy_validate ctx st1 bootstrap = Inr (up (su\<lparr>su_wall_floor := po_wall_floor st1\<rparr>))"
proof -
  obtain a b c where v: "chain_ok ctx st bootstrap" "registry_stream_is ctx st a"
      "revocations_stream_is ctx st b" "names_stream_is ctx st c"
    and su: "su = \<lparr>su_healthy = True, su_durable = True, su_epoch = a_epoch (po_authority st),
              su_wall_floor = po_wall_floor st, su_streams = [a, b, c]\<rparr>"
    using assms(2) by (auto simp: policy_validate_iff)
  from assms(1) show ?thesis
  proof (cases rule: policy_trans.cases)
    case (t_rotation receipt tr)
    have "chain_ok ctx st1 bootstrap"
      using v(1) t_rotation(1,4,5) rotation_committed_after_accept [OF t_rotation(3)] t_rotation(3)
      by (auto simp: chain_ok_def follow_rotations_snoc rotation_verify_at_Inr_iff rotation_accepts_def)
    then show ?thesis
      by (simp add: policy_validate_iff t_rotation(1,2) su registry_stream_is_def
          revocations_stream_is_def names_stream_is_def)
  next
    case (t_revocations snap p l)
    have "revocations_stream_is ctx st1
        (Some \<lparr>sm_revision = st_revision (rv_stamp p), sm_entries = fcard (rv_revoked p), sm_lease = l\<rparr>)"
      using t_revocations lease_new_matches
      by (auto simp: revocations_stream_is_def revocations_verify_at_Inr_iff)
    moreover have same: "registry_stream_is ctx st1 = registry_stream_is ctx st"
        "names_stream_is ctx st1 = names_stream_is ctx st" "chain_ok ctx st1 = chain_ok ctx st"
        "po_authority st1 = po_authority st"
      by (simp_all add: t_revocations(1) stream_defs cong: option.case_cong)
    ultimately show ?thesis
      unfolding policy_validate_iff same using v(1,2,4)
      by (intro conjI exI) (auto simp: t_revocations(2) su put_stream_def)
  next
    case (t_registry snap p l)
    have "registry_stream_is ctx st1
        (Some \<lparr>sm_revision = st_revision (rg_stamp p), sm_entries = length (rg_entries p), sm_lease = l\<rparr>)"
      using t_registry lease_new_matches by (auto simp: registry_stream_is_def)
    moreover have same: "revocations_stream_is ctx st1 = revocations_stream_is ctx st"
        "names_stream_is ctx st1 = names_stream_is ctx st" "chain_ok ctx st1 = chain_ok ctx st"
        "po_authority st1 = po_authority st"
      by (simp_all add: t_registry(1) stream_defs cong: option.case_cong)
    ultimately show ?thesis
      unfolding policy_validate_iff same using v(1,3,4)
      by (intro conjI exI) (auto simp: t_registry(2) su put_stream_def)
  next
    case (t_name snap name p names lease)
    note n = names_next_Some [OF t_name(5,3) v(4) assms(3) refl]
    then obtain l where l: "lease = Some l" "matches_interval l (nb_issued_at p) (nb_expires_at p)" by blast
    have "nb_name p = name"
      using t_name(3) by (simp add: binding_verify_Inr_iff)
    then have "names_stream_is ctx st1
        (Some \<lparr>sm_revision = st_revision (nb_stamp p), sm_entries = length (nm_hashes names), sm_lease = l\<rparr>)"
      using t_name n l binding_committed_after_verify [OF t_name(3)] by (auto simp: names_stream_is_def)
    moreover have same: "revocations_stream_is ctx st1 = revocations_stream_is ctx st"
        "registry_stream_is ctx st1 = registry_stream_is ctx st" "chain_ok ctx st1 = chain_ok ctx st"
        "po_authority st1 = po_authority st"
      by (simp_all add: t_name(1) stream_defs cong: option.case_cong)
    ultimately show ?thesis
      unfolding policy_validate_iff same using v(1,2,3)
      by (intro conjI exI) (auto simp: t_name(2) l su)
  qed
qed

section \<open>Operations refine the transitions\<close>

datatype policy_op =
    OpRotation signed_rotation
  | OpRevocations signed_revocations
  | OpRegistry signed_registry
  | OpBootstrap signed_registry
  | OpName signed_name_binding string

type_synonym policy_msg = "policy_op \<times> commit_io \<times> reading"

definition forget :: "'s \<times> ('e, 'a) result \<Rightarrow> 's \<times> ('e, unit) result" where
  "forget m = (case m of (s, Inl e) \<Rightarrow> (s, Inl e) | (s, Inr _) \<Rightarrow> (s, Inr ()))"

fun policy_step :: "policy_ctx \<Rightarrow> policy_store \<Rightarrow> policy_msg \<Rightarrow> policy_store \<times> (discovery_error, unit) result" where
  "policy_step ctx s (OpRotation r, io, now) = apply_rotation ctx io s r now"
| "policy_step ctx s (OpRevocations snap, io, now) = forget (accept_revocations ctx io s snap now)"
| "policy_step ctx s (OpRegistry snap, io, now) = forget (accept_registry ctx io s snap now)"
| "policy_step ctx s (OpBootstrap snap, io, now) = bootstrap_registry ctx io s snap now"
| "policy_step ctx s (OpName snap name, io, now) = forget (accept_name ctx io s snap name now)"

text \<open>An operation either leaves the store as it is or commits one transition.\<close>

definition commits :: "policy_ctx \<Rightarrow> commit_io \<Rightarrow> reading \<Rightarrow> policy_store \<Rightarrow> policy_store \<Rightarrow>
    (discovery_error, unit) result \<Rightarrow> bool" where
  "commits ctx io now s s1 r \<longleftrightarrow>
     s1 = s \<or>
     (\<exists>st up. policy_check_clock s now = Inr () \<and> policy_trans ctx now (ps_state s) st up \<and>
        policy_commit ctx io s st up = (s1, r))"

lemma forget_then_ok [simp]: "forget (then_ok m v) = m"
  by (cases m; cases "snd m") (auto simp: forget_def then_ok_def and_then_def split: sum.splits)

lemma forget_simps [simp]: "forget (s, Inl e) = (s, Inl e)" "forget (s, Inr x) = (s, Inr ())"
  by (simp_all add: forget_def)

lemma forget_attempt: "forget (attempt s r k) = attempt s r (\<lambda>x. forget (k x))"
  by (cases r) simp_all



lemma apply_rotation_commits:
  assumes "apply_rotation ctx io s receipt now = (s1, r)"
  shows "commits ctx io now s s1 r"
  using assms unfolding apply_rotation_def commits_def
  by (auto simp: attempt_eq_iff res_simps not_le intro!: t_rotation split: if_splits)

lemma revocations_offer_Some:
  assumes "revocations_offer ctx s snap now = Inr (Some (p, l))"
  shows "policy_check_clock s now = Inr () \<and>
    policy_trans ctx now (ps_state s)
     ((ps_state s)\<lparr>po_revocations := Some snap, po_wall_floor := as_secs (r_wall now), po_revocations_lease := Some l\<rparr>)
     (put_stream 1 (st_revision (rv_stamp p)) (fcard (rv_revoked p)) (Some l))"
  using assms
  by (auto simp: revocations_offer_def check_stamp_def res_simps simp del: One_nat_def
      intro!: t_revocations split: if_splits)

lemma registry_offer_Some:
  assumes "registry_offer ctx s snap now = Inr (Some (p, l))"
  shows "policy_check_clock s now = Inr () \<and>
    policy_trans ctx now (ps_state s)
     ((ps_state s)\<lparr>po_registry := Some snap, po_wall_floor := as_secs (r_wall now), po_registry_lease := Some l\<rparr>)
     (put_stream 0 (st_revision (rg_stamp p)) (length (rg_entries p)) (Some l))"
  using assms
  by (auto simp: registry_offer_def check_stamp_def res_simps intro!: t_registry split: if_splits)

lemma commits_same [simp]: "commits ctx io now s s r"
  by (simp add: commits_def)

lemma accept_revocations_eq:
  "forget (accept_revocations ctx io s snap now) =
     attempt s (revocations_offer ctx s snap now) (\<lambda>offer.
       case offer of None \<Rightarrow> (s, Inr ())
       | Some (p, l) \<Rightarrow>
           policy_commit ctx io s
             ((ps_state s)\<lparr>po_revocations := Some snap, po_wall_floor := as_secs (r_wall now), po_revocations_lease := Some l\<rparr>)
             (put_stream 1 (st_revision (rv_stamp p)) (fcard (rv_revoked p)) (Some l)))"
  by (auto simp: accept_revocations_def accept_revocations_admitted_def attempt_def then_ok_def and_then_def forget_def
      split: sum.splits option.splits prod.splits)

lemma accept_registry_eq:
  "forget (accept_registry ctx io s snap now) =
     attempt s (registry_offer ctx s snap now) (\<lambda>offer.
       case offer of None \<Rightarrow> (s, Inr ())
       | Some (p, l) \<Rightarrow>
           policy_commit ctx io s
             ((ps_state s)\<lparr>po_registry := Some snap, po_wall_floor := as_secs (r_wall now), po_registry_lease := Some l\<rparr>)
             (put_stream 0 (st_revision (rg_stamp p)) (length (rg_entries p)) (Some l)))"
  by (auto simp: accept_registry_def accept_registry_admitted_def attempt_def then_ok_def and_then_def forget_def
      split: sum.splits option.splits prod.splits)

lemma accept_revocations_commits:
  assumes "forget (accept_revocations ctx io s snap now) = (s1, r)"
  shows "commits ctx io now s s1 r"
  using assms revocations_offer_Some [of ctx s snap now] unfolding accept_revocations_eq commits_def
  by (fastforce simp: attempt_eq_iff split: option.splits prod.splits)

lemma accept_registry_commits:
  assumes "forget (accept_registry ctx io s snap now) = (s1, r)"
  shows "commits ctx io now s s1 r"
  using assms registry_offer_Some [of ctx s snap now] unfolding accept_registry_eq commits_def
  by (fastforce simp: attempt_eq_iff split: option.splits prod.splits)

lemma bootstrap_registry_commits:
  assumes "bootstrap_registry ctx io s snap now = (s1, r)"
  shows "commits ctx io now s s1 r"
proof -
  have "s1 = s \<or> forget (accept_registry ctx io s snap now) = (s1, r)"
    using assms by (auto simp: bootstrap_registry_def attempt_eq_iff forget_def split: if_splits prod.splits sum.splits)
  then show ?thesis using accept_registry_commits by auto
qed

lemma accept_name_commits:
  assumes "forget (accept_name ctx io s snap name now) = (s1, r)"
  shows "commits ctx io now s s1 r"
proof (cases "s1 = s")
  case False
  then obtain p names lease where p: "policy_check_clock s now = Inr ()"
      "binding_verify (px_crypto ctx) (px_binding ctx) snap (a_key (po_authority (ps_state s))) name
         (as_secs (r_wall now)) = Inr p"
      "st_authority (nb_stamp p) = po_authority (ps_state s)"
      "names_next ctx (ps_state s) (a_key (po_authority (ps_state s))) snap p name now = Inr (Some (names, lease))"
    and c: "policy_commit ctx io s
       ((ps_state s)\<lparr>po_names := Some names, po_names_lease := lease, po_wall_floor := as_secs (r_wall now)\<rparr>)
       (\<lambda>su. su\<lparr>su_streams := (su_streams su)[2 := map_option (\<lambda>l.
          \<lparr>sm_revision = st_revision (nb_stamp p), sm_entries = length (nm_hashes names), sm_lease = l\<rparr>) lease]\<rparr>)
       = (s1, r)"
    using assms
    by (auto simp: accept_name_def forget_attempt attempt_eq_iff check_stamp_def res_simps
        split: option.splits)
  then show ?thesis
    using t_name [OF p(2,3,4)] unfolding commits_def by blast
qed simp

lemma policy_step_commits:
  assumes "policy_step ctx s (op, io, now) = (s1, r)"
  shows "commits ctx io now s s1 r"
  using assms
  by (cases op) (auto intro: apply_rotation_commits accept_revocations_commits accept_registry_commits
      bootstrap_registry_commits accept_name_commits)

section \<open>Commit\<close>

lemma policy_commit_cases:
  assumes "policy_commit ctx io s st up = (s1, r)"
  obtains (ok) "r = Inr ()" "ps_state s1 = st" "ps_failed s1 = ps_failed s"
      "ps_observed s1 = (False, up ((snd (ps_observed s))\<lparr>su_wall_floor := po_wall_floor st\<rparr>))"
      "ps_disk s = None \<and> ps_disk s1 = None \<or>
       (\<exists>d d1. ps_disk s = Some d \<and> commit_disk ctx io d st = (d1, Inr ()) \<and> ps_disk s1 = Some d1)"
  | (failed) e d d1 where "r = Inl e" "ps_state s1 = ps_state s" "ps_failed s1"
      "ps_observed s1 = (False, (snd (ps_observed s))\<lparr>su_healthy := False\<rparr>)"
      "ps_disk s = Some d" "commit_disk ctx io d st = (d1, Inl e)" "ps_disk s1 = Some d1"
  using assms
  by (auto simp: policy_commit_def Let_def pub_begin_def pub_finish_def split: option.splits prod.splits sum.splits)

text \<open>
  C20. A commit of uncertain outcome stops the store: when an operation fails after it
  reached the disk, the state in memory is still the old one, the published summary is
  marked unhealthy, and until the store is reopened no later operation changes anything,
  every operation other than the start-up import of an older registry is refused, and so
  are the queries.
\<close>

theorem failed_commit_is_fail_stop:
  assumes "policy_step ctx s (op, io, now) = (s1, Inl e)" and "s1 \<noteq> s"
  shows "ps_state s1 = ps_state s \<and> \<not> su_healthy (snd (ps_observed s1)) \<and>
         fst (policy_step ctx s1 m) = s1 \<and>
         ((\<forall>snap. fst m \<noteq> OpBootstrap snap) \<longrightarrow> \<not> is_ok (snd (policy_step ctx s1 m))) \<and>
         \<not> is_ok (policy_revocations ctx s1 t) \<and> \<not> is_ok (policy_name s1 n t)"
proof -
  obtain st up where "policy_commit ctx io s st up = (s1, Inl e)"
    using policy_step_commits [OF assms(1)] assms(2) by (auto simp: commits_def)
  then have st: "ps_state s1 = ps_state s" "ps_failed s1" "\<not> su_healthy (snd (ps_observed s1))"
    by (auto elim: policy_commit_cases)
  have clock: "policy_check_clock s1 now1 = Inl (Store ''policy commit outcome uncertain; reopen required'')"
    for now1 using st(2) by (simp add: policy_check_clock_def)
  obtain op1 io1 now1 where m: "m = (op1, io1, now1)" by (cases m)
  have "fst (policy_step ctx s1 m) = s1"
    using policy_step_commits [of ctx s1 op1 io1 now1 "fst (policy_step ctx s1 m)" "snd (policy_step ctx s1 m)"]
    by (simp add: commits_def clock m)
  moreover have "\<not> is_ok (snd (policy_step ctx s1 m))" if "\<forall>snap. op1 \<noteq> OpBootstrap snap"
    using that
    by (cases op1) (simp_all add: m clock apply_rotation_def accept_revocations_eq accept_registry_eq
        revocations_offer_def registry_offer_def accept_name_def)
  ultimately show ?thesis
    using st m by (simp add: policy_revocations_def policy_name_def clock)
qed

section \<open>The store invariant\<close>

text \<open>
  The committed state validates, and while the store is healthy the published summary is
  the one validation computes (up to the flag that says whether a disk backs it).
\<close>

definition policy_inv :: "policy_ctx \<Rightarrow> authority \<Rightarrow> policy_store \<Rightarrow> bool" where
  "policy_inv ctx bootstrap s \<longleftrightarrow>
     names_wf (ps_state s) \<and>
     (\<exists>su. policy_validate ctx (ps_state s) bootstrap = Inr su \<and>
        (\<not> ps_failed s \<longrightarrow> (\<exists>durable. ps_observed s = (False, su\<lparr>su_durable := durable\<rparr>))))"

text \<open>
  A store fresh from \<open>memory\<close> or \<open>open\<close>. The condition on the names is the type invariant
  of the \<open>BTreeMap\<close> that decoding builds.
\<close>

definition policy_opened :: "policy_ctx \<Rightarrow> authority \<Rightarrow> policy_store \<Rightarrow> bool" where
  "policy_opened ctx bootstrap s \<longleftrightarrow>
     policy_memory ctx bootstrap = Inr s \<or>
     (\<exists>io d now d1. policy_open ctx io d bootstrap now = (d1, Inr s)) \<and> names_wf (ps_state s)"

definition policy_next :: "policy_ctx \<Rightarrow> policy_store \<Rightarrow> policy_msg \<Rightarrow> policy_store" where
  "policy_next ctx s m = fst (policy_step ctx s m)"

lemma policy_memory_inv:
  assumes "policy_memory ctx b = Inr s"
  shows "policy_inv ctx b s"
  using assms
  by (auto simp: policy_memory_def policy_inv_def policy_validate_iff chain_ok_def registry_stream_is_def
      revocations_stream_is_def names_stream_is_def names_wf_def summary_empty_def max_rotations_def res_simps)

lemma policy_load_inv:
  assumes "policy_load ctx store bs b now = Inr s" and "names_wf (ps_state s)"
  shows "policy_inv ctx b s"
proof -
  obtain st su where "policy_validate ctx st b = Inr su" "ps_state s = st" "ps_observed s = (False, su)"
    using assms(1) by (auto simp: policy_load_def pub_finish_def Let_def res_simps)
  moreover from this(1) have "su = su\<lparr>su_durable := True\<rparr>"
    by (auto simp: policy_validate_iff)
  ultimately show ?thesis using assms(2) unfolding policy_inv_def by metis
qed

lemma policy_inv_durable:
  "policy_inv ctx b s \<Longrightarrow>
     policy_inv ctx b (s\<lparr>ps_disk := d, ps_observed := pub_finish (\<lambda>su. su\<lparr>su_durable := True\<rparr>) (ps_observed s)\<rparr>)"
  by (auto simp: policy_inv_def pub_finish_def)

lemma policy_open_cases:
  assumes "policy_open ctx io d b now = (d1, Inr s)"
  obtains store where "s = store\<lparr>ps_disk := Some d1,
      ps_observed := pub_finish (\<lambda>su. su\<lparr>su_durable := True\<rparr>) (ps_observed store)\<rparr>"
    "policy_memory ctx b = Inr store \<or> (\<exists>st0 bs. policy_load ctx st0 bs b now = Inr store)"
proof -
  obtain d0 where c: "(case policy_open_owned ctx io d0 b now of
       (d2, Inl e) \<Rightarrow> (atomic_drop d2, Inl e) | (d2, Inr store) \<Rightarrow> (d2, Inr store)) = (d1, Inr s)"
    using assms unfolding policy_open_def attempt_Inr_iff by blast
  obtain d2 x where x: "policy_open_owned ctx io d0 b now = (d2, x)" by fastforce
  with c have "policy_open_owned ctx io d0 b now = (d1, Inr s)" by (cases x) auto
  then obtain store0 contents d2 loaded where "policy_memory ctx b = Inr store0"
    and c: "(case contents of Some bs \<Rightarrow> (d0, policy_load ctx store0 bs b now)
        | None \<Rightarrow> policy_first ctx io d0 store0) = (d2, Inr loaded)"
    and s: "s = loaded\<lparr>ps_disk := Some d1,
      ps_observed := pub_finish (\<lambda>su. su\<lparr>su_durable := True\<rparr>) (ps_observed loaded)\<rparr>"
    unfolding policy_open_owned_def attempt_Inr_iff and_then_Inr_iff prod.inject sum.inject
    by (elim exE conjE) metis
  then have "policy_memory ctx b = Inr loaded \<or> (\<exists>st0 bs. policy_load ctx st0 bs b now = Inr loaded)"
    by (cases contents) (auto simp: policy_first_def res_simps)
  with s show ?thesis by (rule that)
qed

lemma policy_opened_inv: "policy_opened ctx b s \<Longrightarrow> policy_inv ctx b s"
proof -
  assume "policy_opened ctx b s"
  then consider (memory) "policy_memory ctx b = Inr s"
    | (disk) io d now d1 where "policy_open ctx io d b now = (d1, Inr s)" "names_wf (ps_state s)"
    by (auto simp: policy_opened_def)
  then show ?thesis
  proof cases
    case memory
    then show ?thesis using policy_memory_inv by blast
  next
    case disk
    from disk(1) show ?thesis
    proof (cases rule: policy_open_cases)
      case (1 store)
      have "names_wf (ps_state store)" using disk(2) 1(1) by simp
      then have "policy_inv ctx b store"
        using 1(2) policy_memory_inv policy_load_inv by blast
      then show ?thesis using 1(1) policy_inv_durable by simp
    qed
  qed
qed

lemma policy_trans_durable:
  "policy_trans ctx now st st1 up \<Longrightarrow> up (su\<lparr>su_durable := x\<rparr>) = (up su)\<lparr>su_durable := x\<rparr>"
  by (auto simp: put_stream_def elim!: policy_trans.cases)

lemma policy_step_inv:
  assumes "policy_inv ctx b s"
  shows "policy_inv ctx b (policy_next ctx s m)"
proof -
  obtain op io now where m: "m = (op, io, now)" by (cases m)
  obtain s1 r where step: "policy_step ctx s m = (s1, r)" by fastforce
  obtain su where su: "policy_validate ctx (ps_state s) b = Inr su" and wf: "names_wf (ps_state s)"
    and obs: "\<not> ps_failed s \<Longrightarrow> \<exists>x. ps_observed s = (False, su\<lparr>su_durable := x\<rparr>)"
    using assms by (auto simp: policy_inv_def)
  have "policy_inv ctx b s1"
  proof (cases "s1 = s")
    case False
    then obtain st up where clock: "policy_check_clock s now = Inr ()"
      and tr: "policy_trans ctx now (ps_state s) st up" and c: "policy_commit ctx io s st up = (s1, r)"
      using policy_step_commits step m by (fastforce simp: commits_def)
    have valid: "policy_validate ctx st b = Inr (up (su\<lparr>su_wall_floor := po_wall_floor st\<rparr>))"
      by (rule policy_trans_validate [OF tr su wf])
    have wf1: "names_wf st"
      using su wf policy_trans_names_wf [OF tr] by (auto simp: policy_validate_iff)
    have healthy: "\<not> ps_failed s" using clock by (simp add: policy_check_clock_def res_simps)
    from c show ?thesis
    proof (cases rule: policy_commit_cases)
      case ok
      obtain x where x: "ps_observed s = (False, su\<lparr>su_durable := x\<rparr>)"
        using obs [OF healthy] ..
      have comm: "(su\<lparr>su_durable := x\<rparr>)\<lparr>su_wall_floor := w\<rparr> = (su\<lparr>su_wall_floor := w\<rparr>)\<lparr>su_durable := x\<rparr>" for w
        by (cases su) simp
      have "ps_observed s1 = (False, (up (su\<lparr>su_wall_floor := po_wall_floor st\<rparr>))\<lparr>su_durable := x\<rparr>)"
        using ok(4) unfolding x snd_conv comm policy_trans_durable [OF tr] .
      then show ?thesis
        unfolding policy_inv_def using valid wf1 ok(2) by auto
    next
      case failed
      then show ?thesis using su wf by (simp add: policy_inv_def)
    qed
  qed (use assms in simp)
  then show ?thesis by (simp add: policy_next_def step)
qed



section \<open>The published summary is exact\<close>

text \<open>
  What is published is what validation of the state computes, with the two flags validation does
  not decide: whether a disk backs the store, and whether its last commit is certain.
\<close>

definition policy_exact :: "policy_ctx \<Rightarrow> authority \<Rightarrow> policy_store \<Rightarrow> bool" where
  "policy_exact ctx bootstrap s \<longleftrightarrow>
     policy_inv ctx bootstrap s \<and>
     (\<exists>su. policy_validate ctx (ps_state s) bootstrap = Inr su \<and>
        ps_observed s = (False, su\<lparr>su_durable := (ps_disk s \<noteq> None), su_healthy := \<not> ps_failed s\<rparr>))"

lemma policy_validate_flags:
  "policy_validate ctx st b = Inr su \<Longrightarrow> su_healthy su \<and> su_durable su"
  by (auto simp: policy_validate_iff)

lemma summary_flags:
  "su_healthy su \<Longrightarrow> su\<lparr>su_durable := x\<rparr> = su\<lparr>su_durable := x, su_healthy := True\<rparr>"
  by (cases su) simp

lemma policy_exactI:
  assumes "policy_inv ctx b s" "\<not> ps_failed s" "su_durable (snd (ps_observed s)) = (ps_disk s \<noteq> None)"
  shows "policy_exact ctx b s"
proof -
  obtain su x where su: "policy_validate ctx (ps_state s) b = Inr su" "ps_observed s = (False, su\<lparr>su_durable := x\<rparr>)"
    using assms(1,2) by (auto simp: policy_inv_def)
  moreover have "x = (ps_disk s \<noteq> None)" using assms(3) su(2) by simp
  ultimately have "ps_observed s = (False, su\<lparr>su_durable := (ps_disk s \<noteq> None), su_healthy := \<not> ps_failed s\<rparr>)"
    using summary_flags [of su x] policy_validate_flags [OF su(1)] assms(2) by simp
  then show ?thesis using assms(1) su(1) unfolding policy_exact_def by blast
qed

lemma policy_opened_exact:
  assumes "policy_opened ctx b s"
  shows "policy_exact ctx b s"
proof (rule policy_exactI [OF policy_opened_inv [OF assms]])
  from assms consider (memory) "policy_memory ctx b = Inr s"
    | (disk) io d now d1 where "policy_open ctx io d b now = (d1, Inr s)"
    by (auto simp: policy_opened_def)
  then have "\<not> ps_failed s \<and> su_durable (snd (ps_observed s)) = (ps_disk s \<noteq> None)"
  proof cases
    case memory
    then show ?thesis by (auto simp: policy_memory_def summary_empty_def res_simps)
  next
    case disk
    then show ?thesis
    proof (cases rule: policy_open_cases)
      case (1 store)
      then have "\<not> ps_failed store"
        by (auto simp: policy_memory_def policy_load_def policy_check_clock_def Let_def res_simps)
      with 1(1) show ?thesis by (simp add: pub_finish_def)
    qed
  qed
  then show "\<not> ps_failed s" "su_durable (snd (ps_observed s)) = (ps_disk s \<noteq> None)" by simp_all
qed

lemma policy_step_exact:
  assumes "policy_exact ctx b s"
  shows "policy_exact ctx b (policy_next ctx s m)"
proof -
  obtain op io now where m: "m = (op, io, now)" by (cases m)
  obtain s1 r where step: "policy_step ctx s m = (s1, r)" by fastforce
  have inv: "policy_inv ctx b s" and inv1: "policy_inv ctx b s1"
    using assms policy_step_inv [of ctx b s m] by (simp_all add: policy_exact_def policy_next_def step)
  obtain su where su: "policy_validate ctx (ps_state s) b = Inr su"
    and obs: "ps_observed s = (False, su\<lparr>su_durable := (ps_disk s \<noteq> None), su_healthy := \<not> ps_failed s\<rparr>)"
    using assms by (auto simp: policy_exact_def)
  have "policy_exact ctx b s1"
  proof (cases "s1 = s")
    case False
    then obtain st up where clock: "policy_check_clock s now = Inr ()"
      and tr: "policy_trans ctx now (ps_state s) st up" and c: "policy_commit ctx io s st up = (s1, r)"
      using policy_step_commits step m by (fastforce simp: commits_def)
    have healthy: "\<not> ps_failed s" using clock by (simp add: policy_check_clock_def res_simps)
    from c show ?thesis
    proof (cases rule: policy_commit_cases)
      case ok
      have "su_durable (up u) = su_durable u" for u
        using tr by (auto simp: put_stream_def elim!: policy_trans.cases)
      then show ?thesis
        using ok obs healthy inv1 by (intro policy_exactI) auto
    next
      case failed
      then have "ps_observed s1 = (False, su\<lparr>su_durable := (ps_disk s1 \<noteq> None), su_healthy := \<not> ps_failed s1\<rparr>)"
        using obs by (cases su) simp
      then show ?thesis using inv1 su failed(2) unfolding policy_exact_def by auto
    qed
  qed (use assms in simp)
  then show ?thesis by (simp add: policy_next_def step)
qed

interpretation policy_published: inductive_invariant
  "policy_opened ctx bootstrap" "\<lambda>s t. \<exists>m. t = policy_next ctx s m" "policy_exact ctx bootstrap"
  for ctx bootstrap
  by unfold_locales (auto intro: policy_opened_exact policy_step_exact)

section \<open>Revocations never go back\<close>

text \<open>
  The revocation stream as a revision-ordered register. A message is accepted when it
  changes the authority or the stored snapshot; the floor is the authority's epoch with the
  revision of the stored snapshot, ordered lexicographically.
\<close>

definition revocations_revision :: "policy_ctx \<Rightarrow> policy_state \<Rightarrow> u64" where
  "revocations_revision ctx st =
     (case po_revocations st of
        None \<Rightarrow> 0
      | Some snap \<Rightarrow>
          (case revocations_verify (px_crypto ctx) (px_revocations ctx) snap (a_key (po_authority st)) of
             Inl _ \<Rightarrow> 0 | Inr p \<Rightarrow> st_revision (rv_stamp p)))"

definition revocations_floor :: "policy_ctx \<Rightarrow> policy_store \<Rightarrow> u64 \<times> u64" where
  "revocations_floor ctx s =
     (a_epoch (po_authority (ps_state s)), revocations_revision ctx (ps_state s))"

definition revocations_view :: "policy_store \<Rightarrow> authority \<times> signed_revocations option" where
  "revocations_view s = (po_authority (ps_state s), po_revocations (ps_state s))"

definition revocations_accepted :: "policy_ctx \<Rightarrow> policy_store \<Rightarrow> policy_msg \<Rightarrow> bool" where
  "revocations_accepted ctx s m \<longleftrightarrow> revocations_view (policy_next ctx s m) \<noteq> revocations_view s"

definition message_revision :: "policy_ctx \<Rightarrow> policy_msg \<Rightarrow> u64 \<times> u64" where
  "message_revision ctx m =
     (case fst m of
        OpRevocations snap \<Rightarrow>
          (case from_bytes (px_revocations ctx) (sv_payload snap) of
             Inl _ \<Rightarrow> (0, 0) | Inr p \<Rightarrow> (a_epoch (st_authority (rv_stamp p)), st_revision (rv_stamp p)))
      | OpRotation receipt \<Rightarrow>
          (case from_bytes (px_rotation ctx) (rot_payload receipt) of
             Inl _ \<Rightarrow> (0, 0) | Inr p \<Rightarrow> (a_epoch (rp_next p), 0))
      | _ \<Rightarrow> (0, 0))"

lemma commit_view:
  assumes "policy_commit ctx io s st up = (s1, r)"
  shows "ps_state s1 = ps_state s \<or> ps_state s1 = st"
  using assms by (auto elim: policy_commit_cases)

lemma registry_commit_view:
  assumes "forget (accept_registry ctx io s snap now) = (s1, r)"
  shows "revocations_view s1 = revocations_view s"
  using assms unfolding accept_registry_eq
  by (auto simp: attempt_eq_iff revocations_view_def dest!: commit_view split: option.splits prod.splits)

lemma name_commit_view:
  assumes "forget (accept_name ctx io s snap name now) = (s1, r)"
  shows "revocations_view s1 = revocations_view s"
  using assms
  by (auto simp: accept_name_def forget_attempt attempt_eq_iff revocations_view_def dest!: commit_view
      split: option.splits prod.splits)

lemma bootstrap_commit_view:
  assumes "bootstrap_registry ctx io s snap now = (s1, r)"
  shows "revocations_view s1 = revocations_view s"
proof -
  have "s1 = s \<or> forget (accept_registry ctx io s snap now) = (s1, r)"
    using assms by (auto simp: bootstrap_registry_def attempt_eq_iff forget_def split: if_splits prod.splits sum.splits)
  then show ?thesis using registry_commit_view by auto
qed

text \<open>Only a rotation or a newer snapshot changes the view, and how it does.\<close>

lemma revocations_accepted_cases:
  assumes "revocations_accepted ctx s m" and inv: "policy_inv ctx b s"
  shows "revocations_floor ctx s < message_revision ctx m \<and>
         revocations_floor ctx (policy_next ctx s m) = message_revision ctx m"
proof -
  obtain op io now where m: "m = (op, io, now)" by (cases m)
  obtain s1 r where step: "policy_step ctx s (op, io, now) = (s1, r)" by fastforce
  have ne: "revocations_view s1 \<noteq> revocations_view s"
    using assms(1) step by (simp add: revocations_accepted_def policy_next_def m)
  show ?thesis
  proof (cases op)
    case (OpRotation receipt)
    then obtain tr st where tr: "rotation_verify_at (px_crypto ctx) (px_rotation ctx) receipt
          (po_authority (ps_state s)) (as_secs (r_wall now)) = Inr tr"
      and st: "ps_state s1 = st" "po_authority st = rp_next tr" "po_revocations st = None"
      using step ne
      by (auto simp: apply_rotation_def attempt_eq_iff revocations_view_def dest!: commit_view split: if_splits)
    then show ?thesis
      using step
      by (simp add: m OpRotation policy_next_def message_revision_def revocations_floor_def
          revocations_revision_def rotation_verify_at_Inr_iff rotation_accepts_def)
  next
    case (OpRevocations snap)
    then have acc: "forget (accept_revocations ctx io s snap now) = (s1, r)"
      using step by simp
    obtain p l where off: "revocations_offer ctx s snap now = Inr (Some (p, l))"
      and st: "po_authority (ps_state s1) = po_authority (ps_state s)" "po_revocations (ps_state s1) = Some snap"
      using acc ne unfolding accept_revocations_eq
      by (auto simp: attempt_eq_iff revocations_view_def dest!: commit_view split: option.splits)
    from off have p: "revocations_verify (px_crypto ctx) (px_revocations ctx) snap (a_key (po_authority (ps_state s))) = Inr p"
        "st_authority (rv_stamp p) = po_authority (ps_state s)"
      by (auto simp: revocations_offer_def check_stamp_def revocations_verify_at_Inr_iff res_simps split: if_splits)
    have "revocations_revision ctx (ps_state s) < st_revision (rv_stamp p)"
    proof (cases "po_revocations (ps_state s)")
      case None
      then show ?thesis
        using p(1) by (simp add: revocations_revision_def revocations_verify_Inr_iff res_simps)
    next
      case (Some prev)
      then show ?thesis
        using off p(1)
        by (auto simp: revocations_offer_def revocations_revision_def res_simps split: if_splits)
    qed
    moreover have "from_bytes (px_revocations ctx) (sv_payload snap) = Inr p"
      using p(1) by (simp add: revocations_verify_Inr_iff)
    moreover have "revocations_revision ctx (ps_state s1) = st_revision (rv_stamp p)"
      using st p(1) by (simp add: revocations_revision_def)
    ultimately show ?thesis
      using step p(2) st(1)
      by (simp add: m OpRevocations policy_next_def message_revision_def revocations_floor_def)
  qed (use step ne registry_commit_view bootstrap_commit_view name_commit_view in auto)
qed

interpretation revocation_register: revision_register
  "policy_inv ctx bootstrap" "policy_next ctx" "revocations_accepted ctx"
  "revocations_floor ctx" "message_revision ctx"
  for ctx bootstrap
proof unfold_locales
  fix s m assume "policy_inv ctx bootstrap s" "\<not> revocations_accepted ctx s m"
  then show "revocations_floor ctx (policy_next ctx s m) = revocations_floor ctx s"
    by (simp add: revocations_accepted_def revocations_view_def revocations_floor_def revocations_revision_def
        cong: option.case_cong)
qed (auto intro: policy_step_inv dest: revocations_accepted_cases)

text \<open>
  C8. Revocation knowledge is monotone against any order of deliveries: once the store has
  accepted a snapshot or a rotation, no message of the same or an older epoch and revision is
  ever accepted again, whatever sequence of rotations, snapshots, registries, names and failed
  commits lies between.
\<close>

theorem revocations_replay_refused:
  assumes "policy_inv ctx bootstrap s" and "revocations_accepted ctx s m"
    and "message_revision ctx m' \<le> message_revision ctx m"
  shows "\<not> revocations_accepted ctx (foldl (policy_next ctx) (policy_next ctx s m) ms) m'"
  using assms by (rule revocation_register.replay_refused)

text \<open>
  C6. Every reachable store holds a valid state: from \<open>memory\<close> or \<open>open\<close> through any sequence
  of operations, including those whose commit fails, the state in memory passes the full
  validation that \<open>open\<close> performs (rotation chain, signatures, stamps, lease intervals, name
  hashes). What it publishes is exactly the summary which that validation computes, marked durable
  if and only if a disk backs the store, and healthy if and only if no commit has failed; it is
  never left in the middle of an update.
\<close>

theorem policy_reachable_valid:
  assumes "reach (policy_opened ctx bootstrap) (\<lambda>s t. \<exists>m. t = policy_next ctx s m) s"
  shows "\<exists>su. policy_validate ctx (ps_state s) bootstrap = Inr su \<and>
           ps_observed s = (False, su\<lparr>su_durable := (ps_disk s \<noteq> None), su_healthy := \<not> ps_failed s\<rparr>)"
  using policy_published.reach_inv [OF assms] by (auto simp: policy_exact_def)

section \<open>Crash recovery\<close>

lemma commit_disk_safe:
  assumes "commit_disk ctx io d st = (d1, r)"
  shows "\<forall>img\<in>crash_images d1. img \<in> crash_images d \<or> (\<exists>bs. img = Some bs \<and> policy_encode ctx st = Inr bs)"
    and "r = Inr () \<Longrightarrow> \<exists>bs. policy_encode ctx st = Inr bs \<and> crash_images d1 = {Some bs}"
  using assms by (auto simp: commit_disk_eq attempt_eq_iff dest!: atomic_write_safe)

lemma policy_load_encoded:
  assumes "px_from_json ctx bs = Inr \<lparr>ev_state = st, ev_digest = policy_digest ctx st\<rparr>"
    and "policy_validate ctx st b = Inr su" and "\<not> ps_failed store"
    and "po_wall_floor st \<le> as_secs (r_wall now)"
  shows "\<exists>loaded. policy_load ctx store bs b now = Inr loaded \<and> ps_state loaded = st"
  using assms by (simp add: policy_load_def policy_check_clock_def Let_def)

text \<open>
  What an operation decides does not depend on the disk: it answers without touching anything, or
  it commits one state. The decision is read off by running the operation on a store whose disk
  refuses every read (it fails exactly when it gets as far as a commit) and on one in memory.
\<close>

definition broken_io :: commit_io where
  "broken_io =
     \<lparr>ci_read = \<lparr>ri_open = Some ''EIO'', ri_meta = Inl ''EIO'', ri_read = Some ''EIO''\<rparr>,
      ci_write = \<lparr>wi_read = \<lparr>ri_open = Some ''EIO'', ri_meta = Inl ''EIO'', ri_read = Some ''EIO''\<rparr>,
        wi_open = (\<lambda>_. AlreadyExists), wi_write = None, wi_sync = None, wi_rename = None, wi_dir_sync = None\<rparr>\<rparr>"

definition in_memory :: "policy_ctx \<Rightarrow> policy_store \<Rightarrow> policy_msg \<Rightarrow> policy_state" where
  "in_memory ctx s m = ps_state (policy_next ctx (s\<lparr>ps_disk := None\<rparr>) m)"

definition policy_target :: "policy_ctx \<Rightarrow> policy_store \<Rightarrow> policy_msg \<Rightarrow> policy_state option" where
  "policy_target ctx s m =
     (case m of (op, io, now) \<Rightarrow>
        if \<not> ps_failed s \<and> ps_failed (policy_next ctx s (op, broken_io, now))
        then Some (in_memory ctx s m) else None)"

text \<open>Every disk that an operation passes through, from the one it finds to the one it leaves.\<close>

definition policy_step_trace :: "policy_ctx \<Rightarrow> policy_store \<Rightarrow> policy_msg \<Rightarrow> disk list" where
  "policy_step_trace ctx s m =
     (case ps_disk s of
        None \<Rightarrow> []
      | Some d \<Rightarrow>
          (case policy_target ctx s m of
             None \<Rightarrow> [d]
           | Some st \<Rightarrow> fst (commit_disk_trace ctx (fst (snd m)) d st)))"

text \<open>A computation on the store that answers, or commits, the same way whatever the disk is.\<close>

definition planned ::
  "policy_ctx \<Rightarrow> policy_store \<Rightarrow> (commit_io \<Rightarrow> policy_store \<Rightarrow> policy_store \<times> (discovery_error, unit) result) \<Rightarrow> bool" where
  "planned ctx s f \<longleftrightarrow>
     (\<exists>r. \<forall>io d. f io (s\<lparr>ps_disk := d\<rparr>) = (s\<lparr>ps_disk := d\<rparr>, r)) \<or>
     (\<exists>st up. \<forall>io d. f io (s\<lparr>ps_disk := d\<rparr>) = policy_commit ctx io (s\<lparr>ps_disk := d\<rparr>) st up)"

lemma planned_answer: "(\<And>io d. f io (s\<lparr>ps_disk := d\<rparr>) = (s\<lparr>ps_disk := d\<rparr>, r)) \<Longrightarrow> planned ctx s f"
  by (auto simp: planned_def)

lemma planned_commit:
  "(\<And>io d. f io (s\<lparr>ps_disk := d\<rparr>) = policy_commit ctx io (s\<lparr>ps_disk := d\<rparr>) st up) \<Longrightarrow> planned ctx s f"
  unfolding planned_def by blast

lemma planned_attempt:
  assumes "\<And>io d. f io (s\<lparr>ps_disk := d\<rparr>) = attempt (s\<lparr>ps_disk := d\<rparr>) x (k io (s\<lparr>ps_disk := d\<rparr>))"
    and "\<And>y. x = Inr y \<Longrightarrow> planned ctx s (\<lambda>io t. k io t y)"
  shows "planned ctx s f"
proof (cases x)
  case (Inl e)
  then show ?thesis by (intro planned_answer [where r = "Inl e"]) (simp add: assms(1))
next
  case (Inr y)
  then show ?thesis using assms(2) [OF Inr] by (simp add: planned_def assms(1))
qed

lemma offers_disk [simp]:
  "policy_check_clock (s\<lparr>ps_disk := d\<rparr>) now = policy_check_clock s now"
  "revocations_offer ctx (s\<lparr>ps_disk := d\<rparr>) snap now = revocations_offer ctx s snap now"
  "registry_offer ctx (s\<lparr>ps_disk := d\<rparr>) rg now = registry_offer ctx s rg now"
  by (simp_all add: policy_check_clock_def revocations_offer_def registry_offer_def)

lemma accept_registry_planned: "planned ctx s (\<lambda>io t. forget (accept_registry ctx io t snap now))"
proof (rule planned_attempt [where x = "registry_offer ctx s snap now"])
  show "planned ctx s (\<lambda>io t. case y of None \<Rightarrow> (t, Inr ())
       | Some (p, l) \<Rightarrow>
           policy_commit ctx io t
             ((ps_state t)\<lparr>po_registry := Some snap, po_wall_floor := as_secs (r_wall now), po_registry_lease := Some l\<rparr>)
             (put_stream 0 (st_revision (rg_stamp p)) (length (rg_entries p)) (Some l)))" for y
    by (cases y) (auto intro: planned_answer planned_commit)
qed (simp add: accept_registry_eq)

lemma accept_revocations_planned: "planned ctx s (\<lambda>io t. forget (accept_revocations ctx io t snap now))"
proof (rule planned_attempt [where x = "revocations_offer ctx s snap now"])
  show "planned ctx s (\<lambda>io t. case y of None \<Rightarrow> (t, Inr ())
       | Some (p, l) \<Rightarrow>
           policy_commit ctx io t
             ((ps_state t)\<lparr>po_revocations := Some snap, po_wall_floor := as_secs (r_wall now), po_revocations_lease := Some l\<rparr>)
             (put_stream 1 (st_revision (rv_stamp p)) (fcard (rv_revoked p)) (Some l)))" for y
    by (cases y) (auto intro: planned_answer planned_commit)
qed (simp add: accept_revocations_eq)

lemma planned_if: "(b \<Longrightarrow> planned ctx s f) \<Longrightarrow> (\<not> b \<Longrightarrow> planned ctx s g) \<Longrightarrow> planned ctx s (\<lambda>io t. if b then f io t else g io t)"
  by (cases b) simp_all

lemma apply_rotation_planned: "planned ctx s (\<lambda>io t. apply_rotation ctx io t receipt now)"
proof -
  have eq: "apply_rotation ctx io (s\<lparr>ps_disk := d\<rparr>) receipt now =
      attempt (s\<lparr>ps_disk := d\<rparr>) (rbind (policy_check_clock s now) (\<lambda>_.
          if receipt \<in> set (po_rotations (ps_state s)) then Inr None
          else rbind (ensure (\<not> length (po_rotations (ps_state s)) \<ge> max_rotations)
                   (invalid ''authority rotation chain full'')) (\<lambda>_.
               rbind (rotation_verify_at (px_crypto ctx) (px_rotation ctx) receipt (po_authority (ps_state s))
                    (as_secs (r_wall now))) (\<lambda>transition. Inr (Some transition)))))
        (\<lambda>o1. case o1 of None \<Rightarrow> (s\<lparr>ps_disk := d\<rparr>, Inr ())
          | Some transition \<Rightarrow> policy_commit ctx io (s\<lparr>ps_disk := d\<rparr>)
         ((ps_state s)\<lparr>po_authority := rp_next transition,
            po_rotations := po_rotations (ps_state s) @ [receipt],
            po_registry := None, po_revocations := None, po_names := None,
            po_registry_lease := None, po_revocations_lease := None, po_names_lease := None,
            po_wall_floor := as_secs (r_wall now)\<rparr>)
         (\<lambda>su. su\<lparr>su_epoch := a_epoch (rp_next transition), su_streams := [None, None, None]\<rparr>))" for io d
    by (auto simp: apply_rotation_def attempt_def rbind_def split: sum.splits)
  show ?thesis
  proof (rule planned_attempt, rule eq)
    show "planned ctx s (\<lambda>io t. case y of None \<Rightarrow> (t, Inr ())
          | Some transition \<Rightarrow> policy_commit ctx io t
         ((ps_state s)\<lparr>po_authority := rp_next transition,
            po_rotations := po_rotations (ps_state s) @ [receipt],
            po_registry := None, po_revocations := None, po_names := None,
            po_registry_lease := None, po_revocations_lease := None, po_names_lease := None,
            po_wall_floor := as_secs (r_wall now)\<rparr>)
         (\<lambda>su. su\<lparr>su_epoch := a_epoch (rp_next transition), su_streams := [None, None, None]\<rparr>))" for y
      by (cases y) (auto intro: planned_answer planned_commit)
  qed
qed

lemma bootstrap_registry_planned: "planned ctx s (\<lambda>io t. bootstrap_registry ctx io t snap now)"
proof -
  define older where "older key incoming = (case po_registry (ps_state s) of
      None \<Rightarrow> Inr False
    | Some previous \<Rightarrow>
        rbind (registry_verify (px_crypto ctx) (px_registry ctx) (px_binding ctx) previous key) (\<lambda>stored.
        Inr (st_revision (rg_stamp stored) > st_revision (rg_stamp incoming))))" for key and incoming :: registry_payload
  have eq: "bootstrap_registry ctx io (s\<lparr>ps_disk := d\<rparr>) snap now =
      attempt (s\<lparr>ps_disk := d\<rparr>) (rbind (verifying_key (px_crypto ctx) (po_authority (ps_state s))) (\<lambda>key.
          rbind (registry_verify (px_crypto ctx) (px_registry ctx) (px_binding ctx) snap key) (\<lambda>incoming.
          rbind (check_stamp (ps_state s) (rg_stamp incoming)) (\<lambda>_. older key incoming))))
        (\<lambda>b. if b then (s\<lparr>ps_disk := d\<rparr>, Inr ()) else forget (accept_registry ctx io (s\<lparr>ps_disk := d\<rparr>) snap now))"
    for io d
    by (auto simp: bootstrap_registry_def older_def attempt_def rbind_def forget_def split: sum.splits prod.splits)
  show ?thesis
    by (rule planned_attempt, rule eq)
      (auto intro: planned_if planned_answer accept_registry_planned)
qed

lemma accept_name_planned: "planned ctx s (\<lambda>io t. forget (accept_name ctx io t snap name now))"
proof -
  have eq: "forget (accept_name ctx io (s\<lparr>ps_disk := d\<rparr>) snap name now) =
      attempt (s\<lparr>ps_disk := d\<rparr>) (rbind (policy_check_clock s now) (\<lambda>_.
          rbind (verifying_key (px_crypto ctx) (po_authority (ps_state s))) (\<lambda>key.
          rbind (binding_verify (px_crypto ctx) (px_binding ctx) snap key name (as_secs (r_wall now))) (\<lambda>payload.
          rbind (check_stamp (ps_state s) (nb_stamp payload)) (\<lambda>_.
          rbind (names_next ctx (ps_state s) key snap payload name now) (\<lambda>nxt. Inr (payload, nxt)))))))
        (\<lambda>(payload, nxt). case nxt of None \<Rightarrow> (s\<lparr>ps_disk := d\<rparr>, Inr ())
          | Some (names, lease) \<Rightarrow> policy_commit ctx io (s\<lparr>ps_disk := d\<rparr>)
             ((ps_state s)\<lparr>po_names := Some names, po_names_lease := lease, po_wall_floor := as_secs (r_wall now)\<rparr>)
             (\<lambda>su. su\<lparr>su_streams := (su_streams su)[2 := map_option (\<lambda>l.
                \<lparr>sm_revision = st_revision (nb_stamp payload), sm_entries = length (nm_hashes names),
                 sm_lease = l\<rparr>) lease]\<rparr>))" for io d
    by (auto simp: accept_name_def forget_attempt attempt_def rbind_def split: sum.splits option.splits)
  show ?thesis
  proof (rule planned_attempt, rule eq)
    fix y :: "name_binding_payload \<times> (policy_names \<times> lease option) option"
    show "planned ctx s (\<lambda>io t. case y of (payload, nxt) \<Rightarrow> (case nxt of None \<Rightarrow> (t, Inr ())
          | Some (names, lease) \<Rightarrow> policy_commit ctx io t
             ((ps_state s)\<lparr>po_names := Some names, po_names_lease := lease, po_wall_floor := as_secs (r_wall now)\<rparr>)
             (\<lambda>su. su\<lparr>su_streams := (su_streams su)[2 := map_option (\<lambda>l.
                \<lparr>sm_revision = st_revision (nb_stamp payload), sm_entries = length (nm_hashes names),
                 sm_lease = l\<rparr>) lease]\<rparr>)))"
      by (cases y; cases "snd y") (auto intro: planned_answer planned_commit)
  qed
qed

lemma policy_step_planned: "planned ctx s (\<lambda>io t. policy_step ctx t (op, io, now))"
  by (cases op) (simp_all add: apply_rotation_planned accept_revocations_planned accept_registry_planned
      bootstrap_registry_planned accept_name_planned)

lemma commit_disk_trace_safe:
  assumes "commit_disk_trace ctx io d st = (tr, r)"
  shows "tr \<noteq> []" "commit_disk ctx io d st = (last tr, r)"
    "\<forall>d1\<in>set tr. \<forall>img\<in>crash_images d1. img \<in> crash_images d \<or> (\<exists>bs. img = Some bs \<and> policy_encode ctx st = Inr bs)"
proof -
  have ne: "fst (atomic_write_trace w d bs) \<noteq> []" for w bs
    by (auto simp: atomic_write_trace_def Let_def split: sum.splits prod.splits)
  show "tr \<noteq> []" using assms ne by (auto simp: commit_disk_trace_def attempt_eq_iff) (metis fst_conv)
  show "commit_disk ctx io d st = (last tr, r)" by (simp add: commit_disk_def assms)
  show "\<forall>d1\<in>set tr. \<forall>img\<in>crash_images d1. img \<in> crash_images d \<or> (\<exists>bs. img = Some bs \<and> policy_encode ctx st = Inr bs)"
  proof (cases "tr = [d]")
    case False
    then obtain bs where bs: "policy_encode ctx st = Inr bs" "atomic_write_trace (ci_write io) d bs = (tr, r)"
      using assms by (auto simp: commit_disk_trace_def attempt_eq_iff)
    then have "\<forall>d1\<in>set tr. crash_images d1 \<subseteq> crash_images d \<union> {Some bs}"
      using atomic_write_trace_safe [OF bs(2)] by (simp add: old_or_new_def)
    then show ?thesis using bs(1) by blast
  qed simp
qed

text \<open>The trace belongs to the operation: it ends where the operation leaves the disk.\<close>

lemma policy_step_trace_cases:
  assumes step: "policy_step ctx s m = (s1, r)" and disk: "ps_disk s = Some d"
  obtains (same) "s1 = s" "policy_step_trace ctx s m = [d]" "r = Inr () \<Longrightarrow> in_memory ctx s m = ps_state s"
  | (commit) up tr where "policy_commit ctx (fst (snd m)) s (in_memory ctx s m) up = (s1, r)"
      "commit_disk_trace ctx (fst (snd m)) d (in_memory ctx s m) = (tr, r)" "policy_step_trace ctx s m = tr"
proof -
  obtain op io now where m: "m = (op, io, now)" by (cases m)
  have s: "s\<lparr>ps_disk := Some d\<rparr> = s" using disk by (cases s) simp
  from policy_step_planned [of ctx s op now] consider
    (answer) r0 where "\<forall>io d. policy_step ctx (s\<lparr>ps_disk := d\<rparr>) (op, io, now) = (s\<lparr>ps_disk := d\<rparr>, r0)"
  | (go) st up where "\<forall>io d. policy_step ctx (s\<lparr>ps_disk := d\<rparr>) (op, io, now) = policy_commit ctx io (s\<lparr>ps_disk := d\<rparr>) st up"
    unfolding planned_def by blast
  then show thesis
  proof cases
    case answer
    have a: "policy_step ctx s (op, io, now) = (s, r0)" for io
      using answer [rule_format, of "Some d" io] unfolding s .
    have "in_memory ctx s m = ps_state s"
      using answer by (simp add: in_memory_def policy_next_def m)
    then show thesis
      using a step disk by (intro same) (simp_all add: m policy_step_trace_def policy_target_def policy_next_def)
  next
    case go
    have c: "policy_step ctx s (op, io, now) = policy_commit ctx io s st up" for io
      using go [rule_format, of "Some d" io] unfolding s .
    have im: "in_memory ctx s m = st"
      using go by (simp add: in_memory_def policy_next_def m policy_commit_def Let_def)
    have "commit_disk ctx broken_io d st = (d, Inl (store_error ''EIO''))"
      by (simp add: commit_disk_eq broken_io_def atomic_read_def)
    then have broken: "ps_failed (policy_next ctx s (op, broken_io, now))"
      using disk by (simp add: policy_next_def c policy_commit_def Let_def)
    show thesis
    proof (cases "ps_failed s")
      case True
      then have clock: "policy_check_clock s now \<noteq> Inr ()" by (simp add: policy_check_clock_def)
      then have "s1 = s" using policy_step_commits step by (fastforce simp: commits_def m)
      moreover have "policy_step ctx (s\<lparr>ps_disk := None\<rparr>) (op, io, now) = (s\<lparr>ps_disk := None\<rparr>, Inr ())"
        if "r = Inr ()"
        using policy_step_commits [of ctx "s\<lparr>ps_disk := None\<rparr>" op io now] clock go
        by (force simp: commits_def policy_commit_def Let_def)
      ultimately show thesis
        using True disk by (intro same) (simp_all add: policy_step_trace_def policy_target_def m in_memory_def policy_next_def)
    next
      case False
      obtain tr r1 where tr: "commit_disk_trace ctx io d st = (tr, r1)" by fastforce
      have "r1 = r"
        using step commit_disk_trace_safe(2) [OF tr] disk
        by (cases r1) (simp_all add: m c policy_commit_def Let_def)
      then show thesis
        using step c tr broken False disk im
        by (intro commit [of up tr]) (simp_all add: m policy_step_trace_def policy_target_def)
    qed
  qed
qed

text \<open>
  C11. An operation on a disk-backed store is atomic under crashes. The operation passes through a
  sequence of disks that ends with the one it leaves. At every one of them, every image a crash
  can leave is the encoding of a state that \<open>open\<close> loads again, and that state is either the one
  before the operation or exactly the one which the same operation would produce in memory. Once
  the operation has answered success it has that state in memory, and no crash can leave any
  other. The hypothesis on JSON is that decoding inverts encoding.
\<close>

theorem policy_crash_recovery:
  assumes inv: "policy_inv ctx bootstrap s" and disk: "ps_disk s = Some d"
    and enc: "policy_encode ctx (ps_state s) = Inr old" and clean: "crash_images d = {Some old}"
    and step: "policy_step ctx s m = (s1, r)"
    and json: "\<And>env bs. px_to_json ctx env = Inr bs \<Longrightarrow> px_from_json ctx bs = Inr env"
  shows "policy_step_trace ctx s m \<noteq> [] \<and> ps_disk s1 = Some (last (policy_step_trace ctx s m)) \<and>
    (\<forall>d1\<in>set (policy_step_trace ctx s m). \<forall>img\<in>crash_images d1.
       \<exists>bs st. img = Some bs \<and> policy_encode ctx st = Inr bs \<and> (st = ps_state s \<or> st = in_memory ctx s m) \<and>
         (\<forall>store t. \<not> ps_failed store \<and> po_wall_floor st \<le> as_secs (r_wall t) \<longrightarrow>
            (\<exists>loaded. policy_load ctx store bs bootstrap t = Inr loaded \<and> ps_state loaded = st))) \<and>
    (r = Inr () \<longrightarrow> ps_state s1 = in_memory ctx s m \<and>
       (\<forall>img\<in>crash_images (last (policy_step_trace ctx s m)).
          \<exists>bs. img = Some bs \<and> policy_encode ctx (ps_state s1) = Inr bs))"
proof -
  have su: "\<exists>su. policy_validate ctx (ps_state s) bootstrap = Inr su"
    using inv by (auto simp: policy_inv_def)
  have "policy_inv ctx bootstrap (policy_next ctx (s\<lparr>ps_disk := None\<rparr>) m)"
    using inv by (intro policy_step_inv) (simp add: policy_inv_def)
  then have su1: "\<exists>su. policy_validate ctx (in_memory ctx s m) bootstrap = Inr su"
    by (auto simp: policy_inv_def in_memory_def)
  have reload: "\<exists>loaded. policy_load ctx store bs bootstrap t = Inr loaded \<and> ps_state loaded = st"
    if "st = ps_state s \<or> st = in_memory ctx s m" "policy_encode ctx st = Inr bs"
      "\<not> ps_failed store" "po_wall_floor st \<le> as_secs (r_wall t)" for st bs store t
  proof -
    have "px_from_json ctx bs = Inr \<lparr>ev_state = st, ev_digest = policy_digest ctx st\<rparr>"
      using that(2) json by (simp add: policy_encode_def res_simps)
    then show ?thesis using policy_load_encoded su su1 that by blast
  qed
  have "policy_step_trace ctx s m \<noteq> [] \<and> ps_disk s1 = Some (last (policy_step_trace ctx s m)) \<and>
    (\<forall>d1\<in>set (policy_step_trace ctx s m). \<forall>img\<in>crash_images d1. \<exists>bs st. img = Some bs \<and>
       policy_encode ctx st = Inr bs \<and> (st = ps_state s \<or> st = in_memory ctx s m)) \<and>
    (r = Inr () \<longrightarrow> ps_state s1 = in_memory ctx s m \<and>
       (\<forall>img\<in>crash_images (last (policy_step_trace ctx s m)).
          \<exists>bs. img = Some bs \<and> policy_encode ctx (ps_state s1) = Inr bs))"
    using step disk
  proof (cases rule: policy_step_trace_cases)
    case same
    then show ?thesis using disk clean enc by auto
  next
    case (commit up tr)
    note safe = commit_disk_trace_safe [OF commit(2)]
    have "ps_disk s1 = Some (last tr) \<and> (r = Inr () \<longrightarrow> ps_state s1 = in_memory ctx s m)"
      using commit(1) safe(2) disk by (cases rule: policy_commit_cases) auto
    then show ?thesis
      using safe commit_disk_safe(2) [OF safe(2)] clean enc unfolding commit(3) by fastforce
  qed
  then show ?thesis using reload by meson
qed

text \<open>
  C27. No revocation snapshot is served outside its signed lifetime: what \<open>revocations\<close> returns
  at a reading verifies under the current authority, the reading's wall clock lies inside the
  signed interval, the boot has not changed, and no more continuous time has passed since
  acceptance than was left of the interval then.
\<close>

theorem revocations_served_fresh:
  assumes "policy_inv ctx bootstrap s" and "policy_revocations ctx s now = Inr (Some (snap, p, l))"
  shows "st_authority (rv_stamp p) = po_authority (ps_state s) \<and>
         rv_issued_at p \<le> as_secs (r_wall now) \<and> as_secs (r_wall now) < rv_expires_at p \<and>
         r_boot now = l_boot l \<and>
         r_continuous now - l_accepted_continuous l < from_secs (rv_expires_at p) - l_accepted_wall l"
proof -
  have q: "po_revocations (ps_state s) = Some snap" "po_revocations_lease (ps_state s) = Some l" "valid_at l now"
      "revocations_verify (px_crypto ctx) (px_revocations ctx) snap (a_key (po_authority (ps_state s))) = Inr p"
    using assms(2) by (auto simp: policy_revocations_def res_simps split: option.splits if_splits)
  then have m: "matches_interval l (rv_issued_at p) (rv_expires_at p)"
      and "st_authority (rv_stamp p) = po_authority (ps_state s)"
    using assms(1) by (auto simp: policy_inv_def policy_validate_iff revocations_stream_is_def)
  then show ?thesis
    using q(3) matches_interval_deadline [OF m] m by (auto simp: valid_at_def matches_interval_def)
qed

section \<open>Names do not equivocate\<close>

definition stamp_order :: "snapshot_stamp \<Rightarrow> u64 \<times> u64" where
  "stamp_order st = (a_epoch (st_authority st), st_revision st)"

definition anchor_payload :: "policy_ctx \<Rightarrow> policy_state \<Rightarrow> name_binding_payload option" where
  "anchor_payload ctx st =
     (case po_names st of
        None \<Rightarrow> None
      | Some nm \<Rightarrow>
          (case binding_verify_committed (px_crypto ctx) (px_binding ctx) (nm_anchor nm) (a_key (po_authority st)) of
             Inl _ \<Rightarrow> None | Inr q \<Rightarrow> Some q))"

definition names_floor :: "policy_ctx \<Rightarrow> policy_state \<Rightarrow> u64 \<times> u64" where
  "names_floor ctx st =
     (case anchor_payload ctx st of None \<Rightarrow> (a_epoch (po_authority st), 0) | Some q \<Rightarrow> stamp_order (nb_stamp q))"

text \<open>The store has moved past the stamp of \<open>p\<close>, or still holds it with the hash \<open>h\<close> of name \<open>n\<close>.\<close>

definition names_recall ::
  "policy_ctx \<Rightarrow> string \<Rightarrow> name_binding_payload \<Rightarrow> bytes \<Rightarrow> policy_state \<Rightarrow> bool" where
  "names_recall ctx n p h st \<longleftrightarrow>
     stamp_order (nb_stamp p) < names_floor ctx st \<or>
     (\<exists>nm q. po_names st = Some nm \<and> anchor_payload ctx st = Some q \<and> nb_stamp q = nb_stamp p \<and>
        nb_registry_digest q = nb_registry_digest p \<and> map_of (nm_hashes nm) n = Some h)"

lemma anchor_payload_valid:
  assumes "policy_validate ctx st b = Inr su" and "po_names st = Some nm"
  obtains q where "anchor_payload ctx st = Some q" "st_authority (nb_stamp q) = po_authority st"
    "binding_verify_committed (px_crypto ctx) (px_binding ctx) (nm_anchor nm) (a_key (po_authority st)) = Inr q"
  using assms by (auto simp: policy_validate_iff names_stream_is_def anchor_payload_def)

lemma names_floor_epoch:
  assumes "policy_validate ctx st b = Inr su"
  shows "fst (names_floor ctx st) = a_epoch (po_authority st)"
proof (cases "po_names st")
  case None
  then show ?thesis by (simp add: names_floor_def anchor_payload_def)
next
  case (Some nm)
  with assms show ?thesis
    by (auto simp: names_floor_def stamp_order_def elim!: anchor_payload_valid)
qed

lemma names_recall_same:
  assumes "po_names st1 = po_names st" and "po_authority st1 = po_authority st"
  shows "names_recall ctx n p h st1 = names_recall ctx n p h st"
proof -
  have "anchor_payload ctx st1 = anchor_payload ctx st"
    using assms by (simp add: anchor_payload_def cong: option.case_cong)
  then show ?thesis using assms by (simp add: names_recall_def names_floor_def cong: option.case_cong)
qed

text \<open>The state after a proof was installed.\<close>

lemma names_installed:
  assumes b: "binding_verify (px_crypto ctx) (px_binding ctx) snap (a_key (po_authority st)) name t = Inr p"
    and "po_names st1 = Some names" "nm_anchor names = snap" "po_authority st1 = po_authority st"
  shows "anchor_payload ctx st1 = Some p" and "names_floor ctx st1 = stamp_order (nb_stamp p)"
  using assms binding_committed_after_verify [OF b] by (simp_all add: anchor_payload_def names_floor_def)

lemma names_recall_trans:
  assumes tr: "policy_trans ctx now st st1 up" and v: "policy_validate ctx st b = Inr su" and wf: "names_wf st"
    and rec: "names_recall ctx n p h st"
  shows "names_recall ctx n p h st1"
  using tr
proof (cases rule: policy_trans.cases)
  case (t_rotation receipt tr)
  have "a_epoch (rp_next tr) = a_epoch (po_authority st) + 1"
    using t_rotation(3) by (simp add: rotation_verify_at_Inr_iff rotation_accepts_def)
  moreover have "fst (stamp_order (nb_stamp p)) \<le> a_epoch (po_authority st)"
    using rec names_floor_epoch [OF v]
    by (cases "names_floor ctx st") (auto simp: names_recall_def stamp_order_def names_floor_def less_prod_def)
  ultimately show ?thesis
    by (simp add: t_rotation(1) names_recall_def names_floor_def anchor_payload_def stamp_order_def)
next
  case (t_name snap name p' names lease)
  have st1: "po_names st1 = Some names" "po_authority st1 = po_authority st"
    using t_name(1) by simp_all
  obtain x where x: "names_stream_is ctx st x" using v by (auto simp: policy_validate_iff)
  have "nm_anchor names = snap"
    using names_next_Some [OF t_name(5,3) x wf refl] by simp
  note inst = names_installed [OF t_name(3) st1(1) this st1(2)]
  show ?thesis
  proof (cases "po_names st")
    case None
    then have "stamp_order (nb_stamp p) < (a_epoch (po_authority st), 0)"
      using rec by (simp add: names_recall_def names_floor_def anchor_payload_def)
    then have "stamp_order (nb_stamp p) < stamp_order (nb_stamp p')"
      using t_name(4) by (auto simp: stamp_order_def)
    then show ?thesis by (simp add: names_recall_def inst)
  next
    case (Some nm)
    from v Some obtain q where q: "anchor_payload ctx st = Some q" "st_authority (nb_stamp q) = po_authority st"
      "binding_verify_committed (px_crypto ctx) (px_binding ctx) (nm_anchor nm) (a_key (po_authority st)) = Inr q"
      by (rule anchor_payload_valid)
    have wfh: "bt_wf (nm_hashes nm)" using wf Some by (simp add: names_wf_def)
    from t_name(5) Some show ?thesis
    proof (rule names_next_shape)
      fix old hashes
      assume old: "binding_verify_committed (px_crypto ctx) (px_binding ctx) (nm_anchor nm) (a_key (po_authority st)) = Inr old"
        and nms: "names = \<lparr>nm_anchor = snap, nm_hashes = bt_put name (blake3 (px_crypto ctx) (nb_payload snap)) hashes\<rparr>"
        and alt: "newer_than (nb_stamp p') (nb_stamp old) = Inr () \<and> hashes = [] \<and>
            (\<exists>l. lease_new (nb_issued_at p') (nb_expires_at p') now = Inr l \<and> lease = Some l) \<or>
          nb_stamp old = nb_stamp p' \<and> nb_registry_digest old = nb_registry_digest p' \<and>
            nb_issued_at old = nb_issued_at p' \<and> nb_expires_at old = nb_expires_at p' \<and>
            hashes = nm_hashes nm \<and> map_of hashes name = None \<and> lease = po_names_lease st"
      have [simp]: "old = q" using old q(3) by simp
      from alt show ?thesis
      proof
        assume "newer_than (nb_stamp p') (nb_stamp old) = Inr () \<and> hashes = [] \<and>
            (\<exists>l. lease_new (nb_issued_at p') (nb_expires_at p') now = Inr l \<and> lease = Some l)"
        then have "stamp_order (nb_stamp q) < stamp_order (nb_stamp p')"
          by (simp add: res_simps stamp_order_def)
        moreover have "stamp_order (nb_stamp p) \<le> stamp_order (nb_stamp q)"
          using rec q(1) by (auto simp: names_recall_def names_floor_def)
        ultimately show ?thesis by (auto simp: names_recall_def inst)
      next
        assume "nb_stamp old = nb_stamp p' \<and> nb_registry_digest old = nb_registry_digest p' \<and>
            nb_issued_at old = nb_issued_at p' \<and> nb_expires_at old = nb_expires_at p' \<and>
            hashes = nm_hashes nm \<and> map_of hashes name = None \<and> lease = po_names_lease st"
        then show ?thesis
          using rec q(1) Some st1(1) wfh
          by (auto simp: names_recall_def names_floor_def inst nms)
      qed
    qed
  qed
next
  case t_revocations
  then show ?thesis using rec names_recall_same [of st1 st ctx n p h] by simp
next
  case t_registry
  then show ?thesis using rec names_recall_same [of st1 st ctx n p h] by simp
qed

lemma names_recall_step:
  assumes inv: "policy_inv ctx b s" and rec: "names_recall ctx n p h (ps_state s)"
  shows "names_recall ctx n p h (ps_state (policy_next ctx s m))"
proof -
  obtain op io now where m: "m = (op, io, now)" by (cases m)
  obtain s1 r where step: "policy_step ctx s (op, io, now) = (s1, r)" by fastforce
  have "names_recall ctx n p h (ps_state s1)"
    using policy_step_commits [OF step] rec inv
    by (auto simp: commits_def policy_inv_def dest!: commit_view intro: names_recall_trans)
  then show ?thesis using step by (simp add: policy_next_def m)
qed

lemma names_recall_run:
  "policy_inv ctx b s \<Longrightarrow> names_recall ctx n p h (ps_state s) \<Longrightarrow>
     names_recall ctx n p h (ps_state (foldl (policy_next ctx) s ms))"
  by (induction ms arbitrary: s) (auto intro: policy_step_inv names_recall_step)

lemma accept_name_Inr:
  assumes "accept_name ctx io s snap name now = (s1, Inr p)"
  obtains nxt where
    "binding_verify (px_crypto ctx) (px_binding ctx) snap (a_key (po_authority (ps_state s))) name
       (as_secs (r_wall now)) = Inr p"
    "st_authority (nb_stamp p) = po_authority (ps_state s)"
    "names_next ctx (ps_state s) (a_key (po_authority (ps_state s))) snap p name now = Inr nxt"
    "case nxt of None \<Rightarrow> s1 = s
     | Some (names, lease) \<Rightarrow>
         ps_state s1 = (ps_state s)\<lparr>po_names := Some names, po_names_lease := lease,
            po_wall_floor := as_secs (r_wall now)\<rparr>"
proof -
  obtain key nxt where key: "verifying_key (px_crypto ctx) (po_authority (ps_state s)) = Inr key"
    and "binding_verify (px_crypto ctx) (px_binding ctx) snap key name (as_secs (r_wall now)) = Inr p"
    and "check_stamp (ps_state s) (nb_stamp p) = Inr ()"
    and nxt: "names_next ctx (ps_state s) key snap p name now = Inr nxt"
    and rest: "case nxt of None \<Rightarrow> s1 = s
       | Some (names, lease) \<Rightarrow> \<exists>up.
           policy_commit ctx io s ((ps_state s)\<lparr>po_names := Some names, po_names_lease := lease,
             po_wall_floor := as_secs (r_wall now)\<rparr>) up = (s1, Inr ())"
    using assms by (fastforce simp: accept_name_def then_ok_def res_simps split: option.splits)
  moreover have "case nxt of None \<Rightarrow> s1 = s
     | Some (names, lease) \<Rightarrow>
         ps_state s1 = (ps_state s)\<lparr>po_names := Some names, po_names_lease := lease,
            po_wall_floor := as_secs (r_wall now)\<rparr>"
    using rest by (auto split: option.splits elim: policy_commit_cases)
  ultimately show ?thesis
    using that [of nxt] by (simp add: res_simps check_stamp_def)
qed

text \<open>What an accepted proof leaves behind, and what a recalled proof demands of a new one.\<close>

lemma accept_name_recall:
  assumes inv: "policy_inv ctx b s" and acc: "accept_name ctx io s snap name now = (s1, Inr p)"
  shows "names_recall ctx name p (blake3 (px_crypto ctx) (nb_payload snap)) (ps_state s1)"
  using acc
proof (rule accept_name_Inr)
  fix nxt
  assume b: "binding_verify (px_crypto ctx) (px_binding ctx) snap (a_key (po_authority (ps_state s))) name
       (as_secs (r_wall now)) = Inr p"
    and nxt: "names_next ctx (ps_state s) (a_key (po_authority (ps_state s))) snap p name now = Inr nxt"
    and st: "case nxt of None \<Rightarrow> s1 = s
     | Some (names, lease) \<Rightarrow>
         ps_state s1 = (ps_state s)\<lparr>po_names := Some names, po_names_lease := lease,
            po_wall_floor := as_secs (r_wall now)\<rparr>"
  obtain x where x: "names_stream_is ctx (ps_state s) x" and wf: "names_wf (ps_state s)"
    using inv by (auto simp: policy_inv_def policy_validate_iff)
  show ?thesis
  proof (cases nxt)
    case None
    then show ?thesis
      using nxt st
      by (auto simp: names_next_def Let_def names_recall_def anchor_payload_def res_simps
          split: option.splits if_splits)
  next
    case (Some nl)
    then obtain names lease where nl: "nxt = Some (names, lease)" by (cases nl) simp
    then show ?thesis
      using st names_next_Some [OF nxt [unfolded nl] b x wf refl]
        names_installed [OF b, of "ps_state s1" names]
      by (simp add: names_recall_def)
  qed
qed

lemma recalled_name_agrees:
  assumes inv: "policy_inv ctx b s" and rec: "names_recall ctx n p h (ps_state s)"
    and acc: "accept_name ctx io s snap name now = (s1, Inr p2)" and same: "nb_stamp p2 = nb_stamp p"
  shows "nb_registry_digest p2 = nb_registry_digest p \<and> (name = n \<longrightarrow> blake3 (px_crypto ctx) (nb_payload snap) = h)"
  using acc
proof (rule accept_name_Inr)
  fix nxt
  assume b: "binding_verify (px_crypto ctx) (px_binding ctx) snap (a_key (po_authority (ps_state s))) name
       (as_secs (r_wall now)) = Inr p2"
    and auth: "st_authority (nb_stamp p2) = po_authority (ps_state s)"
    and nxt: "names_next ctx (ps_state s) (a_key (po_authority (ps_state s))) snap p2 name now = Inr nxt"
  obtain su where su: "policy_validate ctx (ps_state s) b = Inr su"
    using inv by (auto simp: policy_inv_def)
  show ?thesis
  proof (cases "po_names (ps_state s)")
    case None
    then show ?thesis
      using rec auth same by (simp add: names_recall_def names_floor_def anchor_payload_def stamp_order_def)
  next
    case (Some nm)
    from su Some obtain q where q: "anchor_payload ctx (ps_state s) = Some q"
      "binding_verify_committed (px_crypto ctx) (px_binding ctx) (nm_anchor nm) (a_key (po_authority (ps_state s))) = Inr q"
      "st_authority (nb_stamp q) = po_authority (ps_state s)"
      by (rule anchor_payload_valid)
    have "nb_stamp q = nb_stamp p2 \<or> st_revision (nb_stamp q) < st_revision (nb_stamp p2)"
      using nxt Some q by (auto simp: names_next_def Let_def res_simps split: if_splits)
    moreover have "stamp_order (nb_stamp p2) \<le> stamp_order (nb_stamp q)"
      using rec q(1) same by (auto simp: names_recall_def names_floor_def)
    ultimately have eq: "nb_stamp q = nb_stamp p2"
      using auth q(3) by (auto simp: stamp_order_def)
    then have "nb_registry_digest q = nb_registry_digest p \<and> map_of (nm_hashes nm) n = Some h"
      using rec q(1) same Some by (auto simp: names_recall_def names_floor_def)
    then show ?thesis
      using nxt Some q(2) eq by (auto simp: names_next_def Let_def res_simps split: if_splits)
  qed
qed

text \<open>
  C39. A directory cannot equivocate about names: if the store accepts a proof and, after any
  sequence of other operations, accepts another proof under the same stamp, both belong to
  the same registry digest; and if they are for the same name their signed payloads have the
  same BLAKE3 hash.
\<close>

theorem accepted_names_agree:
  assumes "policy_inv ctx b s" and "accept_name ctx io s snap name now = (s1, Inr p)"
    and "accept_name ctx io' (foldl (policy_next ctx) s1 ms) snap' name' now' = (s2, Inr p')"
    and "nb_stamp p' = nb_stamp p"
  shows "nb_registry_digest p' = nb_registry_digest p \<and>
         (name' = name \<longrightarrow>
            blake3 (px_crypto ctx) (nb_payload snap') = blake3 (px_crypto ctx) (nb_payload snap))"
proof -
  have s1: "policy_next ctx s (OpName snap name, io, now) = s1"
    using assms(2) by (simp add: policy_next_def)
  have "policy_inv ctx b s1"
    using policy_step_inv [OF assms(1)] s1 by metis
  moreover from this have "policy_inv ctx b (foldl (policy_next ctx) s1 ms)"
    by (rule revocation_register.inv_runs)
  ultimately show ?thesis
    using recalled_name_agrees [OF _ names_recall_run assms(3,4)] accept_name_recall [OF assms(1,2)] by blast
qed

section \<open>Metrics\<close>

lemma stream_metrics_total: "\<exists>v. stream_metrics now w stream names vals = Some v"
  using remaining_at_valid
  by (auto simp: stream_metrics_def Let_def remaining_at_def valid_at_def as_secs_less_iff dur_checked_sub_def
      split: option.splits)

lemma streams_metrics_total: "\<exists>v. streams_metrics now w streams vals = Some v"
proof (induction streams arbitrary: vals)
  case (Cons s streams)
  obtain stream names where s: "s = (stream, names)" by (cases s)
  obtain v where "stream_metrics now w stream names vals = Some v"
    using stream_metrics_total by blast
  with Cons.IH [of v] show ?case by (simp add: s)
qed simp

text \<open>
  Reading the metrics never panics, whatever the clock says, and an unhealthy store
  publishes only that it is known, unhealthy and whether it is durable: no revision and no
  freshness of an uncertain commit.
\<close>

theorem policy_metrics_fail_closed:
  "\<exists>v. policy_snapshot_at (Some su) now = Some v \<and>
     (\<not> su_healthy su \<longrightarrow>
        set (map fst v) = {''rds_directory_policy_known'', ''rds_directory_policy_healthy'',
          ''rds_directory_policy_durable''})"
proof (cases "su_healthy su")
  case True
  then show ?thesis
    using streams_metrics_total by (simp add: policy_snapshot_at_def Let_def)
next
  case False
  then show ?thesis by (simp add: policy_snapshot_at_def Let_def) blast
qed

section \<open>A concrete store\<close>

definition policy_state0 :: policy_state where
  "policy_state0 =
     \<lparr>po_format = 1, po_bootstrap = auth_a, po_authority = auth_a, po_rotations = [], po_wall_floor = 0,
      po_registry = None, po_revocations = None, po_names = None, po_registry_lease = None,
      po_revocations_lease = None, po_names_lease = None\<rparr>"

definition now0 :: reading where
  "now0 = \<lparr>r_boot = [], r_wall = from_secs 1010, r_continuous = from_secs 50\<rparr>"

definition lease_r0 :: lease where
  "lease_r0 = \<lparr>l_boot = [], l_issued_at = 1000, l_expires_at = 1060, l_accepted_wall = from_secs 1010,
     l_accepted_continuous = from_secs 50, l_deadline = from_secs 100\<rparr>"

definition snap0 :: signed_revocations where
  "snap0 = \<lparr>sv_payload = [1], sv_signature = replicate 64 7\<rparr>"

definition policy_state1 :: policy_state where
  "policy_state1 = policy_state0\<lparr>po_revocations := Some snap0, po_wall_floor := 1010,
     po_revocations_lease := Some lease_r0\<rparr>"

definition env_of :: "policy_state \<Rightarrow> envelope" where
  "env_of st = \<lparr>ev_state = st, ev_digest = blake3 crypto0 []\<rparr>"

definition ctx0 :: policy_ctx where
  "ctx0 =
     \<lparr>px_crypto = crypto0, px_rotation = tag_codec 1 rot_payload0, px_registry = tag_codec 1 registry0,
      px_binding = binding_codec0, px_revocations = tag_codec 1 revocations0, px_state_bytes = (\<lambda>_. []),
      px_to_json = (\<lambda>e. if e = env_of policy_state0 then Inr [1]
                         else if e = env_of policy_state1 then Inr [2] else Inl ''json''),
      px_from_json = (\<lambda>bs. if bs = [1] then Inr (env_of policy_state0)
                            else if bs = [2] then Inr (env_of policy_state1) else Inl ''json'')\<rparr>"

definition store0 :: policy_store where
  "store0 = \<lparr>ps_state = policy_state0, ps_disk = None, ps_failed = False,
     ps_observed = (False, summary_empty 1 False)\<rparr>"

lemma ctx0_simps:
  "px_crypto ctx0 = crypto0" "px_binding ctx0 = binding_codec0"
  "px_revocations ctx0 = tag_codec 1 revocations0"
  by (simp_all add: ctx0_def)

lemma auth_a_key: "verifying_key crypto0 auth_a = Inr (replicate 32 7)"
  by (simp add: verifying_key_def crypto0_def auth_a_def)

lemma lease_r0_new: "lease_new 1000 1060 now0 = Inr lease_r0"
  by (simp add: lease_new_Inr_iff now0_def lease_r0_def from_secs_def nanos_per_sec_def as_secs_def dur_max_def)

lemma store0_memory: "policy_memory ctx0 auth_a = Inr store0"
  by (simp add: policy_memory_def verifying_key_def ctx0_def crypto0_def auth_a_def store0_def policy_state0_def)

lemma store0_inv: "policy_inv ctx0 auth_a store0"
  using store0_memory by (rule policy_memory_inv)

lemma clock0: "ps_failed s = False \<Longrightarrow> po_wall_floor (ps_state s) \<le> 1010 \<Longrightarrow> policy_check_clock s now0 = Inr ()"
  by (simp add: policy_check_clock_def now0_def)

lemma snap0_verifies: "revocations_verify crypto0 (tag_codec 1 revocations0) snap0 (replicate 32 7) = Inr revocations0"
  by (simp add: revocations_verify_Inr_iff snap0_def revocations0_def res_simps crypto0_def fcard.rep_eq
      max_revocations_payload_def max_revoked_grants_def max_revocation_ttl_secs_def)

lemma offer0: "ps_state s = policy_state0 \<Longrightarrow> ps_failed s = False \<Longrightarrow>
    revocations_offer ctx0 s snap0 now0 = Inr (Some (revocations0, lease_r0))"
proof -
  assume s: "ps_state s = policy_state0" "ps_failed s = False"
  have "revocations_verify_at crypto0 (tag_codec 1 revocations0) snap0 (replicate 32 7) 1010 = Inr revocations0"
    using snap0_verifies by (simp add: revocations_verify_at_Inr_iff revocations0_def)
  then show ?thesis
    using lease_r0_new clock0 [of s] s
    by (simp add: revocations_offer_def policy_state0_def verifying_key_def ctx0_def auth_a_def crypto0_def
        check_stamp_def now0_def revocations0_def)
qed



theorem policy_metrics_fail_closed_witness:
  "\<exists>v. policy_snapshot_at (Some ((summary_empty 1 True)\<lparr>su_healthy := False\<rparr>)) (Some now0) = Some v \<and>
     set (map fst v) = {''rds_directory_policy_known'', ''rds_directory_policy_healthy'',
       ''rds_directory_policy_durable''}"
  using policy_metrics_fail_closed [of "(summary_empty 1 True)\<lparr>su_healthy := False\<rparr>" "Some now0"] by auto

definition commit_ok :: commit_io where
  "commit_ok = \<lparr>ci_read = read_ok, ci_write = write_ok\<rparr>"

definition commit_bad :: commit_io where
  "commit_bad = \<lparr>ci_read = read_ok, ci_write = write_ok\<lparr>wi_rename := Some (IoError None ''EIO'')\<rparr>\<rparr>"

definition msg0 :: policy_msg where
  "msg0 = (OpRevocations snap0, commit_ok, now0)"

definition disk1 :: disk where
  "disk1 = disk0\<lparr>dk_state := Some \<lparr>fi_bytes = [1], fi_synced = True\<rparr>, dk_durable := Some [1]\<rparr>"

definition store_disk :: policy_store where
  "store_disk = store0\<lparr>ps_disk := Some disk1\<rparr>"

lemma step0:
  assumes "ps_state s = policy_state0" "\<not> ps_failed s"
  shows "policy_step ctx0 s (OpRevocations snap0, io, now0) =
     policy_commit ctx0 io s policy_state1 (put_stream 1 4 1 (Some lease_r0))"
proof -
  have "(policy_state0\<lparr>po_revocations := Some snap0, po_wall_floor := as_secs (r_wall now0),
      po_revocations_lease := Some lease_r0\<rparr>) = policy_state1"
    by (simp add: policy_state1_def now0_def)
  then show ?thesis
    using offer0 [of s] assms by (simp add: accept_revocations_eq revocations0_def fcard.rep_eq)
qed

lemma store0_accepts: "revocations_accepted ctx0 store0 msg0"
  by (simp add: revocations_accepted_def policy_next_def msg0_def revocations_view_def step0
      policy_commit_def Let_def store0_def del: policy_step.simps)
    (simp add: policy_state0_def policy_state1_def)

theorem revocations_replay_refused_witness:
  "\<not> revocations_accepted ctx0 (foldl (policy_next ctx0) (policy_next ctx0 store0 msg0) [msg0]) msg0"
  by (rule revocations_replay_refused [OF store0_inv store0_accepts]) simp

lemma encode0: "policy_encode ctx0 policy_state0 = Inr [1]" "policy_encode ctx0 policy_state1 = Inr [2]"
  by (simp_all add: policy_encode_def policy_digest_def ctx0_def env_of_def policy_state0_def policy_state1_def)

lemma store_disk_inv: "policy_inv ctx0 auth_a store_disk"
  using store0_inv by (simp add: policy_inv_def store_disk_def)

lemma commit_disk_ok: "snd (commit_disk ctx0 commit_ok disk1 policy_state1) = Inr ()"
  by (simp add: commit_disk_eq commit_ok_def atomic_read_def read_ok_def regular_def io_ok_def disk1_def
      disk0_def max_state_def encode0 atomic_write_def atomic_write_trace_def write_ok_def open_staging_Opened
      write_steps_def write_step_defs Let_def)

lemma commit_disk_bad: "snd (commit_disk ctx0 commit_bad disk1 policy_state1) = Inl (Store ''EIO'')"
  by (simp add: commit_disk_eq commit_bad_def atomic_read_def read_ok_def regular_def io_ok_def disk1_def
      disk0_def max_state_def encode0 atomic_write_def atomic_write_trace_def write_ok_def open_staging_Opened
      write_steps_def write_step_defs write_error_def store_error_def Let_def)

theorem failed_commit_is_fail_stop_witness:
  "\<exists>s1. policy_step ctx0 store_disk (OpRevocations snap0, commit_bad, now0) = (s1, Inl (Store ''EIO'')) \<and>
     ps_state s1 = ps_state store_disk \<and> fst (policy_step ctx0 s1 msg0) = s1 \<and>
     \<not> is_ok (policy_revocations ctx0 s1 now0)"
proof -
  obtain d1 where "commit_disk ctx0 commit_bad disk1 policy_state1 = (d1, Inl (Store ''EIO''))"
    using commit_disk_bad by (metis prod.collapse)
  then obtain s1 where s1: "policy_step ctx0 store_disk (OpRevocations snap0, commit_bad, now0)
      = (s1, Inl (Store ''EIO''))" "ps_failed s1"
    by (simp add: step0 store_disk_def store0_def policy_commit_def del: policy_step.simps)
  then have "s1 \<noteq> store_disk" by (auto simp: store_disk_def store0_def)
  from failed_commit_is_fail_stop [OF s1(1) this, of msg0 now0]
  have "ps_state s1 = ps_state store_disk" "fst (policy_step ctx0 s1 msg0) = s1"
    "\<not> is_ok (policy_revocations ctx0 s1 now0)" by simp_all
  with s1(1) show ?thesis by (intro exI conjI)
qed

definition policy_open_ok :: policy_open_io where
  "policy_open_ok = \<lparr>pi_open = open_ok, pi_read = read_ok, pi_meta = None, pi_write = write_ok, pi_meta_after = None,
     pi_seal = \<lparr>si_write = None, si_sync = None, si_dir_sync = None\<rparr>\<rparr>"

lemma store_reopened:
  "\<exists>d s. policy_open ctx0 policy_open_ok disk1 auth_a now0 = (d, Inr s) \<and> ps_state s = policy_state0 \<and>
     ps_disk s = Some d \<and> \<not> ps_failed s \<and> dk_state d = Some \<lparr>fi_bytes = [1], fi_synced = True\<rparr>"
proof -
  obtain su where su: "policy_validate ctx0 policy_state0 auth_a = Inr su"
    using store0_inv by (auto simp: policy_inv_def store0_def)
  let ?d = "disk1\<lparr>dk_locked := True\<rparr>"
  have o: "open_named open_ok disk1 = Inr ?d"
    by (simp add: open_named_def open_ok_def io_ok_def from_directory_def regular_def disk1_def disk0_def)
  have r: "atomic_read read_ok ?d = Inr (Some [1])"
    by (simp add: atomic_read_def read_ok_def regular_def io_ok_def disk1_def max_state_def)
  have "px_from_json ctx0 [1] = Inr (env_of policy_state0)" "policy_digest ctx0 policy_state0 = blake3 crypto0 []"
    by (simp_all add: ctx0_def policy_digest_def)
  then have l: "policy_load ctx0 store0 [1] auth_a now0 = Inr (store0\<lparr>ps_observed := pub_finish (\<lambda>_. su) (ps_observed store0)\<rparr>)"
    using su by (simp add: policy_load_def env_of_def Let_def policy_check_clock_def store0_def policy_state0_def)
  show ?thesis
    by (simp add: policy_open_def policy_open_owned_def policy_open_ok_def o r l store0_memory initialized_def io_ok_def
        seal_def write_lock_def sync_directory_def)
      (simp add: disk1_def disk0_def store0_def)
qed

text \<open>A reachable store with an accepted snapshot, and one on disk whose commit failed.\<close>

theorem policy_reachable_valid_witness:
  "(\<exists>s su. reach (policy_opened ctx0 auth_a) (\<lambda>s t. \<exists>m. t = policy_next ctx0 s m) s \<and> ps_state s = policy_state1 \<and>
      policy_validate ctx0 policy_state1 auth_a = Inr su \<and>
      ps_observed s = (False, su\<lparr>su_durable := False, su_healthy := True\<rparr>)) \<and>
   (\<exists>s su. reach (policy_opened ctx0 auth_a) (\<lambda>s t. \<exists>m. t = policy_next ctx0 s m) s \<and> ps_failed s \<and>
      policy_validate ctx0 policy_state0 auth_a = Inr su \<and>
      ps_observed s = (False, su\<lparr>su_durable := True, su_healthy := False\<rparr>))"
proof (rule conjI)
  let ?reach = "reach (policy_opened ctx0 auth_a) (\<lambda>s t. \<exists>m. t = policy_next ctx0 s m)"
  define s where "s = policy_next ctx0 store0 msg0"
  have st: "ps_state s = policy_state1" "\<not> ps_failed s" "ps_disk s = None"
    by (simp_all add: s_def policy_next_def msg0_def step0 policy_commit_def store0_def del: policy_step.simps)
  have "?reach store0" using store0_memory by (intro reach_init) (simp add: policy_opened_def)
  then have r: "?reach s" unfolding s_def by (rule reach_step) blast
  from policy_reachable_valid [OF r] r st
  show "\<exists>s su. ?reach s \<and> ps_state s = policy_state1 \<and> policy_validate ctx0 policy_state1 auth_a = Inr su \<and>
      ps_observed s = (False, su\<lparr>su_durable := False, su_healthy := True\<rparr>)" by auto
next
  let ?reach = "reach (policy_opened ctx0 auth_a) (\<lambda>s t. \<exists>m. t = policy_next ctx0 s m)"
  obtain d s0 where s0: "policy_open ctx0 policy_open_ok disk1 auth_a now0 = (d, Inr s0)" "ps_state s0 = policy_state0"
    "ps_disk s0 = Some d" "\<not> ps_failed s0"
    using store_reopened by blast
  define s where "s = policy_next ctx0 s0 (OpRevocations snap0, broken_io, now0)"
  have "commit_disk ctx0 broken_io d policy_state1 = (d, Inl (store_error ''EIO''))"
    by (simp add: commit_disk_eq broken_io_def atomic_read_def)
  then have st: "ps_state s = policy_state0" "ps_failed s" "ps_disk s = Some d"
    using s0 by (simp_all add: s_def policy_next_def step0 policy_commit_def del: policy_step.simps)
  have "names_wf policy_state0" by (simp add: names_wf_def policy_state0_def)
  then have "?reach s0" using s0 by (intro reach_init) (auto simp: policy_opened_def)
  then have r: "?reach s" unfolding s_def by (rule reach_step) blast
  from policy_reachable_valid [OF r] r st
  show "\<exists>s su. ?reach s \<and> ps_failed s \<and> policy_validate ctx0 policy_state0 auth_a = Inr su \<and>
      ps_observed s = (False, su\<lparr>su_durable := True, su_healthy := False\<rparr>)" by auto
qed

text \<open>
  A commit whose last directory sync fails: the new file is in place but not certain, so a crash
  can leave the old state or the new one.
\<close>

definition commit_unsure :: commit_io where
  "commit_unsure = \<lparr>ci_read = read_ok, ci_write = write_ok\<lparr>wi_dir_sync := Some (IoError None ''EIO'')\<rparr>\<rparr>"

lemma in_memory0: "in_memory ctx0 store_disk (OpRevocations snap0, io, now0) = policy_state1"
  by (simp add: in_memory_def policy_next_def step0 store_disk_def store0_def policy_commit_def del: policy_step.simps)

lemma trace_unsure:
  "\<exists>tr. commit_disk_trace ctx0 commit_unsure disk1 policy_state1 = (tr, Inl (Store ''EIO'')) \<and>
     crash_images (last tr) = {Some [1], Some [2]}"
  by (simp add: commit_disk_trace_def commit_unsure_def atomic_read_def read_ok_def regular_def io_ok_def disk1_def
      disk0_def max_state_def encode0 atomic_write_trace_def write_ok_def open_staging_Opened write_steps_def
      write_step_defs write_error_def store_error_def Let_def crash_images_def)

theorem policy_crash_recovery_witness:
  "\<exists>s1 d1. policy_step ctx0 store_disk (OpRevocations snap0, commit_unsure, now0) = (s1, Inl (Store ''EIO'')) \<and>
     ps_disk s1 = Some d1 \<and> crash_images d1 = {Some [1], Some [2]} \<and>
     (\<forall>img\<in>crash_images d1. \<exists>bs st. img = Some bs \<and> policy_encode ctx0 st = Inr bs \<and>
        (st = policy_state0 \<or> st = policy_state1))"
proof -
  let ?m = "(OpRevocations snap0, commit_unsure, now0)"
  obtain tr where tr: "commit_disk_trace ctx0 commit_unsure disk1 policy_state1 = (tr, Inl (Store ''EIO''))"
    "crash_images (last tr) = {Some [1], Some [2]}"
    using trace_unsure by blast
  then obtain s1 where s1: "policy_step ctx0 store_disk ?m = (s1, Inl (Store ''EIO''))" "ps_disk s1 = Some (last tr)"
    by (simp add: step0 store_disk_def store0_def policy_commit_def commit_disk_def del: policy_step.simps)
  have json: "px_from_json ctx0 bs = Inr env" if "px_to_json ctx0 env = Inr bs" for env bs
    using that by (auto simp: ctx0_def split: if_splits)
  have disk: "ps_disk store_disk = Some disk1" and enc: "policy_encode ctx0 (ps_state store_disk) = Inr [1]"
    and clean: "crash_images disk1 = {Some [1]}"
    by (simp_all add: store_disk_def store0_def encode0 crash_images_def disk1_def)
  have st: "ps_state store_disk = policy_state0" by (simp add: store_disk_def store0_def)
  have all: "policy_step_trace ctx0 store_disk ?m \<noteq> [] \<and>
      ps_disk s1 = Some (last (policy_step_trace ctx0 store_disk ?m)) \<and>
      (\<forall>d1\<in>set (policy_step_trace ctx0 store_disk ?m). \<forall>img\<in>crash_images d1.
         \<exists>bs st. img = Some bs \<and> policy_encode ctx0 st = Inr bs \<and> (st = policy_state0 \<or> st = policy_state1))"
    using policy_crash_recovery [OF store_disk_inv disk enc clean s1(1) json] unfolding in_memory0 st by meson
  then have "last tr \<in> set (policy_step_trace ctx0 store_disk ?m)" using s1(2) by (metis last_in_set option.inject)
  then have "\<forall>img\<in>crash_images (last tr). \<exists>bs st. img = Some bs \<and> policy_encode ctx0 st = Inr bs \<and>
        (st = policy_state0 \<or> st = policy_state1)"
    using all by blast
  then show ?thesis using s1 tr(2) by (intro exI conjI)
qed

lemma valid_r0: "valid_at lease_r0 now0"
  using lease_r0_new by (rule lease_new_valid)

theorem revocations_served_fresh_witness:
  "\<exists>s1. policy_revocations ctx0 s1 now0 = Inr (Some (snap0, revocations0, lease_r0)) \<and>
     rv_issued_at revocations0 \<le> as_secs (r_wall now0) \<and> as_secs (r_wall now0) < rv_expires_at revocations0"
proof -
  define s where "s = policy_next ctx0 store0 msg0"
  have st: "ps_state s = policy_state1" "ps_failed s = False"
    by (simp_all add: s_def policy_next_def msg0_def step0 policy_commit_def store0_def del: policy_step.simps)
  have inv: "policy_inv ctx0 auth_a s"
    unfolding s_def by (rule policy_step_inv [OF store0_inv])
  have "policy_check_clock s now0 = Inr ()"
    by (rule clock0) (simp_all add: st policy_state1_def)
  then have q: "policy_revocations ctx0 s now0 = Inr (Some (snap0, revocations0, lease_r0))"
    using snap0_verifies valid_r0
    by (simp add: policy_revocations_def st policy_state1_def policy_state0_def ctx0_simps auth_a_key)
  from revocations_served_fresh [OF inv q] q show ?thesis by blast
qed

definition binding0 :: signed_name_binding where
  "binding0 = \<lparr>nb_payload = [2], nb_signature = replicate 64 7\<rparr>"

definition binding_payload0 :: name_binding_payload where
  "binding_payload0 = binding_for registry0 (blake3 crypto0 [1]) ''desk'' (replicate 32 5)"

lemma binding0_verifies:
  "binding_verify crypto0 binding_codec0 binding0 (replicate 32 7) ''desk'' 1010 = Inr binding_payload0"
proof -
  have "valid_name ''desk''"
    by (simp add: valid_name_def name_byte_ok_def less_eq_char_def)
  then show ?thesis
    by (simp add: binding_verify_Inr_iff binding0_def binding_codec0_def binding_payload0_def binding_for_def
        registry0_def max_binding_bytes_def check_lifetime_def max_name_ttl_secs_def res_simps crypto0_def)
qed

lemma binding0_auth: "st_authority (nb_stamp binding_payload0) = auth_a"
  "nb_issued_at binding_payload0 = 1000" "nb_expires_at binding_payload0 = 1060"
  by (simp_all add: binding_payload0_def binding_for_def registry0_def auth_a_def)

lemma name0_accepted:
  "\<exists>s1. accept_name ctx0 commit_ok store0 binding0 ''desk'' now0 = (s1, Inr binding_payload0) \<and>
     ps_failed s1 = False \<and>
     ps_state s1 = policy_state0\<lparr>po_names := Some \<lparr>nm_anchor = binding0,
         nm_hashes = [(''desk'', blake3 crypto0 [2])]\<rparr>, po_names_lease := Some lease_r0, po_wall_floor := 1010\<rparr>"
proof -
  have key: "verifying_key crypto0 (po_authority (ps_state store0)) = Inr (replicate 32 7)"
    by (simp add: store0_def policy_state0_def auth_a_key)
  have next_names: "names_next ctx0 (ps_state store0) (replicate 32 7) binding0 binding_payload0 ''desk'' now0 =
      Inr (Some (\<lparr>nm_anchor = binding0, nm_hashes = [(''desk'', blake3 crypto0 [2])]\<rparr>, Some lease_r0))"
    using lease_r0_new
    by (simp add: names_next_def store0_def policy_state0_def binding0_auth ctx0_simps binding0_def)
  have w: "as_secs (r_wall now0) = 1010" by (simp add: now0_def)
  have clk: "policy_check_clock store0 now0 = Inr ()"
    by (rule clock0) (simp_all add: store0_def policy_state0_def)
  have stamp: "check_stamp (ps_state store0) (nb_stamp binding_payload0) = Inr ()"
    by (simp add: check_stamp_def binding0_auth store0_def policy_state0_def)
  have "accept_name ctx0 commit_ok store0 binding0 ''desk'' now0 =
      then_ok (policy_commit ctx0 commit_ok store0
        ((ps_state store0)\<lparr>po_names := Some \<lparr>nm_anchor = binding0, nm_hashes = [(''desk'', blake3 crypto0 [2])]\<rparr>,
           po_names_lease := Some lease_r0, po_wall_floor := 1010\<rparr>)
        (\<lambda>su. su\<lparr>su_streams := (su_streams su)[2 := Some
           \<lparr>sm_revision = st_revision (nb_stamp binding_payload0), sm_entries = 1, sm_lease = lease_r0\<rparr>]\<rparr>))
      binding_payload0"
    using key next_names clk stamp binding0_verifies by (simp add: accept_name_def w ctx0_simps)
  then show ?thesis
    by (simp add: then_ok_def policy_commit_def store0_def Let_def)
qed

theorem accepted_names_agree_witness:
  "\<exists>s1 s2. accept_name ctx0 commit_ok store0 binding0 ''desk'' now0 = (s1, Inr binding_payload0) \<and>
     accept_name ctx0 commit_ok s1 binding0 ''desk'' now0 = (s2, Inr binding_payload0) \<and>
     nb_registry_digest binding_payload0 = nb_registry_digest binding_payload0"
proof -
  obtain s1 where a1: "accept_name ctx0 commit_ok store0 binding0 ''desk'' now0 = (s1, Inr binding_payload0)"
    and f: "ps_failed s1 = False"
    and st: "ps_state s1 = policy_state0\<lparr>po_names := Some \<lparr>nm_anchor = binding0,
         nm_hashes = [(''desk'', blake3 crypto0 [2])]\<rparr>, po_names_lease := Some lease_r0, po_wall_floor := 1010\<rparr>"
    using name0_accepted by blast
  have key: "verifying_key crypto0 (po_authority (ps_state s1)) = Inr (replicate 32 7)"
    by (simp add: st policy_state0_def auth_a_key)
  have w: "as_secs (r_wall now0) = 1010" by (simp add: now0_def)
  have clk: "policy_check_clock s1 now0 = Inr ()"
    by (rule clock0) (simp_all add: st f)
  have stamp: "check_stamp (ps_state s1) (nb_stamp binding_payload0) = Inr ()"
    by (simp add: check_stamp_def binding0_auth st policy_state0_def)
  have nn: "names_next ctx0 (ps_state s1) (replicate 32 7) binding0 binding_payload0 ''desk'' now0 = Inr None"
    using binding_committed_after_verify [OF binding0_verifies] valid_r0
    by (simp add: names_next_def st policy_state0_def auth_a_def ctx0_simps lease_live_def binding0_def)
  have a2: "accept_name ctx0 commit_ok s1 binding0 ''desk'' now0 = (s1, Inr binding_payload0)"
    using key clk stamp nn binding0_verifies by (simp add: accept_name_def w ctx0_simps)
  have a3: "accept_name ctx0 commit_ok (foldl (policy_next ctx0) s1 []) binding0 ''desk'' now0
      = (s1, Inr binding_payload0)" using a2 by simp
  have "nb_registry_digest binding_payload0 = nb_registry_digest binding_payload0"
    using accepted_names_agree [OF store0_inv a1 a3 refl] by (rule conjunct1)
  with a1 a2 show ?thesis by (intro exI conjI)
qed

end
