(* ===== verification/Rds_Directory.thy ===== *)
theory Rds_Directory
  imports Rds_Http Rds_Admission Rds_Policy_Invariants Rds_Record_Refine
begin

text \<open>
  The directory service (\<open>rds-discovery/src/service.rs\<close>): routing and the handlers over the
  record store, the policy store, the enrollment and the limiter. A handler runs to completion on
  a worker; the store's lock covers its admission callback, so a handler is one step of the
  model. The record store is the \<open>RecordStore\<close> trait object: a record of its operations, filled
  from the in-memory or the durable store. JSON is a parameter, by message type.
\<close>

section \<open>Endpoint keys in paths\<close>

text \<open>
  \<open>str::to_uppercase\<close> acts on ASCII bytes as \<^const>\<open>ascii_upper\<close>; \<open>unicode_upper\<close> stands for the
  Unicode tables it consults on other text. \<open>b32\<close> is \<open>data_encoding::BASE32_NOPAD.decode\<close>.
\<close>

definition to_uppercase :: "(string \<Rightarrow> bytes) \<Rightarrow> string \<Rightarrow> bytes" where
  "to_uppercase unicode_upper s = (if ascii s then map ascii_upper (str_bytes s) else unicode_upper s)"

definition key_nib :: "byte \<Rightarrow> byte option" where
  "key_nib c =
     (if 48 \<le> c \<and> c \<le> 57 then Some (c - 48)
      else if 97 \<le> c \<and> c \<le> 102 then Some (c - 97 + 10)
      else if 65 \<le> c \<and> c \<le> 70 then Some (c - 65 + 10)
      else None)"

fun key_hex :: "bytes \<Rightarrow> (discovery_error, bytes) result" where
  "key_hex (hi # lo # rest) =
     (case (key_nib hi, key_nib lo) of
        (Some h, Some l) \<Rightarrow> rbind (key_hex rest) (\<lambda>key. Inr (or (push_bit 4 h) l # key))
      | _ \<Rightarrow> Inl (InvalidRecord ''endpoint key is not hex''))"
| "key_hex _ = Inr []"

definition endpoint_key_from_str ::
  "(string \<Rightarrow> bytes) \<Rightarrow> (bytes \<Rightarrow> bytes option) \<Rightarrow> string \<Rightarrow> (discovery_error, endpoint_key) result" where
  "endpoint_key_from_str unicode_upper b32 s =
     (if length s = 64 then key_hex (str_bytes s)
      else rbind (ok_or (InvalidRecord ''endpoint key is not base32'') (b32 (to_uppercase unicode_upper s))) (\<lambda>bs.
           rbind (ensure (length bs = 32) (InvalidRecord ''endpoint key is not 32 bytes'')) (\<lambda>_.
           Inr bs)))"

section \<open>Errors and replies\<close>

fun error_text :: "discovery_error \<Rightarrow> string" where
  "error_text Busy = ''policy state is owned by another process''"
| "error_text (Configuration m) = ''directory configuration invalid: '' @ m"
| "error_text BadSignature = ''record signature invalid''"
| "error_text (InvalidRecord m) = ''record malformed: '' @ m"
| "error_text Expired = ''record expired''"
| "error_text Stale = ''record is not newer than the stored record''"
| "error_text NotFound = ''record not found''"
| "error_text (Unreachable m) = ''directory unreachable: '' @ m"
| "error_text (Http status m) = ''directory answered '' @ print_number 10 status @ '': '' @ m"
| "error_text RateLimited = ''rate limited''"
| "error_text NotEnrolled = ''publisher is not enrolled''"
| "error_text (Store m) = ''store error: '' @ m"
| "error_text (StorageUnavailable m) = ''durable storage is full: '' @ m"

fun status_for :: "discovery_error \<Rightarrow> u16" where
  "status_for NotFound = 404"
| "status_for BadSignature = 401"
| "status_for Stale = 409"
| "status_for Expired = 410"
| "status_for RateLimited = 429"
| "status_for NotEnrolled = 403"
| "status_for (InvalidRecord m) = 400"
| "status_for _ = 500"

text \<open>The JSON values the service answers with.\<close>

datatype reply =
    JError string
  | JStored
  | JStoredChanged bool
  | JDeleted
  | JHealth
  | JRecord endpoint_record
  | JName signed_name_binding
  | JRevocations signed_revocations

definition response_json :: "(reply \<Rightarrow> bytes option) \<Rightarrow> u16 \<Rightarrow> reply \<Rightarrow> response" where
  "response_json to_vec status body =
     \<lparr>rp_status = status, rp_body = (case to_vec body of Some bs \<Rightarrow> bs | None \<Rightarrow> str_bytes ''null'')\<rparr>"

definition response_text :: "u16 \<Rightarrow> string \<Rightarrow> response" where
  "response_text status body = \<lparr>rp_status = status, rp_body = str_bytes body\<rparr>"

definition response_error :: "(reply \<Rightarrow> bytes option) \<Rightarrow> u16 \<Rightarrow> discovery_error \<Rightarrow> response" where
  "response_error to_vec status err = response_json to_vec status (JError (error_text err))"

section \<open>State\<close>

record metrics =
  mt_puts_ok :: "64 word"
  mt_puts_rejected :: "64 word"
  mt_gets :: "64 word"
  mt_deletes :: "64 word"
  mt_name_lookups :: "64 word"
  mt_registry_puts :: "64 word"
  mt_revocations_puts :: "64 word"
  mt_requests_bad :: "64 word"
  mt_writes_rate_limited :: "64 word"
  mt_gc_retired :: "64 word"
  mt_gc_failures :: "64 word"
  mt_connections_rejected :: "64 word"
  mt_workers_rejected :: "64 word"
  mt_task_panics :: "64 word"
  mt_requests :: "64 word"

definition metrics_default :: metrics where
  "metrics_default =
     \<lparr>mt_puts_ok = 0, mt_puts_rejected = 0, mt_gets = 0, mt_deletes = 0, mt_name_lookups = 0,
      mt_registry_puts = 0, mt_revocations_puts = 0, mt_requests_bad = 0, mt_writes_rate_limited = 0,
      mt_gc_retired = 0, mt_gc_failures = 0, mt_connections_rejected = 0, mt_workers_rejected = 0,
      mt_task_panics = 0, mt_requests = 0\<rparr>"

text \<open>What the admission callbacks change: the limiter and the counters.\<close>

type_synonym shared = "limiter \<times> metrics"

record 's directory =
  di_store :: 's
  di_policy :: "policy_store option"
  di_policy_poisoned :: bool
  di_shared :: shared

record 's store_ops =
  so_put :: "endpoint_record \<Rightarrow> shared admit \<Rightarrow> 's \<times> shared \<Rightarrow> ('s \<times> shared) \<times> (discovery_error, unit) result"
  so_get :: "endpoint_key \<Rightarrow> 's \<times> shared \<Rightarrow> ('s \<times> shared) \<times> (discovery_error, endpoint_record) result"
  so_remove :: "delete_request \<Rightarrow> shared admit \<Rightarrow> 's \<times> shared \<Rightarrow> ('s \<times> shared) \<times> (discovery_error, unit) result"
  so_collect :: "'s \<times> shared \<Rightarrow> ('s \<times> shared) \<times> (discovery_error, nat) result"

text \<open>The parts of the service that do not change, and the third-party codecs.\<close>

record dir_ctx =
  dx_limits :: limits
  dx_enrollment :: enrollment
  dx_policy :: policy_ctx
  dx_upper :: "string \<Rightarrow> bytes"
  dx_b32 :: "bytes \<Rightarrow> bytes option"
  dx_to_vec :: "reply \<Rightarrow> bytes option"
  dx_record :: "bytes \<Rightarrow> (string, endpoint_record) result"
  dx_delete :: "bytes \<Rightarrow> (string, delete_request) result"
  dx_registry :: "bytes \<Rightarrow> (string, signed_registry) result"
  dx_revocations :: "bytes \<Rightarrow> (string, signed_revocations) result"

text \<open>What one request sees of the machine: its instant, its clock reading and the policy disk.\<close>

record moment =
  mo_instant :: duration
  mo_clock :: "(discovery_error, reading) result"
  mo_io :: commit_io
section \<open>Handlers\<close>

definition bump :: "(metrics \<Rightarrow> metrics) \<Rightarrow> 's directory \<Rightarrow> 's directory" where
  "bump f s = s\<lparr>di_shared := (fst (di_shared s), f (snd (di_shared s)))\<rparr>"

definition charge :: "shared \<times> (discovery_error, unit) result \<Rightarrow> shared \<times> (discovery_error, unit) result" where
  "charge m =
     (case m of ((l, c), r) \<Rightarrow>
        ((l, if r = Inl RateLimited then c\<lparr>mt_writes_rate_limited := mt_writes_rate_limited c + 1\<rparr> else c), r))"

text \<open>The two admission callbacks: a publisher's budget and a policy role's.\<close>

definition admit_record :: "dir_ctx \<Rightarrow> moment \<Rightarrow> endpoint_key \<Rightarrow> shared admit" where
  "admit_record dx mo key known sh =
     (case limiter_record key known (dx_limits dx) (mo_instant mo) (fst sh) of
        (l, r) \<Rightarrow> charge ((l, snd sh), r))"

definition admit_policy :: "dir_ctx \<Rightarrow> moment \<Rightarrow> bool \<Rightarrow> shared \<Rightarrow> shared \<times> (discovery_error, unit) result" where
  "admit_policy dx mo revocations sh =
     (case limiter_policy revocations (dx_limits dx) (mo_instant mo) (fst sh) of
        (l, r) \<Rightarrow> charge ((l, snd sh), r))"

definition put_record ::
  "dir_ctx \<Rightarrow> 's store_ops \<Rightarrow> moment \<Rightarrow> request \<Rightarrow> 's directory \<Rightarrow> 's directory \<times> response" where
  "put_record dx ops mo req s =
     (case dx_record dx (rq_body req) of
        Inl e \<Rightarrow>
          (bump (\<lambda>c. c\<lparr>mt_puts_rejected := mt_puts_rejected c + 1\<rparr>) s,
           response_error (dx_to_vec dx) 400 (InvalidRecord e))
      | Inr rec \<Rightarrow>
          if \<not> allows (dx_enrollment dx) (er_key rec)
          then (bump (\<lambda>c. c\<lparr>mt_puts_rejected := mt_puts_rejected c + 1\<rparr>) s,
                response_error (dx_to_vec dx) 403 NotEnrolled)
          else
            (case so_put ops rec (admit_record dx mo (er_key rec)) (di_store s, di_shared s) of
               ((st, sh), r) \<Rightarrow>
                 (let s2 = s\<lparr>di_store := st, di_shared := sh\<rparr> in
                  case r of
                    Inr _ \<Rightarrow>
                      (bump (\<lambda>c. c\<lparr>mt_puts_ok := mt_puts_ok c + 1\<rparr>) s2,
                       response_json (dx_to_vec dx) 200 JStored)
                  | Inl e \<Rightarrow>
                      (bump (\<lambda>c. c\<lparr>mt_puts_rejected := mt_puts_rejected c + 1\<rparr>) s2,
                       response_error (dx_to_vec dx) (status_for e) e))))"

definition get_record ::
  "dir_ctx \<Rightarrow> 's store_ops \<Rightarrow> string \<Rightarrow> 's directory \<Rightarrow> 's directory \<times> response" where
  "get_record dx ops name s0 =
     (let s = bump (\<lambda>c. c\<lparr>mt_gets := mt_gets c + 1\<rparr>) s0 in
      case endpoint_key_from_str (dx_upper dx) (dx_b32 dx) name of
        Inl e \<Rightarrow> (s, response_error (dx_to_vec dx) 400 e)
      | Inr key \<Rightarrow>
          if \<not> allows (dx_enrollment dx) key then (s, response_error (dx_to_vec dx) 403 NotEnrolled)
          else
            (case so_get ops key (di_store s, di_shared s) of
               ((st, sh), r) \<Rightarrow>
                 (s\<lparr>di_store := st, di_shared := sh\<rparr>,
                  (case r of
                     Inr rec \<Rightarrow> response_json (dx_to_vec dx) 200 (JRecord rec)
                   | Inl e \<Rightarrow> response_error (dx_to_vec dx) (status_for e) e))))"

definition delete_record ::
  "dir_ctx \<Rightarrow> 's store_ops \<Rightarrow> moment \<Rightarrow> string \<Rightarrow> request \<Rightarrow> 's directory \<Rightarrow> 's directory \<times> response" where
  "delete_record dx ops mo name req s =
     (case endpoint_key_from_str (dx_upper dx) (dx_b32 dx) name of
        Inl e \<Rightarrow> (s, response_error (dx_to_vec dx) 400 e)
      | Inr key \<Rightarrow>
          if \<not> allows (dx_enrollment dx) key then (s, response_error (dx_to_vec dx) 403 NotEnrolled)
          else
            (case dx_delete dx (rq_body req) of
               Inl e \<Rightarrow> (s, response_error (dx_to_vec dx) 400 (InvalidRecord e))
             | Inr tomb \<Rightarrow>
                 if dr_key tomb \<noteq> key then (s, response_error (dx_to_vec dx) 401 BadSignature)
                 else
                   (let s1 = bump (\<lambda>c. c\<lparr>mt_deletes := mt_deletes c + 1\<rparr>) s in
                    case so_remove ops tomb (admit_record dx mo key) (di_store s1, di_shared s1) of
                      ((st, sh), r) \<Rightarrow>
                        (s1\<lparr>di_store := st, di_shared := sh\<rparr>,
                         (case r of
                            Inr _ \<Rightarrow> response_json (dx_to_vec dx) 200 JDeleted
                          | Inl e \<Rightarrow> response_error (dx_to_vec dx) (status_for e) e)))))"

text \<open>\<open>with_policy\<close>: the mutex, then the optional store; the closure also changes the shared state.\<close>

definition with_policy ::
  "(shared \<times> policy_store \<Rightarrow> (shared \<times> policy_store) \<times> (discovery_error, 'a) result) \<Rightarrow> 's directory \<Rightarrow>
     's directory \<times> (discovery_error, 'a) result" where
  "with_policy apply_to s =
     (if di_policy_poisoned s then (s, Inl (Store ''policy state poisoned''))
      else case di_policy s of
             None \<Rightarrow> (s, Inl NotFound)
           | Some p \<Rightarrow>
               (case apply_to (di_shared s, p) of
                  ((sh, p2), r) \<Rightarrow> (s\<lparr>di_shared := sh, di_policy := Some p2\<rparr>, r)))"

definition get_name ::
  "dir_ctx \<Rightarrow> moment \<Rightarrow> string \<Rightarrow> 's directory \<Rightarrow> 's directory \<times> response" where
  "get_name dx mo name s0 =
     (let s = bump (\<lambda>c. c\<lparr>mt_name_lookups := mt_name_lookups c + 1\<rparr>) s0 in
      if \<not> valid_name name
      then (s, response_error (dx_to_vec dx) 400 (InvalidRecord ''invalid device name''))
      else
        (case with_policy (\<lambda>(sh, p). attempt (sh, p) (mo_clock mo) (\<lambda>now. ((sh, p), policy_name p name now))) s of
           (s2, r) \<Rightarrow>
             (s2, (case r of
                     Inr proof \<Rightarrow> response_json (dx_to_vec dx) 200 (JName proof)
                   | Inl e \<Rightarrow> response_error (dx_to_vec dx) (status_for e) e))))"

definition policy_put_reply :: "dir_ctx \<Rightarrow> (discovery_error, bool) result \<Rightarrow> response" where
  "policy_put_reply dx r =
     (case r of
        Inr changed \<Rightarrow> response_json (dx_to_vec dx) 200 (JStoredChanged changed)
      | Inl NotFound \<Rightarrow> response_error (dx_to_vec dx) 401 BadSignature
      | Inl e \<Rightarrow> response_error (dx_to_vec dx) (status_for e) e)"

definition put_registry ::
  "dir_ctx \<Rightarrow> moment \<Rightarrow> request \<Rightarrow> 's directory \<Rightarrow> 's directory \<times> response" where
  "put_registry dx mo req s =
     (case with_policy (\<lambda>sp.
             attempt sp (map_err InvalidRecord (dx_registry dx (rq_body req))) (\<lambda>snap.
             attempt sp (mo_clock mo) (\<lambda>now.
             accept_registry_admitted (dx_policy dx) (mo_io mo) (admit_policy dx mo False) sp snap now))) s of
        (s2, r) \<Rightarrow>
          ((if r = Inr True then bump (\<lambda>c. c\<lparr>mt_registry_puts := mt_registry_puts c + 1\<rparr>) s2 else s2),
           policy_put_reply dx r))"

definition get_revocations :: "dir_ctx \<Rightarrow> moment \<Rightarrow> 's directory \<Rightarrow> 's directory \<times> response" where
  "get_revocations dx mo s =
     (case with_policy (\<lambda>(sh, p). attempt (sh, p) (mo_clock mo) (\<lambda>now. ((sh, p), policy_revocations (dx_policy dx) p now))) s of
        (s2, r) \<Rightarrow>
          (s2, (case r of
                  Inr (Some (snap, _, _)) \<Rightarrow> response_json (dx_to_vec dx) 200 (JRevocations snap)
                | Inr None \<Rightarrow> response_error (dx_to_vec dx) 404 NotFound
                | Inl e \<Rightarrow> response_error (dx_to_vec dx) (status_for e) e)))"

definition put_revocations ::
  "dir_ctx \<Rightarrow> moment \<Rightarrow> request \<Rightarrow> 's directory \<Rightarrow> 's directory \<times> response" where
  "put_revocations dx mo req s =
     (case with_policy (\<lambda>sp.
             attempt sp (map_err InvalidRecord (dx_revocations dx (rq_body req))) (\<lambda>snap.
             attempt sp (mo_clock mo) (\<lambda>now.
             accept_revocations_admitted (dx_policy dx) (mo_io mo) (admit_policy dx mo True) sp snap now))) s of
        (s2, r) \<Rightarrow>
          ((if r = Inr True then bump (\<lambda>c. c\<lparr>mt_revocations_puts := mt_revocations_puts c + 1\<rparr>) s2 else s2),
           policy_put_reply dx r))"

section \<open>Routing\<close>

definition route_segments :: "request \<Rightarrow> string list" where
  "route_segments req = filter (\<lambda>w. w \<noteq> []) (split_on (\<lambda>c. c = CHR ''/'') (rq_path req))"

definition route ::
  "dir_ctx \<Rightarrow> 's store_ops \<Rightarrow> moment \<Rightarrow> request \<Rightarrow> 's directory \<Rightarrow> 's directory \<times> response" where
  "route dx ops mo req s =
     (let m = rq_method req; segs = route_segments req in
      if m = ''HEAD'' then (s, response_text 405 [])
      else if m = ''PUT'' \<and> segs = [''v1'', ''records''] then put_record dx ops mo req s
      else if m = ''GET'' \<and> length segs = 3 \<and> take 2 segs = [''v1'', ''records'']
        then get_record dx ops (segs ! 2) s
      else if m = ''DELETE'' \<and> length segs = 3 \<and> take 2 segs = [''v1'', ''records'']
        then delete_record dx ops mo (segs ! 2) req s
      else if m = ''GET'' \<and> length segs = 3 \<and> take 2 segs = [''v1'', ''names'']
        then get_name dx mo (segs ! 2) s
      else if m = ''PUT'' \<and> segs = [''v1'', ''registry''] then put_registry dx mo req s
      else if m = ''GET'' \<and> segs = [''v1'', ''revocations''] then get_revocations dx mo s
      else if m = ''PUT'' \<and> segs = [''v1'', ''revocations''] then put_revocations dx mo req s
      else if m = ''GET'' \<and> segs = [''v1'', ''health''] then (s, response_json (dx_to_vec dx) 200 JHealth)
      else (s, response_text 404 ''unknown route''))"

section \<open>Connections and maintenance\<close>

text \<open>
  What becomes of the blocking job of a request: it runs, it is cancelled before it starts (its
  reply channel closes), or the worker budget refuses it.
\<close>

datatype worker_outcome = WorkerRan | WorkerLost | WorkerRejected

definition serve_request ::
  "dir_ctx \<Rightarrow> 's store_ops \<Rightarrow> moment \<Rightarrow> url_parser \<Rightarrow> in_stream \<Rightarrow> worker_outcome \<Rightarrow> 's directory \<Rightarrow>
     's directory \<times> response option" where
  "serve_request dx ops mo url stream worker s =
     (case read_request url stream of
        Inr (Some req) \<Rightarrow>
          (let s1 = bump (\<lambda>c. c\<lparr>mt_requests := mt_requests c + 1\<rparr>) s;
               (s2, resp) =
                 (case worker of
                    WorkerRan \<Rightarrow> route dx ops mo req s1
                  | WorkerLost \<Rightarrow>
                      (s1, response_error (dx_to_vec dx) 500 (Store ''directory worker ended without a response''))
                  | WorkerRejected \<Rightarrow>
                      (bump (\<lambda>c. c\<lparr>mt_workers_rejected := mt_workers_rejected c + 1\<rparr>) s1,
                       response_error (dx_to_vec dx) 429 RateLimited))
           in (s2, Some (if rq_method req = ''HEAD'' then resp\<lparr>rp_body := []\<rparr> else resp)))
      | Inr None \<Rightarrow> (s, None)
      | Inl e \<Rightarrow>
          (bump (\<lambda>c. c\<lparr>mt_requests_bad := mt_requests_bad c + 1\<rparr>) s,
           Some (response_error (dx_to_vec dx)
             (case e of InvalidRecord m \<Rightarrow> if sublist ''body too large'' m then 413 else 400 | _ \<Rightarrow> 400) e)))"

definition collect_job :: "'s store_ops \<Rightarrow> 's directory \<Rightarrow> 's directory" where
  "collect_job ops s =
     (case so_collect ops (di_store s, di_shared s) of
        ((st, sh), r) \<Rightarrow>
          (let s2 = s\<lparr>di_store := st, di_shared := sh\<rparr> in
           case r of
             Inr count \<Rightarrow> bump (\<lambda>c. c\<lparr>mt_gc_retired := mt_gc_retired c + of_nat count\<rparr>) s2
           | Inl _ \<Rightarrow> bump (\<lambda>c. c\<lparr>mt_gc_failures := mt_gc_failures c + 1\<rparr>) s2))"

section \<open>Start\<close>

definition serve_limits_ok :: "limits \<Rightarrow> bool" where
  "serve_limits_ok lim \<longleftrightarrow>
     \<not> (lm_max_workers lim = 0 \<or> lm_max_conns lim = 0 \<or> lm_conn_timeout lim = 0 \<or>
        lm_writer_per_minute lim = 0 \<or> lm_put_min_interval lim > from_secs 60)"

definition serve_policy ::
  "policy_ctx \<Rightarrow> commit_io \<Rightarrow> (discovery_error, reading) result \<Rightarrow> policy_store option \<Rightarrow> bytes option \<Rightarrow>
     signed_registry option \<Rightarrow> (discovery_error, policy_store option) result" where
  "serve_policy ctx io clock policy registry_key registry =
     rbind
       (case policy of
          Some p \<Rightarrow>
            if (case registry_key of None \<Rightarrow> False | Some k \<Rightarrow> a_key (po_bootstrap (ps_state p)) \<noteq> k)
            then Inl (Configuration ''policy bootstrap key mismatch'')
            else Inr (Some p)
        | None \<Rightarrow>
            (case registry_key of
               None \<Rightarrow> Inr None
             | Some key \<Rightarrow>
                 rbind (authority_new key 1) (\<lambda>a. rbind (policy_memory ctx a) (\<lambda>p. Inr (Some p)))))
       (\<lambda>policy.
     case registry of
       None \<Rightarrow> Inr policy
     | Some snap \<Rightarrow>
         rbind (ok_or BadSignature policy) (\<lambda>p.
         rbind clock (\<lambda>now.
         case bootstrap_registry ctx io p snap now of
           (_, Inl e) \<Rightarrow> Inl e | (p2, Inr _) \<Rightarrow> Inr (Some p2))))"

definition serve_state :: "'s \<Rightarrow> policy_store option \<Rightarrow> duration \<Rightarrow> 's directory" where
  "serve_state store policy now =
     \<lparr>di_store = store, di_policy = policy, di_policy_poisoned = False,
      di_shared = (limiter_default now, metrics_default)\<rparr>"

section \<open>The record stores behind the trait\<close>

definition memory_ops :: "store_ctx \<Rightarrow> moment \<Rightarrow> memory_store store_ops" where
  "memory_ops x mo =
     \<lparr>so_put = \<lambda>r admit. memory_put_admitted x r (mo_clock mo) admit,
      so_get = \<lambda>key. memory_get x key (mo_clock mo),
      so_remove = \<lambda>tomb admit. memory_remove_admitted x tomb (mo_clock mo) admit,
      so_collect = memory_collect_expired x (mo_clock mo)\<rparr>"

definition file_ops :: "file_ctx \<Rightarrow> access_io \<Rightarrow> moment \<Rightarrow> file_store store_ops" where
  "file_ops fx io mo =
     \<lparr>so_put = \<lambda>r admit. file_put_admitted fx io r (mo_clock mo) admit,
      so_get = \<lambda>key. file_get fx io key (mo_clock mo),
      so_remove = \<lambda>tomb admit. file_remove_admitted fx io tomb (mo_clock mo) admit,
      so_collect = file_collect_expired fx io (mo_clock mo)\<rparr>"

text \<open>The store touches the callback's state only by calling the callback, at most once.\<close>

definition called :: "'a admit \<Rightarrow> 'a \<Rightarrow> 'a \<Rightarrow> bool" where
  "called admit a b \<longleftrightarrow> b = a \<or> (\<exists>known. b = fst (admit known a))"

lemma called_refl [simp]: "called admit a a"
  by (simp add: called_def)

lemma called_admit: "admit known a = (b, r) \<Longrightarrow> called admit a b"
  by (auto simp: called_def intro: exI [of _ known])

lemma memory_access_called:
  "memory_access_admitted x capacity key e clock admit (m, a) = ((m2, b), r) \<Longrightarrow> called admit a b"
  by (auto simp: memory_access_admitted_def attempt_def and_then_def Let_def dest!: called_admit
      split: sum.splits prod.splits option.splits if_splits)

lemma file_access_called:
  "file_access_admitted fx io key e clock admit (i, a) = ((i2, b), r) \<Longrightarrow> called admit a b"
  by (auto simp: file_access_admitted_def attempt_def and_then_def Let_def dest!: called_admit
      split: sum.splits prod.splits option.splits if_splits)

lemma memory_collect_frame: "memory_collect_at x clock (m, a) = ((m2, b), r) \<Longrightarrow> b = a"
  by (auto simp: memory_collect_at_def attempt_eq_iff Let_def case_prod_beta)

lemma file_collect_frame: "file_collect_at fx io clock (i, a) = ((i2, b), r) \<Longrightarrow> b = a"
  by (auto simp: file_collect_at_def attempt_eq_iff and_then_eq_iff Let_def case_prod_beta split: if_splits)

lemma memory_observed_called:
  assumes "memory_observed_access work (s, a) = ((s2, b), r)"
    and "\<And>m m2 b r. work (m, a) = ((m2, b), r) \<Longrightarrow> P a b" and "P a a"
  shows "P a b"
  using assms by (auto simp: memory_observed_access_def split: if_splits prod.splits)

lemma file_observed_called:
  assumes "file_observed_access work (s, a) = ((s2, b), r)"
    and "\<And>m m2 b r. work (m, a) = ((m2, b), r) \<Longrightarrow> P a b" and "P a a"
  shows "P a b"
  using assms by (auto simp: file_observed_access_def split: if_splits prod.splits)

section \<open>The limiter under requests\<close>

text \<open>What one request may do to the limiter: nothing, or one call, by an enrolled identity or a policy role.\<close>

definition limiter_may :: "dir_ctx \<Rightarrow> moment \<Rightarrow> limiter \<Rightarrow> limiter \<Rightarrow> bool" where
  "limiter_may dx mo l l2 \<longleftrightarrow>
     l2 = l \<or>
     (\<exists>key known. allows (dx_enrollment dx) key \<and>
        l2 = fst (limiter_record key known (dx_limits dx) (mo_instant mo) l)) \<or>
     (\<exists>b. l2 = fst (limiter_policy b (dx_limits dx) (mo_instant mo) l))"

lemma limiter_may_refl [simp]: "limiter_may dx mo l l"
  by (simp add: limiter_may_def)

lemma charge_limiter [simp]: "fst (fst (charge ((l, c), r))) = l" "snd (charge ((l, c), r)) = r"
  by (simp_all add: charge_def)

lemma admit_record_limiter:
  "fst (fst (admit_record dx mo key known sh)) = fst (limiter_record key known (dx_limits dx) (mo_instant mo) (fst sh))"
  "snd (admit_record dx mo key known sh) = snd (limiter_record key known (dx_limits dx) (mo_instant mo) (fst sh))"
  by (simp_all add: admit_record_def split: prod.splits)

lemma called_record_may:
  "called (admit_record dx mo key) sh b \<Longrightarrow> allows (dx_enrollment dx) key \<Longrightarrow> limiter_may dx mo (fst sh) (fst b)"
  unfolding called_def limiter_may_def by (metis admit_record_limiter(1))

lemma admit_policy_may: "limiter_may dx mo (fst sh) (fst (fst (admit_policy dx mo b sh)))"
  by (auto simp: limiter_may_def admit_policy_def split: prod.splits intro!: exI [of _ b])

lemma accept_registry_shared:
  "accept_registry_admitted ctx io admit (q, p) snap now = ((q2, p2), r) \<Longrightarrow> q2 = q \<or> q2 = fst (admit q)"
  by (auto simp: accept_registry_admitted_def attempt_def split: sum.splits prod.splits option.splits)

lemma accept_revocations_shared:
  "accept_revocations_admitted ctx io admit (q, p) snap now = ((q2, p2), r) \<Longrightarrow> q2 = q \<or> q2 = fst (admit q)"
  by (auto simp: accept_revocations_admitted_def attempt_def split: sum.splits prod.splits option.splits)

lemma with_policy_shared:
  assumes "with_policy f s = (t, r)"
    and "\<And>p sh p2 r. f (di_shared s, p) = ((sh, p2), r) \<Longrightarrow> P (di_shared s) sh" "P (di_shared s) (di_shared s)"
  shows "P (di_shared s) (di_shared t) \<and> di_store t = di_store s"
  using assms by (auto simp: with_policy_def split: if_splits option.splits prod.splits)

lemma bump_simps [simp]:
  "fst (di_shared (bump f s)) = fst (di_shared s)" "di_store (bump f s) = di_store s" "di_policy (bump f s) = di_policy s"
  "di_policy_poisoned (bump f s) = di_policy_poisoned s"
  by (simp_all add: bump_def)

lemma get_name_frame:
  "get_name dx mo name s = (t, resp) \<Longrightarrow> fst (di_shared t) = fst (di_shared s) \<and> di_store t = di_store s"
  by (auto simp: get_name_def with_policy_def attempt_def Let_def bump_def split: if_splits option.splits prod.splits sum.splits)

lemma get_revocations_frame:
  "get_revocations dx mo s = (t, resp) \<Longrightarrow> fst (di_shared t) = fst (di_shared s) \<and> di_store t = di_store s"
  by (auto simp: get_revocations_def with_policy_def attempt_def split: if_splits option.splits prod.splits sum.splits)

lemma put_registry_may:
  assumes "put_registry dx mo req s = (t, resp)"
  shows "limiter_may dx mo (fst (di_shared s)) (fst (di_shared t)) \<and> di_store t = di_store s"
proof -
  define f where "f = (\<lambda>sp. attempt sp (map_err InvalidRecord (dx_registry dx (rq_body req))) (\<lambda>snap.
      attempt sp (mo_clock mo) (\<lambda>now.
      accept_registry_admitted (dx_policy dx) (mo_io mo) (admit_policy dx mo False) sp snap now)))"
  obtain s2 r where w: "with_policy f s = (s2, r)" by fastforce
  have "limiter_may dx mo (fst (di_shared s)) (fst (di_shared s2)) \<and> di_store s2 = di_store s"
  proof (rule with_policy_shared [OF w, where P = "\<lambda>a b. limiter_may dx mo (fst a) (fst b)"])
    fix p sh p2 r assume "f (di_shared s, p) = ((sh, p2), r)"
    then have "sh = di_shared s \<or> sh = fst (admit_policy dx mo False (di_shared s))"
      by (auto simp: f_def attempt_eq_iff dest: accept_registry_shared)
    then show "limiter_may dx mo (fst (di_shared s)) (fst sh)"
      by (auto simp: admit_policy_may)
  qed simp
  then show ?thesis
    using assms w unfolding put_registry_def f_def [symmetric] by (auto split: if_splits)
qed

lemma put_revocations_may:
  assumes "put_revocations dx mo req s = (t, resp)"
  shows "limiter_may dx mo (fst (di_shared s)) (fst (di_shared t)) \<and> di_store t = di_store s"
proof -
  define f where "f = (\<lambda>sp. attempt sp (map_err InvalidRecord (dx_revocations dx (rq_body req))) (\<lambda>snap.
      attempt sp (mo_clock mo) (\<lambda>now.
      accept_revocations_admitted (dx_policy dx) (mo_io mo) (admit_policy dx mo True) sp snap now)))"
  obtain s2 r where w: "with_policy f s = (s2, r)" by fastforce
  have "limiter_may dx mo (fst (di_shared s)) (fst (di_shared s2)) \<and> di_store s2 = di_store s"
  proof (rule with_policy_shared [OF w, where P = "\<lambda>a b. limiter_may dx mo (fst a) (fst b)"])
    fix p sh p2 r assume "f (di_shared s, p) = ((sh, p2), r)"
    then have "sh = di_shared s \<or> sh = fst (admit_policy dx mo True (di_shared s))"
      by (auto simp: f_def attempt_eq_iff dest: accept_revocations_shared)
    then show "limiter_may dx mo (fst (di_shared s)) (fst sh)"
      by (auto simp: admit_policy_may)
  qed simp
  then show ?thesis
    using assms w unfolding put_revocations_def f_def [symmetric] by (auto split: if_splits)
qed

section \<open>The contract of a record store\<close>

locale record_store =
  fixes ops :: "'s store_ops"
  assumes put_called: "so_put ops r admit (s, a) = ((t, b), v) \<Longrightarrow> called admit a b"
    and remove_called: "so_remove ops tomb admit (s, a) = ((t, b), w) \<Longrightarrow> called admit a b"
    and get_frame: "so_get ops key (s, a) = ((t, b), g) \<Longrightarrow> b = a"
    and collect_frame: "so_collect ops (s, a) = ((t, b), n) \<Longrightarrow> b = a"
begin

lemma put_record_may:
  assumes "put_record dx ops mo req s = (t, resp)"
  shows "limiter_may dx mo (fst (di_shared s)) (fst (di_shared t))"
proof -
  have "limiter_may dx mo (fst (di_shared s)) (fst sh)"
    if "so_put ops rec (admit_record dx mo (er_key rec)) (di_store s, di_shared s) = ((st, sh), r)"
      "allows (dx_enrollment dx) (er_key rec)" for rec st sh r
    using put_called [OF that(1)] that(2) by (rule called_record_may)
  then show ?thesis
    using assms by (fastforce simp: put_record_def Let_def split: sum.splits if_splits prod.splits)
qed

lemma get_record_may:
  assumes "get_record dx ops name s = (t, resp)"
  shows "limiter_may dx mo (fst (di_shared s)) (fst (di_shared t))"
  using assms
  by (auto simp: get_record_def Let_def dest!: get_frame split: sum.splits if_splits prod.splits)

lemma delete_record_may:
  assumes "delete_record dx ops mo name req s = (t, resp)"
  shows "limiter_may dx mo (fst (di_shared s)) (fst (di_shared t))"
proof -
  have "limiter_may dx mo (fst (di_shared s)) (fst sh)"
    if "so_remove ops tomb (admit_record dx mo key) (st0, di_shared (bump f s)) = ((st, sh), r)"
      "allows (dx_enrollment dx) key" for tomb key st0 f st sh r
    using called_record_may [OF remove_called [OF that(1)] that(2)] by simp
  then show ?thesis
    using assms by (fastforce simp: delete_record_def Let_def split: sum.splits if_splits prod.splits)
qed

lemma route_may:
  assumes "route dx ops mo req s = (t, resp)"
  shows "limiter_may dx mo (fst (di_shared s)) (fst (di_shared t))"
  using assms put_record_may [of dx mo req s t resp] get_record_may [of dx _ s t resp mo]
    delete_record_may [of dx mo _ req s t resp] get_name_frame [of dx mo _ s t resp]
    get_revocations_frame [of dx mo s t resp] put_registry_may [of dx mo req s t resp]
    put_revocations_may [of dx mo req s t resp]
  unfolding route_def Let_def
  by (auto simp: limiter_may_refl split: if_split_asm)

lemma serve_request_may:
  assumes "serve_request dx ops mo url stream worker s = (t, resp)"
  shows "limiter_may dx mo (fst (di_shared s)) (fst (di_shared t))"
proof -
  have "limiter_may dx mo (fst (di_shared s)) (fst (di_shared u))" if "route dx ops mo req (bump f s) = (u, r)" for req f u r
    using route_may [OF that] by simp
  then show ?thesis
    using assms
    by (fastforce simp: serve_request_def Let_def split: sum.splits option.splits prod.splits worker_outcome.splits)
qed

lemma collect_job_frame: "fst (di_shared (collect_job ops s)) = fst (di_shared s)"
  by (auto simp: collect_job_def Let_def bump_def dest!: collect_frame split: prod.splits sum.splits)
    (metis fst_conv)+

end

lemma memory_record_store: "record_store (memory_ops x mo)"
proof
  show "called admit a b" if "so_put (memory_ops x mo) r admit (s, a) = ((t, b), v)" for r admit s a t b v
    using that
    by (auto simp: memory_ops_def memory_put_admitted_def attempt_eq_iff and_then_eq_iff
        dest!: memory_observed_called [where P = "called admit"] dest: memory_access_called)
  show "called admit a b" if "so_remove (memory_ops x mo) r admit (s, a) = ((t, b), v)" for r admit s a t b v
    using that
    by (auto simp: memory_ops_def memory_remove_admitted_def attempt_eq_iff and_then_eq_iff
        dest!: memory_observed_called [where P = "called admit"] dest: memory_access_called)
  show "b = a" if "so_get (memory_ops x mo) key (s, a) = ((t, b), g)" for key s a t b g
    using that memory_access_called [of x _ key None "mo_clock mo" admit_all]
    by (auto simp: memory_ops_def memory_get_def and_then_eq_iff called_def admit_all_def
        dest!: memory_observed_called [where P = "\<lambda>a b. b = a"])
  show "b = a" if "so_collect (memory_ops x mo) (s, a) = ((t, b), n)" for s a t b n
    using that memory_collect_frame [of x "mo_clock mo"]
    by (auto simp: memory_ops_def memory_collect_expired_def
        dest!: memory_observed_called [where P = "\<lambda>a b. b = a"])
qed

lemma file_record_store: "record_store (file_ops fx io mo)"
proof
  show "called admit a b" if "so_put (file_ops fx io mo) r admit (s, a) = ((t, b), v)" for r admit s a t b v
    using that
    by (auto simp: file_ops_def file_put_admitted_def attempt_eq_iff and_then_eq_iff
        dest!: file_observed_called [where P = "called admit"] dest: file_access_called)
  show "called admit a b" if "so_remove (file_ops fx io mo) r admit (s, a) = ((t, b), v)" for r admit s a t b v
    using that
    by (auto simp: file_ops_def file_remove_admitted_def attempt_eq_iff and_then_eq_iff
        dest!: file_observed_called [where P = "called admit"] dest: file_access_called)
  show "b = a" if "so_get (file_ops fx io mo) key (s, a) = ((t, b), g)" for key s a t b g
    using that file_access_called [of fx io key None "mo_clock mo" admit_all]
    by (auto simp: file_ops_def file_get_def and_then_eq_iff called_def admit_all_def
        dest!: file_observed_called [where P = "\<lambda>a b. b = a"])
  show "b = a" if "so_collect (file_ops fx io mo) (s, a) = ((t, b), n)" for s a t b n
    using that file_collect_frame [of fx io "mo_clock mo"]
    by (auto simp: file_ops_def file_collect_expired_def
        dest!: file_observed_called [where P = "\<lambda>a b. b = a"])
qed

interpretation memory_service: record_store "memory_ops x mo"
  by (rule memory_record_store)

interpretation file_service: record_store "file_ops fx io mo"
  by (rule file_record_store)

end
