(* ===== verification/Rds_Directory_Runs.thy ===== *)
theory Rds_Directory_Runs
  imports Rds_Directory
begin

text \<open>
  Runs of the directory: any sequence of connections and maintenance jobs, in the order in which
  their jobs take effect. The invariant of a run joins the record store's and the limiter's; from
  it follow the end-to-end guarantees for enrolled publishers.
\<close>

section \<open>Runs\<close>

datatype dir_event = Connection moment in_stream worker_outcome | Maintenance moment

fun event_time :: "dir_event \<Rightarrow> duration" where
  "event_time (Connection mo stream w) = mo_instant mo"
| "event_time (Maintenance mo) = mo_instant mo"

fun dir_step ::
  "dir_ctx \<Rightarrow> (moment \<Rightarrow> 's store_ops) \<Rightarrow> url_parser \<Rightarrow> 's directory \<Rightarrow> dir_event \<Rightarrow> 's directory" where
  "dir_step dx ops url s (Connection mo stream w) = fst (serve_request dx (ops mo) mo url stream w s)"
| "dir_step dx ops url s (Maintenance mo) = collect_job (ops mo) s"

definition dir_run ::
  "dir_ctx \<Rightarrow> (moment \<Rightarrow> 's store_ops) \<Rightarrow> url_parser \<Rightarrow> 's directory \<Rightarrow> dir_event list \<Rightarrow> 's directory" where
  "dir_run dx ops url s evs = foldl (dir_step dx ops url) s evs"

section \<open>The limiter along a run\<close>

lemma enrolled_set:
  assumes "enrollment_new cr keys = Inr e"
  shows "en_keys e = set keys" "\<not> en_unrestricted e" "finite (en_keys e)" "card (en_keys e) \<le> max_identities"
proof -
  have e: "en_keys e = set keys" "\<not> en_unrestricted e" "length keys \<le> max_identities"
    using enroll_from_ok [of cr 0 keys enrollment_default e] assms
    by (auto simp: enrollment_new_def enrollment_default_def)
  then show "en_keys e = set keys" "\<not> en_unrestricted e" "finite (en_keys e)" "card (en_keys e) \<le> max_identities"
    using card_length [of keys] by auto
qed

definition limits_kept :: "dir_ctx \<Rightarrow> duration \<Rightarrow> limiter \<Rightarrow> bool" where
  "limits_kept dx clk l \<longleftrightarrow> (\<exists>h. limiter_inv (dx_limits dx) (en_keys (dx_enrollment dx)) clk (l, h))"

lemma limiter_step_limiter:
  "fst (limiter_step lim (l, h) (RecordCall key known now)) = fst (limiter_record key known lim now l)"
  "fst (limiter_step lim (l, h) (PolicyCall b now)) = fst (limiter_policy b lim now l)"
  by (simp_all split: prod.splits)

lemma limiter_may_kept:
  assumes "limits_kept dx clk l" "limiter_may dx mo l l2" "clk \<le> mo_instant mo"
    and "enrollment_new cr keys = Inr (dx_enrollment dx)"
  shows "limits_kept dx (mo_instant mo) l2"
proof -
  obtain h where h: "limiter_inv (dx_limits dx) (en_keys (dx_enrollment dx)) (mo_instant mo) (l, h)"
    using assms(1,3) unfolding limits_kept_def by (blast intro: limiter_inv_mono)
  note e = enrolled_set [OF assms(4)]
  consider "l2 = l" | key known where "allows (dx_enrollment dx) key"
      "l2 = fst (limiter_step (dx_limits dx) (l, h) (RecordCall key known (mo_instant mo)))"
    | b where "l2 = fst (limiter_step (dx_limits dx) (l, h) (PolicyCall b (mo_instant mo)))"
    using assms(2) unfolding limiter_may_def limiter_step_limiter by blast
  then show ?thesis
  proof cases
    case 1
    then show ?thesis using h by (auto simp: limits_kept_def)
  next
    case 2
    then have "key \<in> en_keys (dx_enrollment dx)"
      using e by (simp add: allows_def)
    from record_step_inv [OF h e(3,4) this, of known] 2(2) show ?thesis
      by (metis limits_kept_def prod.collapse)
  next
    case 3
    from policy_call_inv [OF h, of b] 3 show ?thesis
      by (metis limits_kept_def prod.collapse)
  qed
qed

text \<open>The signed content that a request asks the store to put in place.\<close>

definition request_entry :: "dir_ctx \<Rightarrow> request \<Rightarrow> entry option" where
  "request_entry dx req =
     (if rq_method req = ''PUT'' \<and> route_segments req = [''v1'', ''records'']
      then (case dx_record dx (rq_body req) of Inr r \<Rightarrow> Some (ERecord r) | Inl _ \<Rightarrow> None)
      else if rq_method req = ''DELETE''
      then (case dx_delete dx (rq_body req) of Inr tomb \<Rightarrow> Some (EDeleted tomb) | Inl _ \<Rightarrow> None)
      else None)"

text \<open>The content that one connection asks for, when its job runs.\<close>

definition connection_entry :: "dir_ctx \<Rightarrow> url_parser \<Rightarrow> in_stream \<Rightarrow> worker_outcome \<Rightarrow> entry option" where
  "connection_entry dx url stream worker =
     (if worker \<noteq> WorkerRan then None
      else case read_request url stream of Inr (Some req) \<Rightarrow> request_entry dx req | _ \<Rightarrow> None)"

text \<open>
  An extended contract: the store keeps an invariant of its own under every operation that brings
  no content outside \<open>safe\<close>.
\<close>

locale kept_store = record_store ops for ops :: "'s store_ops" +
  fixes ok :: "'s \<Rightarrow> bool" and safe :: "entry \<Rightarrow> bool"
  assumes put_ok: "ok s \<Longrightarrow> safe (ERecord r) \<Longrightarrow> so_put ops r admit (s, a) = ((t, b), v) \<Longrightarrow> ok t"
    and remove_ok: "ok s \<Longrightarrow> safe (EDeleted tomb) \<Longrightarrow> so_remove ops tomb admit (s, a) = ((t, b), w) \<Longrightarrow> ok t"
    and get_ok: "ok s \<Longrightarrow> so_get ops key (s, a) = ((t, b), g) \<Longrightarrow> ok t"
    and collect_ok: "ok s \<Longrightarrow> so_collect ops (s, a) = ((t, b), n) \<Longrightarrow> ok t"
begin

lemma handlers_ok:
  assumes "ok (di_store s)"
  shows "(\<And>r. dx_record dx (rq_body req) = Inr r \<Longrightarrow> safe (ERecord r)) \<Longrightarrow>
      put_record dx ops mo req s = (t, resp) \<Longrightarrow> ok (di_store t)"
    and "get_record dx ops name s = (t, resp) \<Longrightarrow> ok (di_store t)"
    and "(\<And>tomb. dx_delete dx (rq_body req) = Inr tomb \<Longrightarrow> safe (EDeleted tomb)) \<Longrightarrow>
      delete_record dx ops mo name req s = (t, resp) \<Longrightarrow> ok (di_store t)"
  using assms
  by (auto simp: put_record_def get_record_def delete_record_def Let_def dest: put_ok get_ok remove_ok
      split: sum.splits if_splits prod.splits)

lemma route_ok:
  assumes "ok (di_store s)" "pred_option safe (request_entry dx req)" "route dx ops mo req s = (t, resp)"
  shows "ok (di_store t)"
proof -
  have put: "ok (di_store t)" if "rq_method req = ''PUT''" "route_segments req = [''v1'', ''records'']"
      "put_record dx ops mo req s = (t, resp)"
    by (rule handlers_ok(1) [OF assms(1) _ that(3)]) (use assms(2) that in \<open>simp add: request_entry_def\<close>)
  have del: "ok (di_store t)" if "rq_method req = ''DELETE''" "delete_record dx ops mo name req s = (t, resp)" for name
    by (rule handlers_ok(3) [OF assms(1) _ that(2)]) (use assms(2) that in \<open>simp add: request_entry_def\<close>)
  show ?thesis
    using assms(1,3) put del handlers_ok(2) [OF assms(1), of dx _ t resp] get_name_frame [of dx mo _ s t resp]
      get_revocations_frame [of dx mo s t resp] put_registry_may [of dx mo req s t resp]
      put_revocations_may [of dx mo req s t resp]
    unfolding route_def Let_def by (auto split: if_split_asm)
qed

lemma serve_request_ok:
  assumes "ok (di_store s)" "pred_option safe (connection_entry dx url stream worker)"
    "serve_request dx ops mo url stream worker s = (t, resp)"
  shows "ok (di_store t)"
proof -
  have "ok (di_store u)" if "pred_option safe (request_entry dx req)" "route dx ops mo req (bump f s) = (u, r)" for req f u r
    using route_ok [OF _ that] assms(1) by simp
  then show ?thesis
    using assms
    by (fastforce simp: serve_request_def connection_entry_def Let_def
        split: sum.splits option.splits prod.splits worker_outcome.splits if_splits)
qed

lemma collect_job_ok: "ok (di_store s) \<Longrightarrow> ok (di_store (collect_job ops s))"
  by (auto simp: collect_job_def Let_def dest: collect_ok split: prod.splits sum.splits)

end

lemma memory_put_ok:
  assumes "memory_store_inv x s" "memory_put_admitted x r clock admit (s, a) = ((t, b), v)"
  shows "memory_store_inv x t"
  using assms memory_store_access [OF assms(1)]
  by (fastforce simp: memory_put_admitted_def attempt_eq_iff and_then_eq_iff)

lemma memory_remove_ok:
  assumes "memory_store_inv x s" "memory_remove_admitted x r clock admit (s, a) = ((t, b), v)"
  shows "memory_store_inv x t"
  using assms memory_store_access [OF assms(1)]
  by (fastforce simp: memory_remove_admitted_def attempt_eq_iff and_then_eq_iff)

lemma memory_get_ok:
  assumes "memory_store_inv x s" "memory_get x key clock (s, a) = ((t, b), v)"
  shows "memory_store_inv x t"
  using assms memory_store_access [OF assms(1)]
  by (fastforce simp: memory_get_def attempt_eq_iff and_then_eq_iff)

lemma memory_collect_ok:
  assumes "memory_store_inv x s" "memory_collect_expired x clock (s, a) = ((t, b), v)"
  shows "memory_store_inv x t"
proof -
  have i: "memory_inv x (ms_capacity s) (ms_inner s)"
    using assms(1) by (simp add: memory_store_inv_def)
  obtain m b0 r where w: "memory_collect_at x clock (ms_inner s, a) = ((m, b0), r)"
    by (metis surj_pair)
  show ?thesis
    using observed_access_inv(1) [OF assms(1) assms(2) [unfolded memory_collect_expired_def] w]
      memory_collect_at_keeps [OF i w] by blast
qed

interpretation memory_kept: kept_store "memory_ops x mo" "memory_store_inv x" "\<lambda>_. True"
  by unfold_locales
    (auto simp: memory_ops_def dest: memory_put_ok memory_remove_ok memory_get_ok memory_collect_ok)

section \<open>The invariant of a run\<close>

definition dir_inv :: "store_ctx \<Rightarrow> dir_ctx \<Rightarrow> duration \<Rightarrow> memory_store directory \<Rightarrow> bool" where
  "dir_inv x dx clk s \<longleftrightarrow> memory_store_inv x (di_store s) \<and> limits_kept dx clk (fst (di_shared s))"

lemma serve_state_inv: "memory_store_inv x store \<Longrightarrow> dir_inv x dx clk (serve_state store policy start)"
  by (auto simp: dir_inv_def serve_state_def limits_kept_def intro!: exI limiter_default_inv)

lemma dir_step_inv:
  assumes "dir_inv x dx clk s" "clk \<le> event_time ev" "enrollment_new cr keys = Inr (dx_enrollment dx)"
  shows "dir_inv x dx (event_time ev) (dir_step dx (memory_ops x) url s ev)"
proof (cases ev)
  case (Connection mo stream w)
  obtain t resp where run: "serve_request dx (memory_ops x mo) mo url stream w s = (t, resp)"
    by fastforce
  then show ?thesis
    using Connection assms memory_kept.serve_request_ok [OF _ _ run] memory_service.serve_request_may [OF run]
      limiter_may_kept [of dx clk "fst (di_shared s)" mo "fst (di_shared t)" cr keys]
    by (simp add: dir_inv_def option.pred_True)
next
  case (Maintenance mo)
  moreover have "limits_kept dx (mo_instant mo) (fst (di_shared s))"
    using assms Maintenance limiter_may_kept [of dx clk "fst (di_shared s)" mo "fst (di_shared s)" cr keys]
    by (simp add: dir_inv_def)
  ultimately show ?thesis
    using assms(1) memory_kept.collect_job_ok [of x s mo]
    by (simp add: dir_inv_def memory_service.collect_job_frame)
qed

lemma dir_run_inv:
  assumes "dir_inv x dx clk s" "sorted (clk # map event_time evs)" "enrollment_new cr keys = Inr (dx_enrollment dx)"
  shows "dir_inv x dx (last (clk # map event_time evs)) (dir_run dx (memory_ops x) url s evs)"
  using assms
proof (induction evs arbitrary: clk s)
  case (Cons ev evs)
  have "dir_inv x dx (event_time ev) (dir_step dx (memory_ops x) url s ev)"
    using Cons.prems dir_step_inv [of x dx clk s ev cr keys url] by simp
  then show ?case
    using Cons.IH [of "event_time ev" "dir_step dx (memory_ops x) url s ev"] Cons.prems
    by (simp add: dir_run_def)
qed (simp add: dir_run_def)

section \<open>Renewals are served\<close>

definition last_admission :: "limiter \<Rightarrow> endpoint_key \<Rightarrow> duration option" where
  "last_admission l key = (case map_of (li_writers l) key of None \<Rightarrow> None | Some w \<Rightarrow> wr_last w)"

lemma kept_renewal:
  assumes "limits_kept dx clk l" "clk \<le> now" "enrollment_new cr keys = Inr (dx_enrollment dx)" "key \<in> set keys"
    and lim: "serve_limits_ok (dx_limits dx)"
    and old: "pred_option (\<lambda>t. t + from_secs 60 \<le> now) (last_admission l key)"
  shows "snd (limiter_record key True (dx_limits dx) now l) = Inr ()"
proof -
  let ?K = "en_keys (dx_enrollment dx)"
  obtain h where h: "limiter_inv (dx_limits dx) ?K now (l, h)"
    using assms(1,2) unfolding limits_kept_def by (blast intro: limiter_inv_mono)
  have K: "finite ?K" "card ?K \<le> max_identities" "key \<in> ?K"
    using enrolled_set [OF assms(3)] assms(4) by auto
  have entry: "entry_ok (lm_put_min_interval (dx_limits dx)) now (accepted_times key h) (map_of (li_writers l) key)"
    using h by (simp add: limiter_inv_def)
  have sixty: "lm_put_min_interval (dx_limits dx) \<le> from_secs 60" "0 < lm_writer_per_minute (dx_limits dx)"
    using lim by (auto simp: serve_limits_ok_def word_gt_0)
  have "t + from_secs 60 \<le> now" if "t \<in> set (accepted_times key h)" for t
  proof -
    note mem = that
    obtain w where w: "map_of (li_writers l) key = Some w" "writer_ok (lm_put_min_interval (dx_limits dx)) now (accepted_times key h) w"
      using entry mem by (cases "map_of (li_writers l) key") auto
    then have "t \<le> last (accepted_times key h)" "wr_last w = Some (last (accepted_times key h))"
      using that spaced_last by (auto simp: writer_ok_def)
    then show ?thesis
      using old w(1) by (simp add: last_admission_def)
  qed
  then show ?thesis
    using sixty by (intro renewal_lemma [OF h K]) (auto simp: window_length_def dest: order.trans [rotated] intro: add_left_mono)
qed

lemma put_record_renewal:
  assumes inv: "dir_inv x dx clk s" "clk \<le> mo_instant mo" "enrollment_new cr keys = Inr (dx_enrollment dx)"
    and lim: "serve_limits_ok (dx_limits dx)"
    and rec: "dx_record dx (rq_body req) = Inr r" "record_verify (sx_wire x) r = Inr p" "er_key r \<in> set keys"
    and known: "map_of (me_entries (ms_inner (di_store s))) (er_key r) \<noteq> None"
    and clock: "mo_clock mo = Inr now" "me_observed_wall (ms_inner (di_store s)) \<le> r_wall now"
    and fresh: "lease_new (pl_issued_at p) (pl_expires_at p) now = Inr l"
      "store_floor x (er_key r) (di_store s) < pl_revision p"
    and old: "pred_option (\<lambda>t. t + from_secs 60 \<le> mo_instant mo) (last_admission (fst (di_shared s)) (er_key r))"
  shows "\<exists>t. put_record dx (memory_ops x mo) mo req s = (t, response_json (dx_to_vec dx) 200 JStored) \<and>
     store_floor x (er_key r) (di_store t) = pl_revision p"
proof -
  let ?a = "admit_record dx mo (er_key r)" and ?es = "me_entries (ms_inner (di_store s))"
  obtain st sh v where run: "memory_put_admitted x r (mo_clock mo) ?a (di_store s, di_shared s) = ((st, sh), v)"
    by (metis surj_pair)
  have ok: "memory_store_inv x (di_store s)" "limits_kept dx clk (fst (di_shared s))"
    using inv(1) by (simp_all add: dir_inv_def)
  have raise: "raises x (er_key r) ?es (me_observed_wall (ms_inner (di_store s))) (Some (ERecord r)) (mo_clock mo)
      (ERecord r) now l (pl_revision p)"
    using rec(2) clock fresh op_entry_key(1) [OF rec(2)]
    by (simp add: raises_def fresh_entry_def entry_details_def store_floor_def catalog_floor_def)
  have cond: "(\<exists>now l revision. raises x (er_key r) ?es (me_observed_wall (ms_inner (di_store s)))
        (Some (ERecord r)) (mo_clock mo) (ERecord r) now l revision) \<and>
      (map_of ?es (er_key r) \<noteq> None \<or> length ?es < ms_capacity (di_store s))"
    by (intro conjI exI disjI1) (rule raise, rule known)
  have known1: "(map_of ?es (er_key r) \<noteq> None) = True"
    using known by simp
  have v: "v = snd (?a True (di_shared s)) \<and> (v = Inr () \<longleftrightarrow> store_floor x (er_key r) st = pl_revision p)"
    using put_admission_lemma [OF ok(1) rec(2) run refl refl, unfolded if_P [OF cond]] unfolding known1 by blast
  have "v = Inr ()"
    using v kept_renewal [OF ok(2) inv(2,3) rec(3) lim old] by (simp add: admit_record_limiter)
  then show ?thesis
    using v run rec enrolled_set [OF inv(3)]
    by (auto simp: put_record_def memory_ops_def allows_def Let_def)
qed

lemma publish_route:
  assumes "write_request_with_host url io authority ''PUT'' ''/v1/records'' body = Inr bs"
    and "put_record dx ops mo \<lparr>rq_method = ''PUT'', rq_path = ''/v1/records'', rq_body = body\<rparr>
      (bump (\<lambda>c. c\<lparr>mt_requests := mt_requests c + 1\<rparr>) s) = (t, resp)"
  shows "serve_request dx ops mo url (bs, stop) WorkerRan s = (t, Some resp)"
proof -
  have "route_segments \<lparr>rq_method = ''PUT'', rq_path = ''/v1/records'', rq_body = body\<rparr> = [''v1'', ''records'']"
    by (simp add: route_segments_def)
  then show ?thesis
    using request_roundtrip_lemma [OF assms(1), of "[]" stop] assms(2)
    by (simp add: serve_request_def route_def)
qed

text \<open>
  C15. Renewals are served. A directory over an in-memory store, started with limits it accepts and
  a configured list of publishers, serves any sequence of connections and maintenance jobs in
  clock order. Then a listed publisher that the store knows sends a record: it verifies, its
  revision is above the stored one, its lifetime holds on the directory's clock, and the
  publisher's last admitted mutation is at least a minute old. The directory answers 200 and
  holds the new revision, however the other publishers used up the shared budgets.
\<close>

theorem renewal_served:
  assumes enrolled: "enrollment_new cr keys = Inr (dx_enrollment dx)" and lim: "serve_limits_ok (dx_limits dx)"
    and store: "memory_store_inv x store"
    and run: "dir_run dx (memory_ops x) url (serve_state store policy start) evs = s"
    and times: "sorted (start # map event_time evs @ [mo_instant mo])"
    and sent: "write_request_with_host url io authority ''PUT'' ''/v1/records'' body = Inr bs"
    and rec: "dx_record dx body = Inr r" "record_verify (sx_wire x) r = Inr p" "er_key r \<in> set keys"
    and known: "map_of (me_entries (ms_inner (di_store s))) (er_key r) \<noteq> None"
    and clock: "mo_clock mo = Inr now" "me_observed_wall (ms_inner (di_store s)) \<le> r_wall now"
    and fresh: "lease_new (pl_issued_at p) (pl_expires_at p) now = Inr l"
      "store_floor x (er_key r) (di_store s) < pl_revision p"
    and old: "pred_option (\<lambda>t. t + from_secs 60 \<le> mo_instant mo) (last_admission (fst (di_shared s)) (er_key r))"
  shows "\<exists>t. serve_request dx (memory_ops x mo) mo url (bs, stop) WorkerRan s =
       (t, Some (response_json (dx_to_vec dx) 200 JStored)) \<and>
     store_floor x (er_key r) (di_store t) = pl_revision p"
proof -
  let ?req = "\<lparr>rq_method = ''PUT'', rq_path = ''/v1/records'', rq_body = body\<rparr>"
  let ?s = "bump (\<lambda>c. c\<lparr>mt_requests := mt_requests c + 1\<rparr>) s"
  have "sorted ((start # map event_time evs) @ [mo_instant mo])"
    using times by simp
  then have sorted: "sorted (start # map event_time evs)" and le: "last (start # map event_time evs) \<le> mo_instant mo"
    unfolding sorted_append using last_in_set [of "start # map event_time evs"] by (blast, auto)
  have "dir_inv x dx (last (start # map event_time evs)) ?s"
    using dir_run_inv [OF serve_state_inv [OF store, of dx start policy start] sorted enrolled, of url, unfolded run]
    by (simp only: dir_inv_def bump_simps)
  from put_record_renewal [OF this le enrolled lim, of ?req r p now l] rec known clock fresh old
  obtain t where "put_record dx (memory_ops x mo) mo ?req ?s = (t, response_json (dx_to_vec dx) 200 JStored)"
    "store_floor x (er_key r) (di_store t) = pl_revision p"
    by auto
  then show ?thesis
    using publish_route [OF sent] by blast
qed

section \<open>A published record is served\<close>

lemma memory_put_new:
  assumes inv: "memory_store_inv x s" and ok: "record_verify (sx_wire x) r = Inr p"
    and clock: "clock = Inr now" "me_observed_wall (ms_inner s) \<le> r_wall now"
    and fresh: "lease_new (pl_issued_at p) (pl_expires_at p) now = Inr l" "store_floor x (er_key r) s < pl_revision p"
    and run: "memory_put_admitted x r clock admit (s, a) = ((t, b), Inr ())"
  shows "map_of (me_entries (ms_inner t)) (er_key r) = Some (Active (ERecord r) l) \<and>
    me_observed_wall (ms_inner t) = r_wall now \<and> memory_store_inv x t"
proof -
  have new: "raises x (er_key r) (me_entries (ms_inner s)) (me_observed_wall (ms_inner s)) (Some (ERecord r)) clock
      (ERecord r) now l (pl_revision p)"
    using ok clock fresh op_entry_key(1) [OF ok]
    by (simp add: raises_def fresh_entry_def entry_details_def store_floor_def catalog_floor_def)
  have i: "memory_inv x (ms_capacity s) (ms_inner s)" "\<not> ms_poisoned s"
    using inv by (simp_all add: memory_store_inv_def)
  obtain m b0 r0 where w: "memory_access_admitted x (ms_capacity s) (er_key r) (Some (ERecord r)) clock admit
      (ms_inner s, a) = ((m, b0), r0)" by (metis surj_pair)
  have t: "ms_inner t = m" "is_ok r0"
    using run ok w i(2) op_entry_key(1) [OF ok]
    by (auto simp: memory_put_admitted_def memory_observed_access_def and_then_def split: sum.splits)
  have "m = memory_put (er_key r) (Active (ERecord r) l) ((ms_inner s)\<lparr>me_observed_wall := r_wall now\<rparr>)"
    using w t(2) unfolding memory_access_new [OF i(1) new]
    by (auto simp: Let_def split: if_splits prod.splits sum.splits)
  then show ?thesis
    using t i(1) memory_put_ok [OF inv run] by (simp add: memory_put_def memory_inv_def catalog_ok_def)
qed

lemma memory_get_live:
  assumes inv: "memory_store_inv x s" and cell: "map_of (me_entries (ms_inner s)) key = Some (Active (ERecord r) l)"
    and clock: "clock = Inr now" "me_observed_wall (ms_inner s) \<le> r_wall now" and live: "valid_at l now"
  shows "\<exists>t. memory_get x key clock (s, a) = ((t, a), Inr r)"
proof -
  have "decide x (Some (Active (ERecord r) l)) None key now =
      Inr \<lparr>dc_replacement = None, dc_result = Inr (Some r)\<rparr>"
    using live by (simp add: decide_def transpose_map_def stored_retire_def or_else_def Let_def)
  then have "memory_access_admitted x (ms_capacity s) key None clock admit_all (ms_inner s, a) =
      (((ms_inner s)\<lparr>me_observed_wall := r_wall now\<rparr>, a), Inr (Some r))"
    using cell clock by (simp add: memory_access_admitted_def observe_def Let_def)
  moreover have "\<not> ms_poisoned s"
    using inv by (simp add: memory_store_inv_def)
  ultimately show ?thesis
    by (simp add: memory_get_def memory_observed_access_def)
qed

lemma status_for_not_200: "status_for e \<noteq> 200"
  by (cases e) simp_all

text \<open>Signed content for the key whose revision is above a given one.\<close>

definition supersedes :: "store_ctx \<Rightarrow> endpoint_key \<Rightarrow> u64 \<Rightarrow> entry \<Rightarrow> bool" where
  "supersedes x key revision e =
     (case entry_details x e key of Inr (later, _, _) \<Rightarrow> revision < later | Inl _ \<Rightarrow> False)"

text \<open>An access that brings nothing newer, while the lease is valid, keeps the cell of the key.\<close>

lemma access_keeps_cell:
  assumes inv: "memory_inv x capacity m" and cell: "map_of (me_entries m) key = Some (Active e0 l)"
    and clk: "\<And>now. clock = Inr now \<Longrightarrow> valid_at l now \<and> r_wall now \<le> wall" and wall: "me_observed_wall m \<le> wall"
    and old: "\<And>e. incoming = Some e \<Longrightarrow> \<not> supersedes x key (cell_floor x key (Some (Active e0 l))) e"
    and run: "memory_access_admitted x capacity k incoming clock admit (m, a) = ((m2, b), r)"
  shows "map_of (me_entries m2) key = Some (Active e0 l) \<and> me_observed_wall m2 \<le> wall"
proof -
  have wf: "bt_wf (me_entries m)" and ok: "pred_option (cell_ok x k) (map_of (me_entries m) k)"
    using inv by (simp_all add: memory_inv_def catalog_ok_get catalog_ok_def)
  consider "m2 = m" | now where "clock = Inr now" "m2 = m\<lparr>me_observed_wall := r_wall now\<rparr>"
    | now d s where "clock = Inr now" "decide x (map_of (me_entries m) k) incoming k now = Inr d"
        "dc_replacement d = Some s" "m2 = memory_put k s (m\<lparr>me_observed_wall := r_wall now\<rparr>)"
    using run
    by (auto simp: memory_access_admitted_def attempt_eq_iff and_then_eq_iff res_simps Let_def
        split: option.splits if_splits prod.splits)
  then show ?thesis
  proof cases
    case (3 now d s)
    have live: "valid_at l now" "r_wall now \<le> wall" using clk [OF 3(1)] by simp_all
    have "k \<noteq> key"
    proof
      assume k: "k = key"
      have "retirement x key now (Some (Active e0 l)) = None"
        using live(1) by (simp add: retirement_def expired_def)
      moreover have "\<not> fresh_entry x key now (Some (Active e0 l)) e revision l1" if "incoming = Some e" for e revision l1
        using old [OF that] by (auto simp: supersedes_def fresh_entry_def)
      ultimately show False
        using decide_replacement [OF ok 3(2)] 3(3) cell k by auto
    qed
    then show ?thesis using 3(4) live wf cell by (simp add: memory_put_def)
  qed (use cell wall clk in auto)
qed

lemma collect_keeps_cell:
  assumes inv: "memory_inv x capacity m" and cell: "map_of (me_entries m) key = Some (Active e0 l)"
    and clk: "\<And>now. clock = Inr now \<Longrightarrow> valid_at l now \<and> r_wall now \<le> wall" and wall: "me_observed_wall m \<le> wall"
    and run: "memory_collect_at x clock (m, a) = ((m2, b), r)"
  shows "map_of (me_entries m2) key = Some (Active e0 l) \<and> me_observed_wall m2 \<le> wall"
proof (cases "\<exists>now. clock = Inr now \<and> me_observed_wall m \<le> r_wall now")
  case True
  then obtain now where now: "clock = Inr now" "me_observed_wall m \<le> r_wall now" by blast
  have "settled x key now (Active e0 l) = Active e0 l" using clk [OF now(1)] by (simp add: settled_def)
  then show ?thesis
    using memory_collect_at_spec [OF inv now, of a] run cell clk [OF now(1)] by (auto simp: settle_all_def)
next
  case False
  then show ?thesis
    using run cell wall by (auto simp: memory_collect_at_def attempt_eq_iff res_simps)
qed

text \<open>The store holds exactly this content for the key.\<close>

definition holds :: "store_ctx \<Rightarrow> endpoint_key \<Rightarrow> entry \<Rightarrow> lease \<Rightarrow> duration \<Rightarrow> memory_store \<Rightarrow> bool" where
  "holds x key e l wall s \<longleftrightarrow>
     memory_store_inv x s \<and> map_of (me_entries (ms_inner s)) key = Some (Active e l) \<and>
     me_observed_wall (ms_inner s) \<le> wall"

lemma store_keeps_cell:
  assumes h: "holds x key e0 l wall s" and clk: "\<And>now. clock = Inr now \<Longrightarrow> valid_at l now \<and> r_wall now \<le> wall"
    and old: "\<And>e. incoming = Some e \<Longrightarrow> \<not> supersedes x key (cell_floor x key (Some (Active e0 l))) e"
    and run: "memory_observed_access (memory_access_admitted x (ms_capacity s) k incoming clock admit) (s, a) = ((t, b), r)"
  shows "holds x key e0 l wall t"
proof -
  obtain m b0 r0 where w: "memory_access_admitted x (ms_capacity s) k incoming clock admit (ms_inner s, a)
      = ((m, b0), r0)" by (metis surj_pair)
  have s: "memory_store_inv x s" "map_of (me_entries (ms_inner s)) key = Some (Active e0 l)"
    "me_observed_wall (ms_inner s) \<le> wall" "memory_inv x (ms_capacity s) (ms_inner s)"
    using h by (simp_all add: holds_def memory_store_inv_def)
  show ?thesis
    using observed_access_inv(1,2) [OF s(1) run w memory_access_inv [OF s(4) w]]
      access_keeps_cell [OF s(4,2) clk s(3) old w] by (simp add: holds_def)
qed

lemma store_collect_keeps_cell:
  assumes h: "holds x key e0 l wall s" and clk: "\<And>now. clock = Inr now \<Longrightarrow> valid_at l now \<and> r_wall now \<le> wall"
    and run: "memory_collect_expired x clock (s, a) = ((t, b), r)"
  shows "holds x key e0 l wall t"
proof -
  obtain m b0 r0 where w: "memory_collect_at x clock (ms_inner s, a) = ((m, b0), r0)" by (metis surj_pair)
  have s: "memory_store_inv x s" "map_of (me_entries (ms_inner s)) key = Some (Active e0 l)"
    "me_observed_wall (ms_inner s) \<le> wall" "memory_inv x (ms_capacity s) (ms_inner s)"
    using h by (simp_all add: holds_def memory_store_inv_def)
  have "memory_inv x (ms_capacity s) m" using memory_collect_at_keeps [OF s(4) w] by simp
  then show ?thesis
    using observed_access_inv(1,2) [OF s(1) run [unfolded memory_collect_expired_def] w]
      collect_keeps_cell [OF s(4,2) clk s(3) w] by (simp add: holds_def)
qed

lemma holding_store:
  assumes clk: "\<And>now. mo_clock mo = Inr now \<Longrightarrow> valid_at l now \<and> r_wall now \<le> wall"
  shows "kept_store (memory_ops x mo) (holds x key e0 l wall)
    (\<lambda>e. \<not> supersedes x key (cell_floor x key (Some (Active e0 l))) e)"
proof -
  note keep = store_keeps_cell [where x = x and key = key and ?e0.0 = e0 and l = l and wall = wall, OF _ clk]
  have "holds x key e0 l wall t" if "holds x key e0 l wall s" "\<not> supersedes x key (cell_floor x key (Some (Active e0 l))) (ERecord r)"
    "memory_put_admitted x r (mo_clock mo) admit (s, a) = ((t, b), v)" for s r admit a t b v
    using that keep [of s _ "Some (ERecord r)"]
    by (fastforce simp: memory_put_admitted_def attempt_eq_iff and_then_eq_iff)
  moreover have "holds x key e0 l wall t" if "holds x key e0 l wall s" "\<not> supersedes x key (cell_floor x key (Some (Active e0 l))) (EDeleted d)"
    "memory_remove_admitted x d (mo_clock mo) admit (s, a) = ((t, b), v)" for s d admit a t b v
    using that keep [of s _ "Some (EDeleted d)"]
    by (fastforce simp: memory_remove_admitted_def attempt_eq_iff and_then_eq_iff)
  moreover have "holds x key e0 l wall t" if "holds x key e0 l wall s"
    "memory_get x k (mo_clock mo) (s, a) = ((t, b), v)" for s k a t b v
    using that keep [of s _ None] by (fastforce simp: memory_get_def attempt_eq_iff and_then_eq_iff)
  ultimately show ?thesis
    using store_collect_keeps_cell [where x = x and key = key and ?e0.0 = e0 and l = l and wall = wall, OF _ clk]
    by (intro kept_store.intro kept_store_axioms.intro memory_record_store) (simp_all add: memory_ops_def)
qed

text \<open>
  What may happen between a publication at \<open>now\<close> and a lookup at \<open>later\<close>: requests and
  maintenance jobs of any kind whose clock, where it can be read, is between the two, and which
  bring no signed content for the key of a later revision.
\<close>

definition not_after :: "reading \<Rightarrow> reading \<Rightarrow> bool" where
  "not_after a b \<longleftrightarrow> r_boot a = r_boot b \<and> r_wall a \<le> r_wall b \<and> r_continuous a \<le> r_continuous b"

definition clock_between :: "reading \<Rightarrow> reading \<Rightarrow> (discovery_error, reading) result \<Rightarrow> bool" where
  "clock_between now later clk = (case clk of Inl _ \<Rightarrow> True | Inr n \<Rightarrow> not_after now n \<and> not_after n later)"

fun quiet :: "dir_ctx \<Rightarrow> store_ctx \<Rightarrow> url_parser \<Rightarrow> endpoint_key \<Rightarrow> u64 \<Rightarrow> reading \<Rightarrow> reading \<Rightarrow> dir_event \<Rightarrow> bool" where
  "quiet dx x url key revision now later (Connection mo stream worker) \<longleftrightarrow>
     clock_between now later (mo_clock mo) \<and>
     pred_option (\<lambda>e. \<not> supersedes x key revision e) (connection_entry dx url stream worker)"
| "quiet dx x url key revision now later (Maintenance mo) \<longleftrightarrow> clock_between now later (mo_clock mo)"

lemma lease_between:
  assumes "lease_new issued expires now = Inr l" "valid_at l later" "clock_between now later clk" "clk = Inr n"
  shows "valid_at l n \<and> r_wall n \<le> r_wall later"
proof -
  have n: "r_boot n = r_boot later" "r_wall now \<le> r_wall n" "r_wall n \<le> r_wall later"
    "r_continuous now \<le> r_continuous n" "r_continuous n \<le> r_continuous later"
    using assms(3,4) by (simp_all add: clock_between_def not_after_def)
  have "as_secs (r_wall now) \<le> as_secs (r_wall n)" "as_secs (r_wall n) \<le> as_secs (r_wall later)"
    using n by (intro as_secs_mono; simp)+
  then show ?thesis
    using n assms(2) lease_new_Inr_fields [OF assms(1)] by (simp add: valid_at_def)
qed

lemma quiet_step:
  assumes lease: "lease_new issued expires now = Inr l" "valid_at l later"
    and h: "holds x key e l (r_wall later) (di_store s)"
    and q: "quiet dx x url key (cell_floor x key (Some (Active e l))) now later ev"
  shows "holds x key e l (r_wall later) (di_store (dir_step dx (memory_ops x) url s ev))"
proof (cases ev)
  case (Connection mo stream w)
  then have "kept_store (memory_ops x mo) (holds x key e l (r_wall later))
      (\<lambda>i. \<not> supersedes x key (cell_floor x key (Some (Active e l))) i)"
    using q lease_between [OF lease] by (intro holding_store) simp
  from kept_store.serve_request_ok [OF this h] Connection q show ?thesis
    by (metis dir_step.simps(1) prod.collapse quiet.simps(1))
next
  case (Maintenance mo)
  then have "kept_store (memory_ops x mo) (holds x key e l (r_wall later))
      (\<lambda>i. \<not> supersedes x key (cell_floor x key (Some (Active e l))) i)"
    using q lease_between [OF lease] by (intro holding_store) simp
  from kept_store.collect_job_ok [OF this h] Maintenance show ?thesis by simp
qed

lemma quiet_run:
  assumes lease: "lease_new issued expires now = Inr l" "valid_at l later"
    and "holds x key e l (r_wall later) (di_store s)"
    and "\<forall>ev\<in>set evs. quiet dx x url key (cell_floor x key (Some (Active e l))) now later ev"
  shows "holds x key e l (r_wall later) (di_store (dir_run dx (memory_ops x) url s evs))"
  using assms(3,4)
  by (induction evs arbitrary: s) (simp_all add: dir_run_def quiet_step [OF lease])

text \<open>
  C18. A published record stays served. When the directory answers 200 to a record with a new
  revision for an enrolled key, then, whatever connections and maintenance jobs follow, a lookup
  of that key, in hex or base32, returns exactly that record for as long as the lease it was
  accepted with is valid on the directory's clock. The requests in between may be anything,
  replays and older revisions of the key included; only signed content for the key of a later
  revision is excluded, and the clock readings in between lie between those of the publication
  and of the lookup.
\<close>

theorem published_record_served:
  assumes inv: "memory_store_inv x (di_store s)"
    and rec: "dx_record dx (rq_body req) = Inr r" "record_verify (sx_wire x) r = Inr p"
    and clock: "mo_clock mo = Inr now" "me_observed_wall (ms_inner (di_store s)) \<le> r_wall now"
    and fresh: "lease_new (pl_issued_at p) (pl_expires_at p) now = Inr l"
      "store_floor x (er_key r) (di_store s) < pl_revision p"
    and put: "put_record dx (memory_ops x mo) mo req s = (t, resp)" "rp_status resp = 200"
    and later: "mo_clock mo2 = Inr now2" "valid_at l now2"
    and between: "\<forall>ev\<in>set evs. quiet dx x url (er_key r) (pl_revision p) now now2 ev"
    and name: "endpoint_key_from_str (dx_upper dx) (dx_b32 dx) name = Inr (er_key r)"
  shows "snd (get_record dx (memory_ops x mo2) name (dir_run dx (memory_ops x) url t evs)) =
     response_json (dx_to_vec dx) 200 (JRecord r)"
proof -
  obtain st sh v where run: "memory_put_admitted x r (mo_clock mo) (admit_record dx mo (er_key r))
      (di_store s, di_shared s) = ((st, sh), v)"
    by (metis surj_pair)
  have allowed: "allows (dx_enrollment dx) (er_key r)"
    using put rec(1) by (auto simp: put_record_def response_error_def response_json_def split: if_splits)
  have v: "v = Inr ()" and t: "di_store t = st"
    using put rec(1) run allowed status_for_not_200
    by (auto simp: put_record_def memory_ops_def response_error_def response_json_def Let_def split: sum.splits)
  note stored = memory_put_new [OF inv rec(2) clock fresh run [unfolded v]]
  have "stored_verify x (Active (ERecord r) l) (er_key r) = Inr (pl_revision p)"
    using rec(2) op_entry_key(1) [OF rec(2)] lease_new_matches [OF fresh(1)]
    by (simp add: stored_verify_def entry_details_def)
  then have floor: "cell_floor x (er_key r) (Some (Active (ERecord r) l)) = pl_revision p"
    by (simp add: cell_floor_def)
  have "r_wall now \<le> r_wall now2" using later(2) lease_new_Inr_fields(4) [OF fresh(1)] by (simp add: valid_at_def)
  then have "holds x (er_key r) (ERecord r) l (r_wall now2) (di_store t)"
    using stored t by (simp add: holds_def)
  then have h: "holds x (er_key r) (ERecord r) l (r_wall now2) (di_store (dir_run dx (memory_ops x) url t evs))"
    using between by (intro quiet_run [OF fresh(1) later(2)]) (simp_all add: floor)
  let ?t = "dir_run dx (memory_ops x) url t evs"
  let ?a = "di_shared (bump (\<lambda>c. c\<lparr>mt_gets := mt_gets c + 1\<rparr>) ?t)"
  obtain u where "memory_get x (er_key r) (mo_clock mo2) (di_store ?t, ?a) = ((u, ?a), Inr r)"
    using memory_get_live [of x "di_store ?t" "er_key r" r l "mo_clock mo2" now2 ?a] h later by (auto simp: holds_def)
  then show ?thesis
    using name allowed by (auto simp: get_record_def memory_ops_def Let_def split: prod.splits)
qed

section \<open>Enrollment\<close>

text \<open>The endpoint key a record request is about.\<close>

definition request_key :: "dir_ctx \<Rightarrow> request \<Rightarrow> endpoint_key option" where
  "request_key dx req =
     (let segs = route_segments req in
      if rq_method req = ''PUT'' \<and> segs = [''v1'', ''records'']
      then (case dx_record dx (rq_body req) of Inr r \<Rightarrow> Some (er_key r) | Inl _ \<Rightarrow> None)
      else if rq_method req \<in> {''GET'', ''DELETE''} \<and> length segs = 3 \<and> take 2 segs = [''v1'', ''records'']
      then (case endpoint_key_from_str (dx_upper dx) (dx_b32 dx) (segs ! 2) of Inr key \<Rightarrow> Some key | Inl _ \<Rightarrow> None)
      else None)"

text \<open>
  C33. Without enrollment nothing happens: a publication, lookup or deletion of a key that is not
  enrolled is answered 403, and neither a record store, the policy store nor the limiter changes.
\<close>

theorem unenrolled_no_effect:
  assumes "request_key dx req = Some key" "\<not> allows (dx_enrollment dx) key"
  shows "\<exists>t. route dx ops mo req s = (t, response_error (dx_to_vec dx) 403 NotEnrolled) \<and>
     di_store t = di_store s \<and> di_policy t = di_policy s \<and> fst (di_shared t) = fst (di_shared s)"
proof (cases "rq_method req = ''PUT''")
  case True
  then show ?thesis
    using assms
    by (auto simp: request_key_def route_def put_record_def Let_def split: if_splits sum.splits)
next
  case False
  then show ?thesis
    using assms
    by (auto simp: request_key_def route_def get_record_def delete_record_def Let_def split: if_splits sum.splits)
qed

section \<open>A concrete directory\<close>

text \<open>The directory knows one publisher, whose earlier record at revision 1 has been retired.\<close>

definition store1 :: memory_store where
  "store1 = memory_default\<lparr>ms_inner := memory_empty\<lparr>me_entries := [(replicate 32 7, Retired 1 [] False)]\<rparr>,
     ms_observed := (False, (snd (ms_observed memory_default))\<lparr>rs_identities := 1\<rparr>)\<rparr>"

definition dctx0 :: dir_ctx where
  "dctx0 = \<lparr>dx_limits = limits_default, dx_enrollment = \<lparr>en_keys = {replicate 32 7}, en_unrestricted = False\<rparr>,
     dx_policy = ctx0, dx_upper = (\<lambda>_. []), dx_b32 = (\<lambda>bs. if bs = [65] then Some (replicate 32 7) else None),
     dx_to_vec = (\<lambda>_. Some []),
     dx_record = (\<lambda>_. Inr record_a), dx_delete = (\<lambda>_. Inl []), dx_registry = (\<lambda>_. Inl []),
     dx_revocations = (\<lambda>_. Inl [])\<rparr>"

definition moment0 :: moment where
  "moment0 = \<lparr>mo_instant = from_secs 100, mo_clock = clock0, mo_io = commit_ok\<rparr>"

lemma store1_inv: "memory_store_inv sctx0 store1"
proof -
  have "cell_ok sctx0 (replicate 32 7) (Retired 1 [] False)"
    by (simp add: cell_ok_def stored_verify_def sctx0_def wire0_def crypto0_def)
  then show ?thesis
    by (simp add: memory_store_inv_def store1_def memory_default_def memory_empty_def memory_inv_def catalog_ok_def
        max_identities_def snapshot_exact_def pub_snapshot_def)
qed

lemma store1_floor: "store_floor sctx0 (replicate 32 7) store1 = 1"
  by (simp add: store_floor_def catalog_floor_def store1_def cell_floor_def stored_verify_def sctx0_def wire0_def
      crypto0_def)

lemma put_sent:
  "\<exists>bs. write_request_with_host url0 send_ok ''localhost'' ''PUT'' ''/v1/records'' [1] = Inr bs"
proof -
  have "host_authority url0 ''localhost'' = Inr ()" "target ''PUT'' ''/v1/records'' = Inr ()"
    by code_simp+
  moreover have "length (request_head ''localhost'' ''PUT'' ''/v1/records'' (Suc 0)) \<le> max_head"
    by (simp add: request_head_def max_head_def crlf_def print_number.simps)
  ultimately show ?thesis
    by (simp add: write_request_with_host_def send_message_def send_ok_def sent_def max_body_def)
qed

theorem renewal_served_witness:
  "\<exists>bs t. write_request_with_host url0 send_ok ''localhost'' ''PUT'' ''/v1/records'' [1] = Inr bs \<and>
     serve_request dctx0 (memory_ops sctx0 moment0) moment0 url0 (bs, None) WorkerRan (serve_state store1 None 0) =
       (t, Some (response_json (\<lambda>_. Some []) 200 JStored)) \<and>
     store_floor sctx0 (replicate 32 7) (di_store t) = 5"
proof -
  obtain bs where bs: "write_request_with_host url0 send_ok ''localhost'' ''PUT'' ''/v1/records'' [1] = Inr bs"
    using put_sent by blast
  have "\<exists>t. serve_request dctx0 (memory_ops sctx0 moment0) moment0 url0 (bs, None) WorkerRan (serve_state store1 None 0) =
       (t, Some (response_json (dx_to_vec dctx0) 200 JStored)) \<and>
     store_floor sctx0 (er_key record_a) (di_store t) = pl_revision (payload_a 5)"
  proof (rule renewal_served [where evs = "[]" and keys = "[replicate 32 7]" and cr = crypto0 and store = store1
        and policy = None and start = 0 and body = "[1]" and l = lease_rec
        and now = "\<lparr>r_boot = [], r_wall = from_secs 1000, r_continuous = 0\<rparr>"])
    show "write_request_with_host url0 send_ok ''localhost'' ''PUT'' ''/v1/records'' [1] = Inr bs" by (rule bs)
    show "enrollment_new crypto0 [replicate 32 7] = Inr (dx_enrollment dctx0)"
      by (simp add: enrollment_new_def enrollment_default_def dctx0_def crypto0_def max_identities_def)
    show "memory_store_inv sctx0 store1" by (rule store1_inv)
    show "record_verify (sx_wire sctx0) record_a = Inr (payload_a 5)" by (simp add: record_a_verifies)
    show "store_floor sctx0 (er_key record_a) (di_store (serve_state store1 None 0)) < pl_revision (payload_a 5)"
      by (simp add: serve_state_def record_a_def payload_a_def store1_floor)
    show "lease_new (pl_issued_at (payload_a 5)) (pl_expires_at (payload_a 5))
        \<lparr>r_boot = [], r_wall = from_secs 1000, r_continuous = 0\<rparr> = Inr lease_rec"
      by (simp add: payload_a_def lease_rec_new)
  qed (simp_all add: dctx0_def limits_default_def serve_limits_ok_def dir_run_def record_a_def moment0_def clock0_def
      serve_state_def store1_def memory_default_def memory_empty_def last_admission_def limiter_default_def from_secs_def
      nanos_per_sec_def)
  then show ?thesis
    using bs by (auto simp: dctx0_def record_a_def payload_a_def)
qed

theorem unenrolled_no_effect_witness:
  "\<exists>t. route dctx0 (memory_ops sctx0 moment0) moment0
       \<lparr>rq_method = ''GET'', rq_path = ''/v1/records/'' @ replicate 64 CHR ''0'', rq_body = []\<rparr> (serve_state store1 None 0) =
     (t, response_error (dx_to_vec dctx0) 403 NotEnrolled) \<and> di_store t = store1"
proof -
  let ?r = "\<lparr>rq_method = ''GET'', rq_path = ''/v1/records/'' @ replicate 64 CHR ''0'', rq_body = []\<rparr>"
  have "key_hex (str_bytes (replicate 64 CHR ''0'')) = Inr (replicate 32 0)"
    by code_simp
  moreover have "route_segments ?r = [''v1'', ''records'', replicate 64 CHR ''0'']"
    by code_simp
  ultimately have "request_key dctx0 ?r = Some (replicate 32 0)"
    by (simp add: request_key_def endpoint_key_from_str_def)
  moreover have "\<not> allows (dx_enrollment dctx0) (replicate 32 0)"
    by (simp add: allows_def dctx0_def replicate_eq_replicate)
  ultimately show ?thesis
    using unenrolled_no_effect [of dctx0 ?r "replicate 32 0" "memory_ops sctx0 moment0" moment0 "serve_state store1 None 0"]
    by (auto simp: serve_state_def)
qed

lemma store1_put:
  "\<exists>t. put_record dctx0 (memory_ops sctx0 moment0) moment0 \<lparr>rq_method = [], rq_path = [], rq_body = []\<rparr>
       (serve_state store1 None 0) = (t, response_json (dx_to_vec dctx0) 200 JStored)"
proof -
  have "\<exists>t. put_record dctx0 (memory_ops sctx0 moment0) moment0 \<lparr>rq_method = [], rq_path = [], rq_body = []\<rparr>
       (serve_state store1 None 0) = (t, response_json (dx_to_vec dctx0) 200 JStored) \<and>
     store_floor sctx0 (er_key record_a) (di_store t) = pl_revision (payload_a 5)"
  proof (rule put_record_renewal [where keys = "[replicate 32 7]" and cr = crypto0 and clk = 0
        and l = lease_rec and now = "\<lparr>r_boot = [], r_wall = from_secs 1000, r_continuous = 0\<rparr>"])
    show "enrollment_new crypto0 [replicate 32 7] = Inr (dx_enrollment dctx0)"
      by (simp add: enrollment_new_def enrollment_default_def dctx0_def crypto0_def max_identities_def)
    show "dir_inv sctx0 dctx0 0 (serve_state store1 None 0)"
      by (rule serve_state_inv [OF store1_inv])
    show "record_verify (sx_wire sctx0) record_a = Inr (payload_a 5)" by (simp add: record_a_verifies)
    show "store_floor sctx0 (er_key record_a) (di_store (serve_state store1 None 0)) < pl_revision (payload_a 5)"
      by (simp add: serve_state_def record_a_def payload_a_def store1_floor)
    show "lease_new (pl_issued_at (payload_a 5)) (pl_expires_at (payload_a 5))
        \<lparr>r_boot = [], r_wall = from_secs 1000, r_continuous = 0\<rparr> = Inr lease_rec"
      by (simp add: payload_a_def lease_rec_new)
  qed (simp_all add: dctx0_def limits_default_def serve_limits_ok_def record_a_def moment0_def clock0_def
      serve_state_def store1_def memory_default_def memory_empty_def last_admission_def limiter_default_def from_secs_def
      nanos_per_sec_def)
  then show ?thesis by blast
qed

definition moment1 :: moment where
  "moment1 = moment0\<lparr>mo_clock := Inr \<lparr>r_boot = [], r_wall = from_secs 1100, r_continuous = from_secs 100\<rparr>\<rparr>"

lemma dctx0_quiet:
  assumes "clock_between now later (mo_clock mo)"
  shows "quiet dctx0 sctx0 url (replicate 32 7) 5 now later (Connection mo stream w)"
proof -
  have "\<not> supersedes sctx0 (replicate 32 7) 5 (ERecord record_a)"
    by (simp add: supersedes_def record_a_details)
  then have "pred_option (\<lambda>e. \<not> supersedes sctx0 (replicate 32 7) 5 e) (request_entry dctx0 req)" for req
    by (simp add: request_entry_def dctx0_def)
  then show ?thesis
    using assms by (simp add: connection_entry_def split: option.splits sum.splits)
qed

text \<open>Between the publication and the lookup a maintenance job runs and the same record is sent again.\<close>

theorem published_record_served_witness:
  "\<exists>bs t. write_request_with_host url0 send_ok ''localhost'' ''PUT'' ''/v1/records'' [1] = Inr bs \<and>
     put_record dctx0 (memory_ops sctx0 moment0) moment0 \<lparr>rq_method = [], rq_path = [], rq_body = []\<rparr>
       (serve_state store1 None 0) = (t, response_json (dx_to_vec dctx0) 200 JStored) \<and>
     snd (get_record dctx0 (memory_ops sctx0 moment1) ''a''
       (dir_run dctx0 (memory_ops sctx0) url0 t [Maintenance moment1, Connection moment1 (bs, None) WorkerRan])) =
     response_json (dx_to_vec dctx0) 200 (JRecord record_a)"
proof -
  obtain bs where bs: "write_request_with_host url0 send_ok ''localhost'' ''PUT'' ''/v1/records'' [1] = Inr bs"
    using put_sent by blast
  let ?now = "\<lparr>r_boot = [], r_wall = from_secs 1000, r_continuous = 0\<rparr>"
  let ?later = "\<lparr>r_boot = [], r_wall = from_secs 1100, r_continuous = from_secs 100\<rparr>"
  let ?evs = "[Maintenance moment1, Connection moment1 (bs, None) WorkerRan]"
  obtain t where t: "put_record dctx0 (memory_ops sctx0 moment0) moment0 \<lparr>rq_method = [], rq_path = [], rq_body = []\<rparr>
       (serve_state store1 None 0) = (t, response_json (dx_to_vec dctx0) 200 JStored)"
    using store1_put by blast
  have clk: "clock_between ?now ?later (mo_clock moment1)"
    by (simp add: clock_between_def not_after_def moment1_def from_secs_def)
  have "snd (get_record dctx0 (memory_ops sctx0 moment1) ''a'' (dir_run dctx0 (memory_ops sctx0) url0 t ?evs)) =
      response_json (dx_to_vec dctx0) 200 (JRecord record_a)"
  proof (rule published_record_served [OF _ _ _ _ _ _ _ t, where l = lease_rec and now = ?now and ?now2.0 = ?later])
    show "memory_store_inv sctx0 (di_store (serve_state store1 None 0))"
      by (simp add: serve_state_def store1_inv)
    show "record_verify (sx_wire sctx0) record_a = Inr (payload_a 5)" by (simp add: record_a_verifies)
    show "store_floor sctx0 (er_key record_a) (di_store (serve_state store1 None 0)) < pl_revision (payload_a 5)"
      by (simp add: serve_state_def record_a_def payload_a_def store1_floor)
    show "lease_new (pl_issued_at (payload_a 5)) (pl_expires_at (payload_a 5)) ?now = Inr lease_rec"
      by (simp add: payload_a_def lease_rec_new)
    show "valid_at lease_rec ?later"
      by (simp add: valid_at_def lease_rec_def from_secs_def as_secs_def nanos_per_sec_def dur_checked_sub_def)
    show "endpoint_key_from_str (dx_upper dctx0) (dx_b32 dctx0) ''a'' = Inr (er_key record_a)"
      by (simp add: endpoint_key_from_str_def to_uppercase_def dctx0_def record_a_def ascii_upper_def)
    show "\<forall>ev\<in>set ?evs. quiet dctx0 sctx0 url0 (er_key record_a) (pl_revision (payload_a 5)) ?now ?later ev"
      using dctx0_quiet [OF clk] clk by (simp add: record_a_def payload_a_def)
  qed (simp_all add: dctx0_def moment0_def moment1_def clock0_def serve_state_def store1_def memory_default_def
      memory_empty_def response_json_def)
  then show ?thesis using bs t by blast
qed

end
