(* ===== verification/Rds_Grants.thy ===== *)
theory Rds_Grants
  imports Rds_Identity
begin

text \<open>
  Capability grants (\<open>rds-core/src/grant.rs\<close>): the signed payload in its two wire
  versions, decoding with its bounds, verification against issuers, subject, audience
  and time, the scope queries of a verified grant, and lease renewal.
\<close>

section \<open>Data\<close>

datatype service_kind =
    Ping | Info | Tcp | Desktop | Sync | Audio
  | SyncRead | SyncWrite | DesktopView | DesktopControl

record grant_constraints =
  max_bps :: "u64 option"
  tcp_ports :: "u16 list option"
  displays :: "u32 list option"
  sync_paths :: "string list option"

record grant_payload =
  g_version :: u16
  g_revision :: u64
  g_issuer :: bytes
  g_subject :: bytes
  g_audience :: bytes
  g_nonce :: bytes
  g_services :: "service_kind list"
  g_not_before :: u64
  g_expires_at :: u64
  g_constraints :: grant_constraints
  g_tenant :: "string option"
  g_policy_revision :: "u64 option"

record grant_constraints_v2 =
  v2_max_bps :: "u64 option"
  v2_tcp_ports :: "u16 list option"
  v2_displays :: "u32 list option"

record grant_payload_v2 =
  v2_version :: u16
  v2_revision :: u64
  v2_issuer :: bytes
  v2_subject :: bytes
  v2_audience :: bytes
  v2_nonce :: bytes
  v2_services :: "service_kind list"
  v2_not_before :: u64
  v2_expires_at :: u64
  v2_constraints :: grant_constraints_v2

record grant =
  gr_payload :: bytes
  gr_signature :: bytes

record verified_grant =
  vg_payload :: grant_payload
  vg_id :: bytes

text \<open>
  What a \<open>Malformed\<close> error reports. The source formats these into one message string;
  the model keeps the reason and the data the message is made from.
\<close>

datatype malformed =
    MPostcard string
  | MKey string
  | MSignatureLength
  | MTrailing
  | MTenant
  | MPathBad string
  | MPathNul
  | MPathAbsolute string
  | MPathTraversal string
  | MPathEmpty string

datatype grant_error =
    Malformed malformed
  | UntrustedIssuer
  | GrantBadSignature
  | WrongSubject
  | WrongAudience
  | TenantMismatch
  | PolicyRevisionStale
  | UnsupportedVersion
  | InvalidInterval
  | InvalidRevision
  | InvalidRenewal
  | NotYetValid
  | GrantExpired
  | TtlExceeded u64
  | Oversized

definition skew_secs :: u64 where "skew_secs = 30"
definition grant_version :: u16 where "grant_version = 3"
definition grant_version_min :: u16 where "grant_version_min = 2"
definition max_payload_len :: usize where "max_payload_len = 4096"
definition domain_v2 :: bytes where "domain_v2 = str_bytes ''rds/capability-grant/v2'' @ [0]"
definition domain_v3 :: bytes where "domain_v3 = str_bytes ''rds/capability-grant/v3'' @ [0]"
definition id_domain :: bytes where "id_domain = str_bytes ''rds/grant-session/v2'' @ [0]"
definition max_services :: usize where "max_services = 32"
definition max_tcp_ports :: usize where "max_tcp_ports = 128"
definition max_displays :: usize where "max_displays = 32"
definition max_tenant_len :: usize where "max_tenant_len = 64"
definition max_sync_paths :: usize where "max_sync_paths = 64"
definition max_scope_path_len :: usize where "max_scope_path_len = 512"

lemmas grant_limits = skew_secs_def grant_version_def grant_version_min_def max_payload_len_def
  max_services_def max_tcp_ports_def max_displays_def max_tenant_len_def max_sync_paths_def
  max_scope_path_len_def

definition from_v2 :: "grant_payload_v2 \<Rightarrow> grant_payload" where
  "from_v2 old =
     \<lparr>g_version = v2_version old, g_revision = v2_revision old, g_issuer = v2_issuer old,
      g_subject = v2_subject old, g_audience = v2_audience old, g_nonce = v2_nonce old,
      g_services = v2_services old, g_not_before = v2_not_before old,
      g_expires_at = v2_expires_at old,
      g_constraints = \<lparr>max_bps = v2_max_bps (v2_constraints old),
                       tcp_ports = v2_tcp_ports (v2_constraints old),
                       displays = v2_displays (v2_constraints old), sync_paths = None\<rparr>,
      g_tenant = None, g_policy_revision = None\<rparr>"

definition grant_payload_id :: "crypto \<Rightarrow> grant_payload \<Rightarrow> bytes" where
  "grant_payload_id cr p =
     blake3 cr (id_domain @ g_issuer p @ g_subject p @ g_audience p @ g_nonce p)"

section \<open>Paths\<close>

fun count_components :: "string \<Rightarrow> string list \<Rightarrow> nat \<Rightarrow> (grant_error, nat) result" where
  "count_components path [] n = Inr n"
| "count_components path (part # parts) n =
     (if part = '''' \<or> part = ''.'' then count_components path parts n
      else if part = ''..'' then Inl (Malformed (MPathTraversal path))
      else count_components path parts (n + 1))"

definition is_separator :: "char \<Rightarrow> bool" where
  "is_separator c \<longleftrightarrow> c = CHR ''/'' \<or> c = CHR 0x5C"

definition check_scope_path :: "string \<Rightarrow> (grant_error, unit) result" where
  "check_scope_path path =
     rbind (ensure (\<not> (path = [] \<or> length path > max_scope_path_len)) (Malformed (MPathBad path))) (\<lambda>_.
     rbind (ensure (CHR 0x00 \<notin> set path) (Malformed MPathNul)) (\<lambda>_.
     rbind (ensure (\<not> ((case path of c # _ \<Rightarrow> is_separator c | [] \<Rightarrow> False)
                       \<or> (case path of _ # c # _ \<Rightarrow> c = CHR '':'' | _ \<Rightarrow> False)))
             (Malformed (MPathAbsolute path))) (\<lambda>_.
     rbind (count_components path (split_on is_separator path) 0) (\<lambda>real.
     ensure (real \<noteq> 0) (Malformed (MPathEmpty path))))))"

text \<open>\<open>std::path::Path::components\<close> on Unix.\<close>

datatype component = RootDir | CurDir | ParentDir | Normal string

definition path_components :: "string \<Rightarrow> component list" where
  "path_components s =
     (if take 1 s = ''/'' then [RootDir]
      else if s = ''.'' \<or> take 2 s = ''./'' then [CurDir] else []) @
     map (\<lambda>p. if p = ''..'' then ParentDir else Normal p)
       (filter (\<lambda>p. p \<noteq> '''' \<and> p \<noteq> ''.'') (split_on (\<lambda>c. c = CHR ''/'') s))"

section \<open>Decoding and verification\<close>

record grant_codecs =
  gc_u16 :: "u16 codec"
  gc_v2 :: "grant_payload_v2 codec"
  gc_v3 :: "grant_payload codec"

definition exceeds :: "'a list option \<Rightarrow> usize \<Rightarrow> bool" where
  "exceeds xs n = (case xs of None \<Rightarrow> False | Some l \<Rightarrow> length l > n)"

definition tenant_byte_bad :: "char \<Rightarrow> bool" where
  "tenant_byte_bad c \<longleftrightarrow> (of_char c :: nat) < 0x21 \<or> (of_char c :: nat) = 0x7f"

definition grant_bounds :: "grant_payload \<Rightarrow> (grant_error, unit) result" where
  "grant_bounds p =
     rbind (ensure (g_revision p \<noteq> 0) InvalidRevision) (\<lambda>_.
     rbind (ensure (\<not> g_expires_at p \<le> g_not_before p) InvalidInterval) (\<lambda>_.
     rbind (ensure (\<not> (length (g_services p) > max_services
                       \<or> exceeds (tcp_ports (g_constraints p)) max_tcp_ports
                       \<or> exceeds (displays (g_constraints p)) max_displays
                       \<or> exceeds (sync_paths (g_constraints p)) max_sync_paths
                       \<or> exceeds (g_tenant p) max_tenant_len)) Oversized) (\<lambda>_.
     rbind (case g_tenant p of
              None \<Rightarrow> Inr ()
            | Some t \<Rightarrow> ensure (\<not> (t = [] \<or> list_ex tenant_byte_bad t)) (Malformed MTenant)) (\<lambda>_.
     (case sync_paths (g_constraints p) of
        None \<Rightarrow> Inr ()
      | Some paths \<Rightarrow> each_ok check_scope_path paths)))))"

definition grant_decode :: "grant_codecs \<Rightarrow> grant \<Rightarrow> (grant_error, grant_payload) result" where
  "grant_decode gc g =
     rbind (ensure (\<not> length (gr_payload g) > max_payload_len) Oversized) (\<lambda>_.
     rbind (map_err (\<lambda>e. Malformed (MPostcard e)) (dec (gc_u16 gc) (gr_payload g))) (\<lambda>(version, _).
     rbind
       (if version = grant_version_min then
          rbind (map_err (\<lambda>e. Malformed (MPostcard e)) (dec (gc_v2 gc) (gr_payload g))) (\<lambda>(old, trailing).
          rbind (ensure (trailing = []) (Malformed MTrailing)) (\<lambda>_. Inr (from_v2 old)))
        else if version = grant_version then
          rbind (map_err (\<lambda>e. Malformed (MPostcard e)) (dec (gc_v3 gc) (gr_payload g))) (\<lambda>(new, trailing).
          rbind (ensure (trailing = []) (Malformed MTrailing)) (\<lambda>_. Inr new))
        else Inl UnsupportedVersion) (\<lambda>payload.
     rbind (grant_bounds payload) (\<lambda>_. Inr payload))))"

definition signature_message :: "u16 \<Rightarrow> bytes \<Rightarrow> bytes" where
  "signature_message version payload =
     (if version = grant_version_min then domain_v2 else domain_v3) @ payload"

definition grant_id :: "crypto \<Rightarrow> grant_codecs \<Rightarrow> grant \<Rightarrow> (grant_error, bytes) result" where
  "grant_id cr gc g = rbind (grant_decode gc g) (\<lambda>p. Inr (grant_payload_id cr p))"

definition grant_verify ::
  "crypto \<Rightarrow> grant_codecs \<Rightarrow> grant \<Rightarrow> bytes set \<Rightarrow> bytes \<Rightarrow> bytes \<Rightarrow> duration \<Rightarrow> u64 \<Rightarrow>
     (grant_error, verified_grant) result" where
  "grant_verify cr gc g issuers subject audience max_ttl now =
     rbind (grant_decode gc g) (\<lambda>payload.
     rbind (ensure (g_issuer payload \<in> issuers) UntrustedIssuer) (\<lambda>_.
     rbind (case vk_error cr (g_issuer payload) of
              Some e \<Rightarrow> Inl (Malformed (MKey e)) | None \<Rightarrow> Inr (g_issuer payload)) (\<lambda>issuer_key.
     rbind (ensure (length (gr_signature g) = 64) (Malformed MSignatureLength)) (\<lambda>_.
     rbind (ensure (verify_strict cr issuer_key
                      (signature_message (g_version payload) (gr_payload g)) (gr_signature g))
             GrantBadSignature) (\<lambda>_.
     rbind (ensure (g_subject payload = subject) WrongSubject) (\<lambda>_.
     rbind (ensure (g_audience payload = audience) WrongAudience) (\<lambda>_.
     rbind (ensure (\<not> sat_add64 now skew_secs < g_not_before payload) NotYetValid) (\<lambda>_.
     rbind (ensure (\<not> now \<ge> g_expires_at payload) GrantExpired) (\<lambda>_.
     let ttl = sat_sub64 (g_expires_at payload) (g_not_before payload)
     in rbind (ensure (\<not> ttl > as_secs max_ttl) (TtlExceeded ttl)) (\<lambda>_.
        Inr \<lparr>vg_payload = payload, vg_id = grant_payload_id cr payload\<rparr>))))))))))"

definition grant_issue_at :: "crypto \<Rightarrow> grant_codecs \<Rightarrow> bytes \<Rightarrow> grant_payload \<Rightarrow> grant" where
  "grant_issue_at cr gc sk payload =
     (let bs = enc (gc_v3 gc) payload
      in \<lparr>gr_payload = bs, gr_signature = sk_sign cr sk (signature_message (g_version payload) bs)\<rparr>)"

definition grant_issue ::
  "crypto \<Rightarrow> grant_codecs \<Rightarrow> bytes \<Rightarrow> bytes \<Rightarrow> bytes \<Rightarrow> bytes \<Rightarrow> service_kind list \<Rightarrow> duration \<Rightarrow>
     grant_constraints \<Rightarrow> u64 \<Rightarrow> grant" where
  "grant_issue cr gc sk subject audience nonce services ttl constraints now =
     grant_issue_at cr gc sk
       \<lparr>g_version = grant_version, g_revision = 1, g_issuer = sk_public cr sk,
        g_subject = subject, g_audience = audience, g_nonce = nonce, g_services = services,
        g_not_before = now, g_expires_at = sat_add64 now (as_secs ttl),
        g_constraints = constraints, g_tenant = None, g_policy_revision = None\<rparr>"

section \<open>Scope and renewal\<close>

definition permits :: "verified_grant \<Rightarrow> service_kind \<Rightarrow> bool" where
  "permits g k \<longleftrightarrow> k \<in> set (g_services (vg_payload g))"

definition permits_sync_read :: "verified_grant \<Rightarrow> bool" where
  "permits_sync_read g \<longleftrightarrow> permits g Sync \<or> permits g SyncRead"

definition permits_sync_write :: "verified_grant \<Rightarrow> bool" where
  "permits_sync_write g \<longleftrightarrow> permits g Sync \<or> permits g SyncWrite"

definition permits_desktop_view :: "verified_grant \<Rightarrow> bool" where
  "permits_desktop_view g \<longleftrightarrow> permits g Desktop \<or> permits g DesktopView"

definition permits_desktop_control :: "verified_grant \<Rightarrow> bool" where
  "permits_desktop_control g \<longleftrightarrow>
     permits g Desktop \<or> (permits g DesktopView \<and> permits g DesktopControl)"

definition permits_service :: "verified_grant \<Rightarrow> service_kind \<Rightarrow> bool" where
  "permits_service g k =
     (case k of Sync \<Rightarrow> permits_sync_read g \<or> permits_sync_write g
      | Desktop \<Rightarrow> permits_desktop_view g
      | other \<Rightarrow> permits g other)"

definition permits_port :: "verified_grant \<Rightarrow> u16 \<Rightarrow> bool" where
  "permits_port g port =
     (case tcp_ports (g_constraints (vg_payload g)) of Some ps \<Rightarrow> port \<in> set ps | None \<Rightarrow> True)"

definition permits_display :: "verified_grant \<Rightarrow> u32 \<Rightarrow> bool" where
  "permits_display g d =
     (case displays (g_constraints (vg_payload g)) of Some ds \<Rightarrow> d \<in> set ds | None \<Rightarrow> True)"

definition permits_sync_path :: "verified_grant \<Rightarrow> string \<Rightarrow> bool" where
  "permits_sync_path g rel =
     (case sync_paths (g_constraints (vg_payload g)) of
        Some paths \<Rightarrow>
          list_ex (\<lambda>scope. path_components rel = path_components scope
                          \<or> prefix (path_components scope) (path_components rel)) paths
      | None \<Rightarrow> True)"

definition grant_live_at :: "verified_grant \<Rightarrow> u64 \<Rightarrow> bool" where
  "grant_live_at g now \<longleftrightarrow>
     sat_add64 now skew_secs \<ge> g_not_before (vg_payload g) \<and> now < g_expires_at (vg_payload g)"

definition permits_renewal :: "verified_grant \<Rightarrow> verified_grant \<Rightarrow> (grant_error, bool) result" where
  "permits_renewal self nxt =
     (if vg_payload self = vg_payload nxt then Inr False
      else if vg_id self \<noteq> vg_id nxt
            \<or> g_services (vg_payload self) \<noteq> g_services (vg_payload nxt)
            \<or> g_constraints (vg_payload self) \<noteq> g_constraints (vg_payload nxt)
            \<or> g_tenant (vg_payload self) \<noteq> g_tenant (vg_payload nxt)
            \<or> g_policy_revision (vg_payload self) \<noteq> g_policy_revision (vg_payload nxt)
            \<or> g_revision (vg_payload nxt) \<le> g_revision (vg_payload self)
            \<or> g_not_before (vg_payload nxt) < g_not_before (vg_payload self)
            \<or> g_expires_at (vg_payload nxt) \<le> g_expires_at (vg_payload self)
      then Inl InvalidRenewal
      else Inr True)"

section \<open>Verification\<close>

lemma grant_verify_Inr_iff:
  "grant_verify cr gc g issuers subject audience max_ttl now = Inr v \<longleftrightarrow>
     (\<exists>p. grant_decode gc g = Inr p \<and> v = \<lparr>vg_payload = p, vg_id = grant_payload_id cr p\<rparr> \<and>
          g_issuer p \<in> issuers \<and> vk_error cr (g_issuer p) = None \<and>
          length (gr_signature g) = 64 \<and>
          verify_strict cr (g_issuer p) (signature_message (g_version p) (gr_payload g)) (gr_signature g) \<and>
          g_subject p = subject \<and> g_audience p = audience \<and>
          g_not_before p \<le> sat_add64 now skew_secs \<and> now < g_expires_at p \<and>
          g_expires_at p - g_not_before p \<le> as_secs max_ttl)"
  by (auto simp: grant_verify_def res_simps Let_def not_less not_le split: option.splits)

text \<open>
  What a scope path has to look like: relative, without drive letter or NUL, at most 512 bytes,
  no parent step and at least one real component, whichever separator is used.
\<close>

definition scope_path_ok :: "string \<Rightarrow> bool" where
  "scope_path_ok path \<longleftrightarrow>
     path \<noteq> '''' \<and> length path \<le> 512 \<and> CHR 0x00 \<notin> set path \<and>
     hd path \<notin> {CHR ''/'', CHR 0x5C} \<and> take 1 (drop 1 path) \<noteq> '':'' \<and>
     ''..'' \<notin> set (split_on (\<lambda>c. c \<in> {CHR ''/'', CHR 0x5C}) path) \<and>
     \<not> set (split_on (\<lambda>c. c \<in> {CHR ''/'', CHR 0x5C}) path) \<subseteq> {'''', ''.''}"

lemma count_components_Inr_iff:
  "count_components path parts n = Inr m \<longleftrightarrow>
     ''..'' \<notin> set parts \<and> m = n + length (filter (\<lambda>w. w \<noteq> '''' \<and> w \<noteq> ''.'') parts)"
  by (induction path parts n rule: count_components.induct) auto

lemma check_scope_path_iff: "check_scope_path path = Inr () \<longleftrightarrow> scope_path_ok path"
proof -
  have sep: "is_separator = (\<lambda>c. c \<in> {CHR ''/'', CHR 0x5C})"
    by (auto simp: is_separator_def fun_eq_iff)
  have "(case path of c # _ \<Rightarrow> is_separator c | [] \<Rightarrow> False) \<longleftrightarrow> path \<noteq> [] \<and> is_separator (hd path)"
    by (cases path) simp_all
  moreover have "(case path of _ # c # _ \<Rightarrow> c = CHR '':'' | _ \<Rightarrow> False) \<longleftrightarrow> take 1 (drop 1 path) = '':''"
    by (cases path; cases "tl path") auto
  moreover have "filter (\<lambda>w. w \<noteq> '''' \<and> w \<noteq> ''.'') ws = [] \<longleftrightarrow> set ws \<subseteq> {'''', ''.''}" for ws :: "string list"
    by (auto simp: filter_empty_conv)
  ultimately show ?thesis
    unfolding check_scope_path_def scope_path_ok_def sep [symmetric]
    by (auto simp: res_simps count_components_Inr_iff max_scope_path_len_def is_separator_def not_less)
qed

text \<open>The bounds of a decoded payload, as numbers.\<close>

definition payload_bounds :: "grant_payload \<Rightarrow> bool" where
  "payload_bounds p \<longleftrightarrow>
     0 < g_revision p \<and> g_not_before p < g_expires_at p \<and> length (g_services p) \<le> 32 \<and>
     pred_option (\<lambda>l. length l \<le> 128) (tcp_ports (g_constraints p)) \<and>
     pred_option (\<lambda>l. length l \<le> 32) (displays (g_constraints p)) \<and>
     pred_option (\<lambda>l. length l \<le> 64 \<and> list_all scope_path_ok l) (sync_paths (g_constraints p)) \<and>
     pred_option (\<lambda>t. 1 \<le> length t \<and> length t \<le> 64 \<and>
       list_all (\<lambda>c. 0x21 \<le> (of_char c :: nat) \<and> of_char c \<noteq> (0x7f :: nat)) t) (g_tenant p)"

lemma grant_bounds_iff: "grant_bounds p = Inr () \<longleftrightarrow> payload_bounds p"
  by (auto simp: grant_bounds_def payload_bounds_def exceeds_def grant_limits tenant_byte_bad_def
      check_scope_path_iff res_simps list_all_iff list_ex_iff not_less not_le Suc_le_eq split: option.splits)

text \<open>What the payload bytes decode to: a version-2 payload gains empty claims.\<close>

definition payload_reads :: "grant_codecs \<Rightarrow> bytes \<Rightarrow> grant_payload \<Rightarrow> bool" where
  "payload_reads gc bs p \<longleftrightarrow>
     (\<exists>rest. dec (gc_u16 gc) bs = Inr (3, rest)) \<and> dec (gc_v3 gc) bs = Inr (p, []) \<or>
     (\<exists>rest. dec (gc_u16 gc) bs = Inr (2, rest)) \<and>
     (\<exists>old. dec (gc_v2 gc) bs = Inr (old, []) \<and>
        p = \<lparr>g_version = v2_version old, g_revision = v2_revision old, g_issuer = v2_issuer old,
             g_subject = v2_subject old, g_audience = v2_audience old, g_nonce = v2_nonce old,
             g_services = v2_services old, g_not_before = v2_not_before old, g_expires_at = v2_expires_at old,
             g_constraints = \<lparr>max_bps = v2_max_bps (v2_constraints old),
               tcp_ports = v2_tcp_ports (v2_constraints old), displays = v2_displays (v2_constraints old),
               sync_paths = None\<rparr>,
             g_tenant = None, g_policy_revision = None\<rparr>)"

lemma grant_decode_Inr_iff:
  "grant_decode gc g = Inr p \<longleftrightarrow>
     length (gr_payload g) \<le> 4096 \<and> payload_reads gc (gr_payload g) p \<and> payload_bounds p"
  by (cases "dec (gc_u16 gc) (gr_payload g)")
    (auto simp: grant_decode_def payload_reads_def from_v2_def grant_bounds_iff [symmetric] res_simps
      max_payload_len_def grant_version_def grant_version_min_def not_less split: if_splits)

text \<open>
  C1. A grant verifies exactly when all of the following hold, down to the bytes: the payload is
  at most 4096 bytes, its leading version is 2 or 3 and it is that version's encoding with
  nothing after it; revision, interval, list lengths, tenant characters and every scope path are
  within bounds; the issuer is trusted and has a valid key; the signature is 64 bytes and checks
  over the version's own domain string followed by the payload; subject and audience are the
  connecting peer and this device; \<open>now\<close> lies between \<open>not_before\<close> (less 30 seconds of skew) and
  \<open>expires_at\<close>, and the lifetime is within the agent's maximum. The result carries the payload and
  the digest of domain, issuer, subject, audience and nonce as its id.
\<close>

theorem grant_verify_characterised:
  "grant_verify cr gc g issuers subject audience max_ttl now = Inr v \<longleftrightarrow>
     (\<exists>p. length (gr_payload g) \<le> 4096 \<and> payload_reads gc (gr_payload g) p \<and> payload_bounds p \<and>
          g_issuer p \<in> issuers \<and> vk_error cr (g_issuer p) = None \<and> length (gr_signature g) = 64 \<and>
          verify_strict cr (g_issuer p)
            (str_bytes (if g_version p = 2 then ''rds/capability-grant/v2'' else ''rds/capability-grant/v3'') @
             [0] @ gr_payload g) (gr_signature g) \<and>
          g_subject p = subject \<and> g_audience p = audience \<and>
          g_not_before p \<le> sat_add64 now 30 \<and> now < g_expires_at p \<and>
          g_expires_at p - g_not_before p \<le> as_secs max_ttl \<and>
          v = \<lparr>vg_payload = p,
               vg_id = blake3 cr (str_bytes ''rds/grant-session/v2'' @ [0] @
                 g_issuer p @ g_subject p @ g_audience p @ g_nonce p)\<rparr>)"
proof -
  have msg: "signature_message version bs =
      str_bytes (if version = 2 then ''rds/capability-grant/v2'' else ''rds/capability-grant/v3'') @ [0] @ bs"
    for version bs
    by (simp add: signature_message_def grant_version_min_def domain_v2_def domain_v3_def)
  show ?thesis
    unfolding grant_verify_Inr_iff grant_decode_Inr_iff msg grant_payload_id_def id_domain_def skew_secs_def
    by auto
qed

text \<open>A verified grant is live, and has at most the maximum lifetime plus the skew left.\<close>

lemma grant_verify_live:
  assumes "grant_verify cr gc g issuers subject audience max_ttl now = Inr v"
  shows "grant_live_at v now" and "g_expires_at (vg_payload v) \<le> now + skew_secs + as_secs max_ttl"
  using assms by (auto simp: grant_verify_Inr_iff grant_live_at_def sat_add64_def)

lemma grant_verify_decode:
  "grant_verify cr gc g issuers subject audience max_ttl now = Inr v \<Longrightarrow>
     grant_decode gc g = Inr (vg_payload v) \<and> vg_id v = grant_payload_id cr (vg_payload v)"
  by (auto simp: grant_verify_Inr_iff)

lemma grant_decode_bounds: "grant_decode gc g = Inr p \<Longrightarrow> grant_bounds p = Inr ()"
  by (auto simp: grant_decode_def res_simps split: if_splits)

text \<open>
  postcard writes the fields of a struct in order, so the leading \<open>u16\<close> of an encoded
  payload is its version.
\<close>

definition version_first :: "grant_codecs \<Rightarrow> bool" where
  "version_first gc \<longleftrightarrow>
     (\<forall>bs p r. dec (gc_v2 gc) bs = Inr (p, r) \<longrightarrow> (\<exists>r'. dec (gc_u16 gc) bs = Inr (v2_version p, r'))) \<and>
     (\<forall>bs p r. dec (gc_v3 gc) bs = Inr (p, r) \<longrightarrow> (\<exists>r'. dec (gc_u16 gc) bs = Inr (g_version p, r')))"

lemma grant_decode_versions:
  assumes "version_first gc" and "grant_decode gc g = Inr p"
  shows "g_version p = grant_version \<or>
         g_version p = grant_version_min \<and> g_tenant p = None \<and> g_policy_revision p = None \<and>
         sync_paths (g_constraints p) = None"
  using assms
  by (fastforce simp: grant_decode_def version_first_def from_v2_def res_simps split: if_splits)

text \<open>
  Signatures of the two grant versions are never interchangeable: the signed message
  determines both the payload bytes and whether it was signed as version 2.
\<close>

theorem signature_message_inj:
  assumes "signature_message v payload = signature_message v' payload'"
  shows "payload = payload' \<and> (v = grant_version_min \<longleftrightarrow> v' = grant_version_min)"
proof -
  have "domain_v2 \<noteq> domain_v3" and "length domain_v2 = length domain_v3"
    by (simp_all add: domain_v2_def domain_v3_def str_bytes_def)
  with assms show ?thesis
    by (auto simp: signature_message_def split: if_splits)
qed

theorem signature_message_inj_witness:
  "signature_message 3 [1, 2] = signature_message 4 [1, 2] \<and> ([1, 2] :: bytes) = [1, 2] \<and>
   (3 = grant_version_min \<longleftrightarrow> 4 = grant_version_min)"
proof -
  have h: "signature_message 3 [1, 2] = signature_message 4 [1, 2]"
    by (simp add: signature_message_def grant_version_min_def)
  from signature_message_inj [OF h] h show ?thesis by simp
qed

text \<open>
  An issued grant is accepted by the device it names: for a version-3 payload within
  the bounds and the wire limit, signed by its issuer, \<open>verify\<close> at any time in its
  window returns exactly the issued payload.
\<close>

theorem issued_grant_verifies:
  assumes sig: "signatures_ok cr" and cod: "codec_at (gc_v3 gc) p" and first: "version_first gc"
    and ver: "g_version p = grant_version" and bounds: "grant_bounds p = Inr ()"
    and size: "length (enc (gc_v3 gc) p) \<le> max_payload_len"
    and issuer: "g_issuer p = sk_public cr sk" "g_issuer p \<in> issuers"
    and time: "g_not_before p \<le> sat_add64 now skew_secs" "now < g_expires_at p"
      "g_expires_at p - g_not_before p \<le> as_secs max_ttl"
  shows "grant_verify cr gc (grant_issue_at cr gc sk p) issuers (g_subject p) (g_audience p) max_ttl now
           = Inr \<lparr>vg_payload = p, vg_id = grant_payload_id cr p\<rparr>"
proof -
  obtain r where "dec (gc_u16 gc) (enc (gc_v3 gc) p) = Inr (grant_version, r)"
    using first cod ver by (metis codec_at_def version_first_def)
  then have "grant_decode gc (grant_issue_at cr gc sk p) = Inr p"
    using cod size bounds
    by (simp add: grant_decode_def grant_issue_at_def Let_def codec_at_def grant_version_def
        grant_version_min_def)
  then show ?thesis
    using sig issuer time
    by (simp add: grant_verify_Inr_iff grant_issue_at_def Let_def signatures_ok_def)
qed

section \<open>Scope\<close>

text \<open>
  No capability escalates: injecting input needs the view capability and either the
  broad desktop grant or the separate control capability, a stream service is opened only
  through a listed capability of the same family, and a control capability alone opens
  nothing.
\<close>

theorem scope_no_escalation:
  "(permits_desktop_control g \<longrightarrow> permits_desktop_view g \<and> permits_service g Desktop) \<and>
   (permits_service g Desktop \<longrightarrow> permits g Desktop \<or> permits g DesktopView) \<and>
   (permits_service g Sync \<longrightarrow> permits_sync_read g \<or> permits_sync_write g) \<and>
   (permits_sync_read g \<and> \<not> permits g Sync \<longrightarrow> permits g SyncRead) \<and>
   (permits_sync_write g \<and> \<not> permits g Sync \<longrightarrow> permits g SyncWrite) \<and>
   (g_services (vg_payload g) = [DesktopControl] \<longrightarrow>
      \<not> permits_desktop_control g \<and>
      (\<forall>k. permits_service g k \<longrightarrow> k = DesktopControl))"
proof -
  have "k = DesktopControl" if "g_services (vg_payload g) = [DesktopControl]" "permits_service g k" for k
    using that
    by (cases k) (simp_all add: permits_service_def permits_def permits_sync_read_def
        permits_sync_write_def permits_desktop_view_def)
  then show ?thesis
    by (auto simp: permits_service_def permits_desktop_control_def permits_desktop_view_def
        permits_sync_read_def permits_sync_write_def permits_def)
qed

definition payload0 :: grant_payload where
  "payload0 = \<lparr>g_version = 3, g_revision = 1, g_issuer = replicate 32 7, g_subject = replicate 32 1,
     g_audience = replicate 32 2, g_nonce = replicate 16 5, g_services = [DesktopControl],
     g_not_before = 1000, g_expires_at = 1060,
     g_constraints = \<lparr>max_bps = None, tcp_ports = None, displays = None, sync_paths = Some [''docs/a'']\<rparr>,
     g_tenant = Some ''estate'', g_policy_revision = Some 4\<rparr>"

definition verified0 :: verified_grant where
  "verified0 = \<lparr>vg_payload = payload0, vg_id = grant_payload_id crypto0 payload0\<rparr>"

theorem scope_no_escalation_witness:
  "g_services (vg_payload verified0) = [DesktopControl] \<and> \<not> permits_desktop_control verified0"
  using scope_no_escalation [of verified0] by (simp add: verified0_def payload0_def)

text \<open>A codec set for the witnesses: each payload codec writes its version first.\<close>

definition payload2_0 :: grant_payload_v2 where
  "payload2_0 = \<lparr>v2_version = 2, v2_revision = 1, v2_issuer = replicate 32 7,
     v2_subject = replicate 32 1, v2_audience = replicate 32 2, v2_nonce = replicate 16 5,
     v2_services = [Ping], v2_not_before = 1000, v2_expires_at = 1060,
     v2_constraints = \<lparr>v2_max_bps = None, v2_tcp_ports = None, v2_displays = None\<rparr>\<rparr>"

text \<open>A renewal of the same grant: a later revision that expires later.\<close>

definition payload1 :: grant_payload where
  "payload1 = payload0\<lparr>g_revision := 2, g_expires_at := 1100\<rparr>"

definition verified1 :: verified_grant where
  "verified1 = \<lparr>vg_payload = payload1, vg_id = grant_payload_id crypto0 payload1\<rparr>"

definition v3_codec0 :: "grant_payload codec" where
  "v3_codec0 =
     \<lparr>enc = (\<lambda>p. [3, of_nat (g_revision p)]),
      dec = (\<lambda>bs. case bs of
               t # b # r \<Rightarrow> if t = 3 \<and> b = 1 then Inr (payload0, r)
                             else if t = 3 \<and> b = 2 then Inr (payload1, r) else Inl ''tag''
             | _ \<Rightarrow> Inl ''eof'')\<rparr>"

definition codecs0 :: grant_codecs where
  "codecs0 =
     \<lparr>gc_u16 = \<lparr>enc = (\<lambda>n. [of_nat n]),
                dec = (\<lambda>bs. case bs of [] \<Rightarrow> Inl ''eof'' | b # r \<Rightarrow> Inr (unat b, r))\<rparr>,
      gc_v2 = tag_codec 2 payload2_0, gc_v3 = v3_codec0\<rparr>"

lemma payloads_version: "g_version payload0 = 3" "g_version payload1 = 3"
  "g_revision payload0 = 1" "g_revision payload1 = 2"
  by (simp_all add: payload1_def payload0_def)

lemma v3_codec0_simps [simp]:
  "enc v3_codec0 p = [3, of_nat (g_revision p)]"
  "dec v3_codec0 (3 # 1 # r) = Inr (payload0, r)" "dec v3_codec0 (3 # 2 # r) = Inr (payload1, r)"
  "codec_at v3_codec0 payload0"
  by (simp_all add: v3_codec0_def codec_at_def payloads_version)

lemma v3_codec0_dec_Inr: "dec v3_codec0 bs = Inr (p, r) \<Longrightarrow> hd bs = 3 \<and> bs \<noteq> [] \<and> g_version p = 3"
  by (auto simp: v3_codec0_def payloads_version split: list.splits if_splits)

lemma codecs0_version_first: "version_first codecs0"
  by (auto simp: version_first_def codecs0_def tag_codec_dec_Inr payload2_0_def neq_Nil_conv dest!: v3_codec0_dec_Inr)

lemma payload0_bounds: "grant_bounds payload0 = Inr ()" "grant_bounds payload1 = Inr ()"
  by (simp_all add: grant_bounds_def payload1_def payload0_def grant_limits exceeds_def tenant_byte_bad_def
      check_scope_path_def is_separator_def)

theorem issued_grant_verifies_witness:
  "grant_verify crypto0 codecs0 (grant_issue_at crypto0 codecs0 (replicate 32 7) payload0)
     {replicate 32 7} (replicate 32 1) (replicate 32 2) (from_secs 300) 1010
   = Inr \<lparr>vg_payload = payload0, vg_id = grant_payload_id crypto0 payload0\<rparr>"
proof -
  have cod: "codec_at (gc_v3 codecs0) payload0"
    by (simp add: codecs0_def)
  have "grant_verify crypto0 codecs0 (grant_issue_at crypto0 codecs0 (replicate 32 7) payload0)
     {replicate 32 7} (g_subject payload0) (g_audience payload0) (from_secs 300) 1010
   = Inr \<lparr>vg_payload = payload0, vg_id = grant_payload_id crypto0 payload0\<rparr>"
    by (rule issued_grant_verifies [OF crypto0_ok cod codecs0_version_first _ payload0_bounds(1)])
      (simp_all add: payload0_def crypto0_def codecs0_def grant_limits sat_add64_def u64_max_def)
  then show ?thesis by (simp add: payload0_def)
qed

section \<open>Path scopes\<close>

text \<open>Splitting at more separators only cuts parts into pieces.\<close>

lemma split_on_refine:
  assumes pq: "\<And>c. p c \<Longrightarrow> q c"
  shows "(\<forall>w\<in>set (split_on q s). \<exists>v\<in>set (split_on p s). sublist w v) \<and>
         prefix (hd (split_on q s)) (hd (split_on p s))"
proof (induction s)
  case (Cons c s)
  obtain v vs where v: "split_on p s = v # vs" by (cases "split_on p s") auto
  obtain w ws where w: "split_on q s = w # ws" by (cases "split_on q s") auto
  have IH: "prefix w v" "\<forall>x\<in>set (w # ws). \<exists>y\<in>set (v # vs). sublist x y"
    using Cons.IH v w by auto
  have cut: "\<exists>y\<in>set ((c # v) # vs). sublist x y" if "x \<in> set (w # ws)" for x
    using IH(2) that by (metis set_ConsD list.set_intros sublist_Cons_right)
  have "sublist (c # w) (c # v)"
    using IH(1) by (simp add: prefix_imp_sublist)
  moreover have "prefix (c # w) (c # v)" using IH(1) by simp
  ultimately show ?case
  proof (cases "p c")
    case True
    then show ?thesis using pq [of c] v w IH(2) by auto
  next
    case False
    then show ?thesis
      using v w cut \<open>sublist (c # w) (c # v)\<close> \<open>prefix (c # w) (c # v)\<close> by (cases "q c") auto
  qed
qed simp

text \<open>A part without any of the extra separators survives the finer split.\<close>

lemma split_on_coarse:
  assumes pq: "\<And>c. p c \<Longrightarrow> q c"
  shows "(\<forall>w\<in>set (tl (split_on p s)). (\<forall>c\<in>set w. \<not> q c) \<longrightarrow> w \<in> set (tl (split_on q s))) \<and>
         ((\<forall>c\<in>set (hd (split_on p s)). \<not> q c) \<longrightarrow> hd (split_on q s) = hd (split_on p s))"
proof (induction s)
  case (Cons c s)
  obtain v vs where v: "split_on p s = v # vs" by (cases "split_on p s") auto
  obtain w ws where w: "split_on q s = w # ws" by (cases "split_on q s") auto
  show ?case
    using pq [of c] v w Cons.IH by auto
qed simp

lemma split_on_coarse_mem:
  assumes "\<And>c. p c \<Longrightarrow> q c" and "w \<in> set (split_on p s)" and "\<forall>c\<in>set w. \<not> q c"
  shows "w \<in> set (split_on q s)"
  using split_on_coarse [of p q s] assms
  by (cases "split_on p s"; cases "split_on q s") auto

lemma count_components_Inr:
  "count_components path parts n = Inr m \<Longrightarrow>
     ''..'' \<notin> set parts \<and>
     (n < m \<longrightarrow> (\<exists>w\<in>set parts. w \<noteq> '''' \<and> w \<noteq> ''.'' \<and> w \<noteq> ''..'')) \<and> n \<le> m"
  by (induction path parts n rule: count_components.induct) (auto split: if_splits)

lemma check_scope_path_parts:
  assumes "check_scope_path path = Inr ()"
  shows "''..'' \<notin> set (split_on is_separator path)"
    and "\<exists>w\<in>set (split_on is_separator path). w \<noteq> '''' \<and> w \<noteq> ''.'' \<and> w \<noteq> ''..''"
    and "take 1 path \<noteq> ''/''"
proof -
  obtain n where n: "count_components path (split_on is_separator path) 0 = Inr n" "n \<noteq> 0"
    and sep: "\<not> (case path of c # _ \<Rightarrow> is_separator c | [] \<Rightarrow> False)"
    using assms unfolding check_scope_path_def rbind_Inr_iff ensure_Inr_iff by blast
  from count_components_Inr [OF n(1)] n(2)
  show "''..'' \<notin> set (split_on is_separator path)"
    and "\<exists>w\<in>set (split_on is_separator path). w \<noteq> '''' \<and> w \<noteq> ''.'' \<and> w \<noteq> ''..''"
    by blast+
  show "take 1 path \<noteq> ''/''"
    using sep by (cases path) (auto simp: is_separator_def)
qed

lemma sublist_short: "sublist w ''.'' \<Longrightarrow> w = '''' \<or> w = ''.''"
  by (auto simp: sublist_Cons_right prefix_Cons)

lemma check_scope_path_components:
  assumes ok: "check_scope_path path = Inr ()"
  shows "RootDir \<notin> set (path_components path)" and "ParentDir \<notin> set (path_components path)"
    and "\<exists>n. Normal n \<in> set (path_components path)"
proof -
  let ?sl = "\<lambda>c. c = CHR ''/''"
  have sub: "\<And>c. ?sl c \<Longrightarrow> is_separator c" by (simp add: is_separator_def)
  have nodots: "''..'' \<notin> set (split_on ?sl path)"
    using split_on_coarse_mem [of ?sl is_separator "''..''" path] check_scope_path_parts(1) [OF ok]
    by (auto simp: is_separator_def)
  then show "ParentDir \<notin> set (path_components path)"
    by (auto simp: path_components_def)
  show "RootDir \<notin> set (path_components path)"
    using check_scope_path_parts(3) [OF ok] by (auto simp: path_components_def)
  obtain w where w: "w \<in> set (split_on is_separator path)" "w \<noteq> ''''" "w \<noteq> ''.''"
    using check_scope_path_parts(2) [OF ok] by blast
  then obtain v where v: "v \<in> set (split_on ?sl path)" "sublist w v"
    using split_on_refine [of ?sl is_separator path, OF sub] by blast
  then have "v \<noteq> ''''" "v \<noteq> ''.''" "v \<noteq> ''..''"
    using w nodots sublist_short by auto
  with v have "Normal v \<in> set (path_components path)"
    by (auto simp: path_components_def)
  then show "\<exists>n. Normal n \<in> set (path_components path)" ..
qed

text \<open>
  C30. The path scope of a verified grant confines: a path it admits lies component by
  component below a listed subtree, and that subtree is a relative path with at least
  one named component and no parent step, so a scope never denotes the sync root, an
  absolute path or anything outside the root.
\<close>

theorem sync_path_scope_confines:
  assumes "grant_verify cr gc g issuers subject audience max_ttl now = Inr v"
    and "sync_paths (g_constraints (vg_payload v)) = Some paths"
    and "permits_sync_path v rel"
  shows "\<exists>scope\<in>set paths. \<exists>rest. path_components rel = path_components scope @ rest \<and>
           RootDir \<notin> set (path_components scope) \<and> ParentDir \<notin> set (path_components scope) \<and>
           (\<exists>n. Normal n \<in> set (path_components scope))"
proof -
  have "grant_bounds (vg_payload v) = Inr ()"
    using assms(1) grant_decode_bounds grant_verify_decode by blast
  then have ok: "check_scope_path p = Inr ()" if "p \<in> set paths" for p
    using assms(2) that by (auto simp: grant_bounds_def res_simps)
  obtain scope where "scope \<in> set paths"
    and "path_components rel = path_components scope \<or> prefix (path_components scope) (path_components rel)"
    using assms(2,3) by (auto simp: permits_sync_path_def list_ex_iff)
  then show ?thesis
    using check_scope_path_components [OF ok] by (metis append_Nil2 prefix_def)
qed

lemma verified0_verifies:
  "grant_verify crypto0 codecs0 (grant_issue_at crypto0 codecs0 (replicate 32 7) payload0)
     {replicate 32 7} (replicate 32 1) (replicate 32 2) (from_secs 300) 1010 = Inr verified0"
  "grant_verify crypto0 codecs0 (grant_issue_at crypto0 codecs0 (replicate 32 7) payload1)
     {replicate 32 7} (replicate 32 1) (replicate 32 2) (from_secs 300) 1010 = Inr verified1"
proof -
  have "grant_decode codecs0 (grant_issue_at crypto0 codecs0 (replicate 32 7) payload0) = Inr payload0"
    "grant_decode codecs0 (grant_issue_at crypto0 codecs0 (replicate 32 7) payload1) = Inr payload1"
    using payload0_bounds payloads_version
    by (simp_all add: grant_decode_def grant_issue_at_def Let_def codecs0_def grant_limits)
  then show
    "grant_verify crypto0 codecs0 (grant_issue_at crypto0 codecs0 (replicate 32 7) payload0)
     {replicate 32 7} (replicate 32 1) (replicate 32 2) (from_secs 300) 1010 = Inr verified0"
    "grant_verify crypto0 codecs0 (grant_issue_at crypto0 codecs0 (replicate 32 7) payload1)
     {replicate 32 7} (replicate 32 1) (replicate 32 2) (from_secs 300) 1010 = Inr verified1"
    by (simp_all add: grant_verify_Inr_iff verified0_def verified1_def grant_issue_at_def Let_def payload1_def
        payload0_def crypto0_def codecs0_def grant_limits sat_add64_def u64_max_def)
qed

theorem sync_path_scope_confines_witness:
  "\<exists>scope\<in>set [''docs/a'']. \<exists>rest. path_components ''docs/a/x'' = path_components scope @ rest \<and>
     RootDir \<notin> set (path_components scope) \<and> ParentDir \<notin> set (path_components scope) \<and>
     (\<exists>n. Normal n \<in> set (path_components scope))"
  by (rule sync_path_scope_confines [OF verified0_verifies(1)])
    (simp_all add: verified0_def payload0_def permits_sync_path_def path_components_def)

section \<open>Renewal\<close>

lemma permits_renewal_True_iff:
  "permits_renewal g h = Inr True \<longleftrightarrow>
     vg_id h = vg_id g \<and> g_services (vg_payload h) = g_services (vg_payload g) \<and>
     g_constraints (vg_payload h) = g_constraints (vg_payload g) \<and>
     g_tenant (vg_payload h) = g_tenant (vg_payload g) \<and>
     g_policy_revision (vg_payload h) = g_policy_revision (vg_payload g) \<and>
     g_revision (vg_payload g) < g_revision (vg_payload h) \<and>
     g_not_before (vg_payload g) \<le> g_not_before (vg_payload h) \<and>
     g_expires_at (vg_payload g) < g_expires_at (vg_payload h)"
  by (auto simp: permits_renewal_def not_le not_less)

lemma permits_renewal_same_iff: "permits_renewal g h = Inr False \<longleftrightarrow> vg_payload h = vg_payload g"
  by (auto simp: permits_renewal_def)

lemma permits_renewal_trans:
  "permits_renewal g h = Inr True \<Longrightarrow> permits_renewal h k = Inr True \<Longrightarrow> permits_renewal g k = Inr True"
  by (auto simp: permits_renewal_True_iff)

text \<open>
  The grant id names the authorization session and not the signed bytes: it is a
  function of issuer, subject, audience and nonce alone, so every payload that differs
  only in revision, lifetime or scope has the id that a revocation names.
\<close>

theorem grant_id_is_session_id:
  "grant_payload_id cr (p\<lparr>g_revision := r, g_not_before := nb, g_expires_at := e, g_services := s,
       g_constraints := c, g_tenant := t, g_policy_revision := pr, g_version := v\<rparr>)
   = grant_payload_id cr p"
  by (simp add: grant_payload_id_def)

end
