(* ===== verification/Rds_Agent_Policy.thy ===== *)
theory Rds_Agent_Policy
  imports Rds_Grants Rds_Net Rds_Policy_Invariants
begin

text \<open>
  The agent's policy (\<open>rds-agent/src/lib.rs\<close>: \<open>AgentPolicy\<close>), the observable revocation
  value with its feed (\<open>rds-agent/src/revocations.rs\<close>) and the admission limits
  (\<open>rds-agent/src/limits.rs\<close>). Every call of \<open>Reading::now()\<close> is an argument of its own,
  an \<open>Inl\<close> where the clock could not be read.
\<close>

section \<open>Service kinds in their derived order\<close>

primrec kind_index :: "service_kind \<Rightarrow> nat" where
  "kind_index Ping = 0"
| "kind_index Info = 1"
| "kind_index Tcp = 2"
| "kind_index Desktop = 3"
| "kind_index Sync = 4"
| "kind_index Audio = 5"
| "kind_index SyncRead = 6"
| "kind_index SyncWrite = 7"
| "kind_index DesktopView = 8"
| "kind_index DesktopControl = 9"

lemma kind_index_inj: "kind_index a = kind_index b \<longleftrightarrow> a = b"
  by (cases a; cases b) simp_all

instantiation service_kind :: linorder
begin

definition less_eq_service_kind :: "service_kind \<Rightarrow> service_kind \<Rightarrow> bool" where
  "less_eq_service_kind a b \<longleftrightarrow> kind_index a \<le> kind_index b"

definition less_service_kind :: "service_kind \<Rightarrow> service_kind \<Rightarrow> bool" where
  "less_service_kind a b \<longleftrightarrow> kind_index a < kind_index b"

instance
  by standard
    (auto simp: less_eq_service_kind_def less_service_kind_def kind_index_inj [symmetric])

end

lemma finite_kinds [simp]: "finite (K :: service_kind set)"
proof -
  have "K \<subseteq> {Ping, Info, Tcp, Desktop, Sync, Audio, SyncRead, SyncWrite, DesktopView, DesktopControl}"
    using service_kind.exhaust by blast
  then show ?thesis by (rule finite_subset) simp
qed

section \<open>The revocation value\<close>

type_synonym clock = "(discovery_error, reading) result"

text \<open>\<open>dl_owner\<close> is the identity of the feed's \<open>Arc\<close>, compared by \<open>Arc::ptr_eq\<close>.\<close>

record revocation_policy =
  dl_ids :: "bytes set"
  dl_lease :: "lease option"
  dl_revision :: "(u64 \<times> u64) option"
  dl_local :: bool
  dl_owner :: "nat option"

definition revocation_default :: revocation_policy where
  "revocation_default =
     \<lparr>dl_ids = {}, dl_lease = None, dl_revision = None, dl_local = False, dl_owner = None\<rparr>"

definition lease_valid :: "lease option \<Rightarrow> clock \<Rightarrow> bool" where
  "lease_valid l clk =
     (case clk of Inl _ \<Rightarrow> False
      | Inr now \<Rightarrow> (case l of None \<Rightarrow> False | Some l \<Rightarrow> valid_at l now))"

definition fresh :: "revocation_policy \<Rightarrow> clock \<Rightarrow> bool" where
  "fresh v clk \<longleftrightarrow> dl_local v \<or> lease_valid (dl_lease v) clk"

definition contains :: "revocation_policy \<Rightarrow> bytes \<Rightarrow> bool" where
  "contains v i \<longleftrightarrow> i \<in> dl_ids v"

definition revocations_permit :: "revocation_policy \<Rightarrow> bytes \<Rightarrow> clock \<Rightarrow> bool" where
  "revocations_permit v i clk \<longleftrightarrow> fresh v clk \<and> \<not> contains v i"

text \<open>\<open>metrics\<close>; \<open>None\<close> is the panic of \<open>remaining_at\<close>.\<close>

definition revocation_metrics ::
  "revocation_policy \<Rightarrow> reading option \<Rightarrow> bool \<Rightarrow> (string, u64) btree option" where
  "revocation_metrics v now grants_required =
     (let v0 = bt_put ''rds_agent_revocations_snapshot_present'' (of_bool (dl_revision v \<noteq> None))
                 (bt_put ''rds_agent_revocations_local'' (of_bool (dl_local v))
                   (bt_put ''rds_agent_revoked_grants'' (card (dl_ids v)) []));
          v1 = (case dl_revision v of
                  None \<Rightarrow> v0
                | Some (epoch, revision) \<Rightarrow>
                    bt_put ''rds_agent_revocations_revision'' revision
                      (bt_put ''rds_agent_revocations_epoch'' epoch v0))
      in if \<not> grants_required then Some v1
         else
           let v2 = bt_put ''rds_agent_revocations_clock_known'' (of_bool (now \<noteq> None)) v1;
               v3 = (if dl_local v \<or> dl_lease v = None \<or> now \<noteq> None
                     then bt_put ''rds_agent_revocations_fresh''
                            (of_bool (dl_local v \<or>
                              lease_valid (dl_lease v) (ok_or Expired now))) v2
                     else v2)
           in case now of
                None \<Rightarrow> Some v3
              | Some n \<Rightarrow>
                  if dl_local v then Some v3
                  else map_option
                         (\<lambda>d. bt_put ''rds_agent_revocations_lease_remaining_seconds'' d v3)
                         (case dl_lease v of
                            None \<Rightarrow> Some 0 | Some l \<Rightarrow> map_option as_secs (remaining_at l n)))"

section \<open>Changing the revocation value\<close>

definition use_local_revocations :: "revocation_policy \<Rightarrow> revocation_policy" where
  "use_local_revocations v = v\<lparr>dl_local := True, dl_owner := None, dl_revision := None\<rparr>"

definition require_managed_revocations :: "revocation_policy \<Rightarrow> revocation_policy" where
  "require_managed_revocations v =
     v\<lparr>dl_local := False, dl_lease := None, dl_owner := None, dl_revision := None\<rparr>"

definition revoke :: "revocation_policy \<Rightarrow> bytes \<Rightarrow> revocation_policy" where
  "revoke v i = v\<lparr>dl_ids := insert i (dl_ids v)\<rparr>"

definition replace_denylist :: "revocation_policy \<Rightarrow> bytes set \<Rightarrow> revocation_policy" where
  "replace_denylist v ids = v\<lparr>dl_ids := ids\<rparr>"

definition claim_feed ::
  "revocation_policy \<Rightarrow> nat \<Rightarrow> revocation_policy \<times> (discovery_error, unit) result" where
  "claim_feed v owner =
     (if dl_owner v \<noteq> None then (v, Inl Busy)
      else (v\<lparr>dl_local := False, dl_lease := None, dl_owner := Some owner, dl_revision := None\<rparr>,
            Inr ()))"

definition update_feed ::
  "revocation_policy \<Rightarrow> nat \<Rightarrow> (revocation_policy \<Rightarrow> revocation_policy) \<Rightarrow> revocation_policy" where
  "update_feed v owner update = (if dl_owner v = Some owner then update v else v)"

definition publish_revocations ::
  "revocation_policy \<Rightarrow> nat \<Rightarrow> bytes set \<Rightarrow> lease \<Rightarrow> snapshot_stamp \<Rightarrow> revocation_policy" where
  "publish_revocations v owner ids lease stamp =
     update_feed v owner (\<lambda>p. p\<lparr>dl_ids := ids, dl_lease := Some lease,
       dl_revision := Some (a_epoch (st_authority stamp), st_revision stamp)\<rparr>)"

text \<open>\<open>Drop\<close> of the feed.\<close>

definition drop_feed :: "revocation_policy \<Rightarrow> nat \<Rightarrow> revocation_policy" where
  "drop_feed v owner =
     update_feed v owner (\<lambda>p. p\<lparr>dl_lease := None, dl_owner := None, dl_revision := None\<rparr>)"

section \<open>The revocation feed\<close>

text \<open>
  The blocking job of one poll: \<open>Inl\<close> carries whether the failure is fatal; the message that
  accompanies it is only logged. \<open>poisoned\<close> says that an earlier holder of the store's mutex
  panicked.
\<close>

definition revocation_worker ::
  "policy_ctx \<Rightarrow> commit_io \<Rightarrow> bool \<Rightarrow> policy_store \<Rightarrow> signed_revocations \<Rightarrow> clock \<Rightarrow> clock \<Rightarrow>
     policy_store \<times> (bool, (signed_revocations \<times> revocation_payload \<times> lease) option) result" where
  "revocation_worker ctx io poisoned s snap clk1 clk2 =
     attempt s (ensure (\<not> poisoned) True) (\<lambda>_.
     attempt s (map_err (\<lambda>_. True) clk1) (\<lambda>now.
     case accept_revocations ctx io s snap now of
       (s1, Inl e) \<Rightarrow> (s1, Inl (ps_failed s1))
     | (s1, Inr _) \<Rightarrow>
         attempt s1 (map_err (\<lambda>_. True) clk2) (\<lambda>now2.
         (s1, map_err (\<lambda>_. False) (policy_revocations ctx s1 now2)))))"

definition publish_payload ::
  "revocation_policy \<Rightarrow> nat \<Rightarrow> signed_revocations \<times> revocation_payload \<times> lease \<Rightarrow> revocation_policy" where
  "publish_payload v owner r =
     (case r of (_, payload, lease) \<Rightarrow>
        publish_revocations v owner (fset (rv_revoked payload)) lease (rv_stamp payload))"

text \<open>
  The part of \<open>watch_revocations\<close> before the task is spawned. A cache that cannot be read
  leaves the claimed value without a lease.
\<close>

definition feed_start ::
  "policy_ctx \<Rightarrow> policy_store \<Rightarrow> revocation_policy \<Rightarrow> duration \<Rightarrow> clock \<Rightarrow> nat \<Rightarrow>
     revocation_policy \<times> (discovery_error, unit) result" where
  "feed_start ctx s v interval clk owner =
     attempt v (ensure (\<not> (interval < from_secs 1 \<or> interval > from_secs 60))
                 (Configuration ''revocation interval must be 1..60 seconds'')) (\<lambda>_.
     attempt v clk (\<lambda>now.
     and_then (claim_feed v owner) (\<lambda>v1 _.
       (case policy_revocations ctx s now of
          Inr (Some r) \<Rightarrow> (publish_payload v1 owner r, Inr ())
        | _ \<Rightarrow> (v1, Inr ())))))"

text \<open>
  What one turn of the polling loop meets: the reply to the fetch, the outcome of the commit's
  input and output, whether the store's mutex is poisoned, whether the worker could be joined,
  and the two readings.
\<close>

record feed_turn =
  ft_reply :: "(discovery_error, signed_revocations option) result"
  ft_io :: commit_io
  ft_poisoned :: bool
  ft_joined :: bool
  ft_clock1 :: clock
  ft_clock2 :: clock

text \<open>One turn; the flag says whether the loop goes on.\<close>

definition feed_poll ::
  "policy_ctx \<Rightarrow> nat \<Rightarrow> policy_store \<times> revocation_policy \<Rightarrow> feed_turn \<Rightarrow>
     (policy_store \<times> revocation_policy) \<times> bool" where
  "feed_poll ctx owner sv t =
     (case sv of (s, v) \<Rightarrow>
       (case ft_reply t of
          Inl _ \<Rightarrow> ((s, v), True)
        | Inr None \<Rightarrow> ((s, v), True)
        | Inr (Some snap) \<Rightarrow>
            (case revocation_worker ctx (ft_io t) (ft_poisoned t) s snap (ft_clock1 t) (ft_clock2 t) of
               (s1, outcome) \<Rightarrow>
                 if \<not> ft_joined t then ((s1, update_feed v owner (\<lambda>p. p\<lparr>dl_lease := None\<rparr>)), False)
                 else
                   (case outcome of
                      Inr (Some r) \<Rightarrow> ((s1, publish_payload v owner r), True)
                    | Inr None \<Rightarrow> ((s1, v), True)
                    | Inl fatal \<Rightarrow>
                        if fatal then ((s1, update_feed v owner (\<lambda>p. p\<lparr>dl_lease := None\<rparr>)), False)
                        else ((s1, v), True)))))"

fun feed_polls ::
  "policy_ctx \<Rightarrow> nat \<Rightarrow> policy_store \<times> revocation_policy \<Rightarrow> feed_turn list \<Rightarrow> policy_store \<times> revocation_policy" where
  "feed_polls ctx owner sv [] = sv"
| "feed_polls ctx owner sv (t # ts) =
     (case feed_poll ctx owner sv t of
        (sv1, continue) \<Rightarrow> if continue then feed_polls ctx owner sv1 ts else sv1)"

section \<open>The agent's policy\<close>

record timeout_policy =
  tm_handshake :: duration
  tm_hello :: duration
  tm_authz :: duration
  tm_shutdown :: duration

definition max_timeout :: duration where
  "max_timeout = from_secs 3600"

definition timeout_default :: timeout_policy where
  "timeout_default = \<lparr>tm_handshake = from_secs 15, tm_hello = from_secs 15,
     tm_authz = from_secs 15, tm_shutdown = from_secs 5\<rparr>"

text \<open>
  \<open>denylist\<close> and \<open>active_grants\<close> are the two shared mutable cells; the other fields are fixed
  while the agent runs.
\<close>

record agent_policy =
  ap_allow :: "bytes set"
  ap_tcp_targets :: "(string \<times> u16) set"
  ap_allow_any_tcp :: bool
  ap_issuers :: "bytes set"
  ap_grant_max_ttl :: duration
  ap_denylist :: revocation_policy
  ap_active_grants :: "bytes set"
  ap_sync_dir :: "string option"
  ap_services :: "service_kind set option"
  ap_timeouts :: timeout_policy
  ap_tenant :: "string option"
  ap_min_policy_revision :: "u64 option"

definition ssh_only :: "string \<times> u16 \<Rightarrow> agent_policy" where
  "ssh_only ssh =
     \<lparr>ap_allow = {}, ap_tcp_targets = {ssh}, ap_allow_any_tcp = False, ap_issuers = {},
      ap_grant_max_ttl = from_secs 300, ap_denylist = revocation_default, ap_active_grants = {},
      ap_sync_dir = None, ap_services = None, ap_timeouts = timeout_default, ap_tenant = None,
      ap_min_policy_revision = None\<rparr>"

definition permits_tcp_target :: "agent_policy \<Rightarrow> tcp_target \<Rightarrow> bool" where
  "permits_tcp_target pol target \<longleftrightarrow>
     ap_allow_any_tcp pol \<or>
     (\<exists>(host, port)\<in>ap_tcp_targets pol.
        case tcp_target_new host port of Inl _ \<Rightarrow> False | Inr allowed \<Rightarrow> allowed = target)"

definition permits_tcp :: "agent_policy \<Rightarrow> string \<Rightarrow> u16 \<Rightarrow> bool" where
  "permits_tcp pol host port =
     (case tcp_target_new host port of Inl _ \<Rightarrow> False | Inr target \<Rightarrow> permits_tcp_target pol target)"

definition grants_required :: "agent_policy \<Rightarrow> bool" where
  "grants_required pol \<longleftrightarrow> ap_issuers pol \<noteq> {}"

text \<open>\<open>cfg!(feature = "desktop")\<close> is the argument \<open>desktop\<close>.\<close>

definition effective_services :: "bool \<Rightarrow> agent_policy \<Rightarrow> service_kind set" where
  "effective_services desktop pol =
     {Ping, Info} \<union>
     (case ap_services pol of
        Some explicit \<Rightarrow>
          Set.filter (\<lambda>k. k = Tcp \<or> k = Sync \<or> (k = Desktop \<and> desktop)) explicit
      | None \<Rightarrow>
          {Tcp} \<union> (if desktop then {Desktop} else {}) \<union>
          (if ap_sync_dir pol \<noteq> None then {Sync} else {}))"

definition service_enabled :: "bool \<Rightarrow> agent_policy \<Rightarrow> service_kind \<Rightarrow> bool" where
  "service_enabled desktop pol kind \<longleftrightarrow> kind \<in> effective_services desktop pol"

definition validate_kind :: "bool \<Rightarrow> agent_policy \<Rightarrow> service_kind \<Rightarrow> (string, unit) result" where
  "validate_kind desktop pol kind =
     (case kind of
        Tcp \<Rightarrow> Inr ()
      | Desktop \<Rightarrow> ensure desktop ''desktop service requires the `desktop` build feature''
      | Sync \<Rightarrow> ensure (ap_sync_dir pol \<noteq> None) ''sync service requires a configured sync directory''
      | Audio \<Rightarrow> Inl ''audio service is reserved but not implemented''
      | _ \<Rightarrow> Inl ''service set may only contain tcp, desktop or sync; ping and info are always served'')"

definition agent_validate :: "bool \<Rightarrow> agent_policy \<Rightarrow> (string, unit) result" where
  "agent_validate desktop pol =
     (let t = ap_timeouts pol in
      rbind (case ap_services pol of
               None \<Rightarrow> Inr ()
             | Some kinds \<Rightarrow> each_ok (validate_kind desktop pol) (sorted_list_of_set kinds)) (\<lambda>_.
      rbind (ensure (\<not> (tm_handshake t = 0 \<or> tm_hello t = 0 \<or> tm_authz t = 0 \<or> tm_shutdown t = 0
                        \<or> tm_handshake t > max_timeout \<or> tm_hello t > max_timeout
                        \<or> tm_authz t > max_timeout \<or> tm_shutdown t > max_timeout))
              ''timeouts must be between 1 and 3600 seconds'') (\<lambda>_.
      rbind (case ap_tenant pol of
               None \<Rightarrow> Inr ()
             | Some tenant \<Rightarrow>
                 ensure (\<not> (tenant = [] \<or> length tenant > max_tenant_len \<or> list_ex tenant_byte_bad tenant))
                   ''tenant must be nonempty, at most 64 bytes and free of control or whitespace bytes'') (\<lambda>_.
      ensure (\<not> (ap_issuers pol = {} \<and> (ap_tenant pol \<noteq> None \<or> ap_min_policy_revision pol \<noteq> None)))
        ''tenant/policy-revision binding requires grant issuers''))))"

section \<open>Limits\<close>

record agent_limits =
  li_connections :: usize
  li_streams :: usize
  li_max_fds :: "u64 option"
  li_max_rss_bytes :: "u64 option"

definition agent_limits_default :: agent_limits where
  "agent_limits_default =
     \<lparr>li_connections = 32, li_streams = 64, li_max_fds = None, li_max_rss_bytes = None\<rparr>"

definition agent_limits_new :: "u16 \<Rightarrow> u16 \<Rightarrow> agent_limits" where
  "agent_limits_new connections streams =
     agent_limits_default\<lparr>li_connections := connections, li_streams := streams\<rparr>"

definition with_process_budget :: "agent_limits \<Rightarrow> u64 option \<Rightarrow> u64 option \<Rightarrow> agent_limits" where
  "with_process_budget l max_fds max_rss_mb =
     l\<lparr>li_max_fds := max_fds,
       li_max_rss_bytes := map_option (\<lambda>mb. sat_mul64 mb (1024 * 1024)) max_rss_mb\<rparr>"

text \<open>The stream counter wraps as \<open>fetch_add\<close> and \<open>fetch_sub\<close> do; \<open>exit_stream\<close> is the drop of a \<open>StreamTask\<close>.\<close>

definition enter_stream :: "64 word \<Rightarrow> 64 word" where
  "enter_stream n = n + 1"

definition exit_stream :: "64 word \<Rightarrow> 64 word" where
  "exit_stream n = n - 1"

definition sample_interval :: duration where
  "sample_interval = 200000000"

text \<open>The cache holds the instant and the verdict of the last sample.\<close>

record resource_gate =
  rg_max_fds :: "u64 option"
  rg_max_rss_bytes :: "u64 option"
  rg_cache :: "duration option \<times> bool"

definition resource_gate_new :: "agent_limits \<Rightarrow> resource_gate option" where
  "resource_gate_new l =
     (if li_max_fds l = None \<and> li_max_rss_bytes l = None then None
      else Some \<lparr>rg_max_fds = li_max_fds l, rg_max_rss_bytes = li_max_rss_bytes l,
                 rg_cache = (None, True)\<rparr>)"

text \<open>One bound against one observation: whether it was observed, and whether it fits.\<close>

definition observe_bound :: "u64 option \<Rightarrow> u64 option \<Rightarrow> bool \<times> bool \<Rightarrow> bool \<times> bool" where
  "observe_bound limit seen acc =
     (case acc of (observed, ok) \<Rightarrow>
       (case limit of
          None \<Rightarrow> (observed, ok)
        | Some m \<Rightarrow>
            (case seen of None \<Rightarrow> (observed, ok) | Some n \<Rightarrow> (True, ok \<and> n < m))))"

text \<open>
  \<open>allows\<close>: \<open>elapsed_now\<close> is the instant that \<open>elapsed\<close> reads, \<open>fds\<close> and \<open>rss\<close> what the kernel
  reports and \<open>stored_now\<close> the instant stored with the verdict. \<open>Instant::elapsed\<close> saturates.
\<close>

definition gate_allows ::
  "resource_gate \<Rightarrow> duration \<Rightarrow> u64 option \<Rightarrow> u64 option \<Rightarrow> duration \<Rightarrow> resource_gate \<times> bool" where
  "gate_allows g elapsed_now fds rss stored_now =
     (case rg_cache g of (at, cached) \<Rightarrow>
       if (case at of None \<Rightarrow> False | Some t \<Rightarrow> elapsed_now - t < sample_interval) then (g, cached)
       else
         (case observe_bound (rg_max_rss_bytes g) rss (observe_bound (rg_max_fds g) fds (False, True)) of
            (observed, ok) \<Rightarrow>
              let verdict = ok \<or> \<not> observed
              in (g\<lparr>rg_cache := (Some stored_now, verdict)\<rparr>, verdict)))"

section \<open>What the feed publishes\<close>

lemma fst_forget [simp]: "fst (forget m) = fst m"
  by (auto simp: forget_def split: prod.splits sum.splits)

lemma worker_step:
  assumes "revocation_worker ctx io poisoned s snap clk1 clk2 = (s1, outcome)"
  shows "s1 = s \<or> (\<exists>now. s1 = policy_next ctx s (OpRevocations snap, io, now))"
    and "outcome = Inr (Some r) \<Longrightarrow> \<exists>now. policy_revocations ctx s1 now = Inr (Some r)"
proof -
  have "s1 = s \<and> outcome \<noteq> Inr (Some r) \<or>
    (\<exists>now r2. accept_revocations ctx io s snap now = (s1, r2)) \<and>
    (outcome = Inr (Some r) \<longrightarrow> (\<exists>now. policy_revocations ctx s1 now = Inr (Some r)))" (is "_ \<or> ?acc \<and> _")
    using assms
    by (cases "accept_revocations ctx io s snap (projr clk1)"; cases clk1)
      (auto simp: revocation_worker_def attempt_eq_iff res_simps split: sum.splits)
  moreover have "\<exists>now. s1 = policy_next ctx s (OpRevocations snap, io, now)" if ?acc
    using that by (metis fst_conv fst_forget policy_next_def policy_step.simps(2))
  ultimately show "s1 = s \<or> (\<exists>now. s1 = policy_next ctx s (OpRevocations snap, io, now))"
    and "outcome = Inr (Some r) \<Longrightarrow> \<exists>now. policy_revocations ctx s1 now = Inr (Some r)"
    by blast+
qed

lemma accept_revocations_authority:
  "po_authority (ps_state (policy_next ctx s (OpRevocations snap, io, now))) = po_authority (ps_state s)"
proof -
  obtain s1 r where "forget (accept_revocations ctx io s snap now) = (s1, r)" by fastforce
  then show ?thesis
    unfolding policy_next_def policy_step.simps accept_revocations_eq
    by (auto simp: attempt_eq_iff dest!: commit_view split: option.splits prod.splits)
qed

text \<open>The invariant of an owned feed over the store it polls into.\<close>

definition feed_payload :: "policy_ctx \<Rightarrow> policy_store \<Rightarrow> revocation_policy \<Rightarrow> u64 \<times> u64 \<Rightarrow> bool" where
  "feed_payload ctx s v r \<longleftrightarrow>
     (\<exists>snap p. revocations_verify (px_crypto ctx) (px_revocations ctx) snap
                 (a_key (po_authority (ps_state s))) = Inr p \<and>
        st_authority (rv_stamp p) = po_authority (ps_state s) \<and>
        dl_ids v = fset (rv_revoked p) \<and> r = stamp_order (rv_stamp p) \<and>
        (\<forall>l. dl_lease v = Some l \<longrightarrow> matches_interval l (rv_issued_at p) (rv_expires_at p)))"

definition feed_inv :: "policy_ctx \<Rightarrow> authority \<Rightarrow> nat \<Rightarrow> policy_store \<times> revocation_policy \<Rightarrow> bool" where
  "feed_inv ctx bootstrap owner sv \<longleftrightarrow>
     (case sv of (s, v) \<Rightarrow>
       policy_inv ctx bootstrap s \<and> dl_owner v = Some owner \<and> \<not> dl_local v \<and>
       (case dl_revision v of
          None \<Rightarrow> dl_lease v = None
        | Some r \<Rightarrow> r \<le> revocations_floor ctx s \<and> feed_payload ctx s v r))"

lemma served_payload:
  assumes "policy_inv ctx b s" and "policy_revocations ctx s now = Inr (Some (snap, p, l))"
  shows "revocations_verify (px_crypto ctx) (px_revocations ctx) snap (a_key (po_authority (ps_state s))) = Inr p"
    and "st_authority (rv_stamp p) = po_authority (ps_state s)"
    and "matches_interval l (rv_issued_at p) (rv_expires_at p)"
    and "stamp_order (rv_stamp p) = revocations_floor ctx s"
proof -
  have q: "po_revocations (ps_state s) = Some snap" "po_revocations_lease (ps_state s) = Some l"
    and v: "revocations_verify (px_crypto ctx) (px_revocations ctx) snap (a_key (po_authority (ps_state s))) = Inr p"
    using assms(2) by (auto simp: policy_revocations_def res_simps split: option.splits if_splits)
  then show "st_authority (rv_stamp p) = po_authority (ps_state s)"
    and "matches_interval l (rv_issued_at p) (rv_expires_at p)"
    using assms(1) by (auto simp: policy_inv_def policy_validate_iff revocations_stream_is_def)
  then show "stamp_order (rv_stamp p) = revocations_floor ctx s"
    using q v by (simp add: stamp_order_def revocations_floor_def revocations_revision_def)
  show "revocations_verify (px_crypto ctx) (px_revocations ctx) snap (a_key (po_authority (ps_state s))) = Inr p"
    by (rule v)
qed

lemma published_inv:
  assumes "policy_inv ctx b s" and "policy_revocations ctx s now = Inr (Some r)"
    and "dl_owner v = Some owner" and "\<not> dl_local v"
  shows "feed_inv ctx b owner (s, publish_payload v owner r)"
    and "dl_revision (publish_payload v owner r) = Some (revocations_floor ctx s)"
proof -
  obtain snap p l where r: "r = (snap, p, l)" by (cases r)
  note sp = served_payload [OF assms(1) assms(2) [unfolded r]]
  show rev: "dl_revision (publish_payload v owner r) = Some (revocations_floor ctx s)"
    using assms(3) sp(4)
    by (simp add: r publish_payload_def publish_revocations_def update_feed_def stamp_order_def)
  have "feed_payload ctx s (publish_payload v owner r) (revocations_floor ctx s)"
    unfolding feed_payload_def using sp assms(3)
    by (intro exI [of _ snap] exI [of _ p])
      (simp add: r publish_payload_def publish_revocations_def update_feed_def)
  then show "feed_inv ctx b owner (s, publish_payload v owner r)"
    using assms rev
    by (simp add: feed_inv_def)
      (simp add: r publish_payload_def publish_revocations_def update_feed_def)
qed

lemma feed_store_step:
  assumes inv: "feed_inv ctx b owner (s, v)"
    and step: "s1 = s \<or> (\<exists>now. s1 = policy_next ctx s (OpRevocations snap, io, now))"
  shows "feed_inv ctx b owner (s1, v)" and "feed_inv ctx b owner (s1, v\<lparr>dl_lease := None\<rparr>)"
    and "revocations_floor ctx s \<le> revocations_floor ctx s1"
proof -
  have s: "policy_inv ctx b s" using inv by (simp add: feed_inv_def)
  have auth: "po_authority (ps_state s1) = po_authority (ps_state s)"
    using step accept_revocations_authority by auto
  show le: "revocations_floor ctx s \<le> revocations_floor ctx s1"
    using step revocation_register.run_floor_mono [OF s] by auto
  have "policy_inv ctx b s1" using step s policy_step_inv by auto
  with inv auth le show "feed_inv ctx b owner (s1, v)" "feed_inv ctx b owner (s1, v\<lparr>dl_lease := None\<rparr>)"
    by (auto simp: feed_inv_def feed_payload_def split: option.splits)
qed

lemma feed_poll_inv:
  assumes inv: "feed_inv ctx b owner (s, v)" and poll: "feed_poll ctx owner (s, v) t = ((s1, v1), c)"
  shows "feed_inv ctx b owner (s1, v1)"
    and "dl_revision v = Some r \<Longrightarrow> \<exists>r1. dl_revision v1 = Some r1 \<and> r \<le> r1"
proof -
  have own: "dl_owner v = Some owner" "\<not> dl_local v" using inv by (auto simp: feed_inv_def)
  have "feed_inv ctx b owner (s1, v1) \<and>
        (dl_revision v = Some r \<longrightarrow> (\<exists>r1. dl_revision v1 = Some r1 \<and> r \<le> r1))"
  proof (cases "\<exists>snap. ft_reply t = Inr (Some snap)")
    case False
    then show ?thesis
      using poll inv by (auto simp: feed_poll_def simp del: split_paired_Ex split: sum.splits option.splits)
  next
    case True
    then obtain snap where snap: "ft_reply t = Inr (Some snap)" ..
    obtain s2 out where w: "revocation_worker ctx (ft_io t) (ft_poisoned t) s snap (ft_clock1 t) (ft_clock2 t) = (s2, out)"
      by fastforce
    note st = feed_store_step [OF inv worker_step(1) [OF w]]
    have s2: "s1 = s2" "v1 = v \<or> v1 = v\<lparr>dl_lease := None\<rparr> \<or> (\<exists>p. out = Inr (Some p) \<and> v1 = publish_payload v owner p)"
      using poll own by (auto simp: feed_poll_def snap w update_feed_def split: sum.splits option.splits if_splits)
    show ?thesis
    proof (cases "\<exists>p. out = Inr (Some p) \<and> v1 = publish_payload v owner p")
      case True
      then obtain p now where p: "v1 = publish_payload v owner p" "policy_revocations ctx s2 now = Inr (Some p)"
        using worker_step(2) [OF w] by blast
      have "policy_inv ctx b s2" using st(1) by (simp add: feed_inv_def)
      from published_inv [OF this p(2) own] p(1) s2(1) inv st(3) show ?thesis
        by (auto simp: feed_inv_def split: option.splits)
    next
      case False
      with s2 st show ?thesis by (auto simp del: split_paired_Ex)
    qed
  qed
  then show "feed_inv ctx b owner (s1, v1)"
    and "dl_revision v = Some r \<Longrightarrow> \<exists>r1. dl_revision v1 = Some r1 \<and> r \<le> r1" by auto
qed

lemma feed_polls_inv:
  assumes "feed_inv ctx b owner (s, v)" and "feed_polls ctx owner (s, v) ts = (s1, v1)"
  shows "feed_inv ctx b owner (s1, v1) \<and>
         (\<forall>r. dl_revision v = Some r \<longrightarrow> (\<exists>r1. dl_revision v1 = Some r1 \<and> r \<le> r1))"
  using assms
proof (induction ts arbitrary: s v)
  case (Cons t ts)
  obtain s2 v2 c where p: "feed_poll ctx owner (s, v) t = ((s2, v2), c)" by (metis prod.exhaust)
  note st = feed_poll_inv [OF Cons.prems(1) p]
  show ?case
    using Cons.IH [OF st(1)] Cons.prems(2) st by (cases c) (fastforce simp: p)+
qed auto

lemma feed_start_inv:
  assumes "policy_inv ctx b s" and "feed_start ctx s v interval clk owner = (v1, Inr ())"
  shows "feed_inv ctx b owner (s, v1)"
proof -
  let ?v = "v\<lparr>dl_local := False, dl_lease := None, dl_owner := Some owner, dl_revision := None\<rparr>"
  obtain now where "v1 = ?v \<or> (\<exists>r. policy_revocations ctx s now = Inr (Some r) \<and> v1 = publish_payload ?v owner r)"
    using assms(2)
    by (cases clk; cases "policy_revocations ctx s (projr clk)")
      (auto simp: feed_start_def claim_feed_def attempt_eq_iff and_then_eq_iff simp del: split_paired_Ex
        split: if_splits option.splits)
  then show ?thesis
    using assms(1) published_inv(1) [OF assms(1)] by (elim disjE exE) (auto simp: feed_inv_def)
qed

text \<open>
  C10. The revocation feed publishes signed data only and never goes back: after any sequence of
  polls from its start, with fetch errors, rejected snapshots, failed commits and lost workers,
  a value that counts as fresh holds exactly the ids of one snapshot signed by the estate's
  current authority, at a wall clock inside that snapshot's signed interval; and the published
  epoch and revision never decrease under further polls.
\<close>

theorem feed_fresh_is_signed:
  assumes inv: "policy_inv ctx bootstrap s"
    and start: "feed_start ctx s v interval clk owner = (v1, Inr ())"
    and run: "feed_polls ctx owner (s, v1) ts = (s2, v2)"
    and fresh: "fresh v2 (Inr now)"
    and later: "feed_polls ctx owner (s2, v2) ts' = (s3, v3)"
  shows "(\<exists>snap p. revocations_verify (px_crypto ctx) (px_revocations ctx) snap
              (a_key (po_authority (ps_state s2))) = Inr p \<and>
            dl_ids v2 = fset (rv_revoked p) \<and> dl_revision v2 = Some (stamp_order (rv_stamp p)) \<and>
            rv_issued_at p \<le> as_secs (r_wall now) \<and> as_secs (r_wall now) < rv_expires_at p) \<and>
         (\<exists>r2 r3. dl_revision v2 = Some r2 \<and> dl_revision v3 = Some r3 \<and> r2 \<le> r3)"
proof -
  have i2: "feed_inv ctx bootstrap owner (s2, v2)"
    using feed_polls_inv [OF feed_start_inv [OF inv start] run] ..
  obtain l where l: "dl_lease v2 = Some l" "valid_at l now"
    using fresh i2 by (auto simp: fresh_def feed_inv_def lease_valid_def split: option.splits)
  obtain r where r: "dl_revision v2 = Some r" "feed_payload ctx s2 v2 r"
    using i2 l(1) by (auto simp: feed_inv_def split: option.splits)
  obtain r3 where "dl_revision v3 = Some r3" "r \<le> r3"
    using feed_polls_inv [OF i2 later] r(1) by blast
  moreover obtain snap p where p: "revocations_verify (px_crypto ctx) (px_revocations ctx) snap
      (a_key (po_authority (ps_state s2))) = Inr p" "dl_ids v2 = fset (rv_revoked p)"
      "r = stamp_order (rv_stamp p)" "matches_interval l (rv_issued_at p) (rv_expires_at p)"
    using r(2) l(1) by (auto simp: feed_payload_def)
  moreover have "rv_issued_at p \<le> as_secs (r_wall now)" "as_secs (r_wall now) < rv_expires_at p"
    using p(4) l(2) by (auto simp: valid_at_def matches_interval_def)
  ultimately show ?thesis using r(1) by blast
qed

text \<open>A feed started on an empty store that then receives the snapshot of the concrete store.\<close>

definition turn0 :: feed_turn where
  "turn0 = \<lparr>ft_reply = Inr (Some snap0), ft_io = commit_ok, ft_poisoned = False, ft_joined = True,
     ft_clock1 = Inr now0, ft_clock2 = Inr now0\<rparr>"

definition feed0 :: revocation_policy where
  "feed0 = revocation_default\<lparr>dl_owner := Some 1\<rparr>"

definition feed1 :: revocation_policy where
  "feed1 = \<lparr>dl_ids = fset (rv_revoked revocations0), dl_lease = Some lease_r0,
     dl_revision = Some (stamp_order (rv_stamp revocations0)), dl_local = False, dl_owner = Some 1\<rparr>"

definition store_snap :: policy_store where
  "store_snap = policy_next ctx0 store0 msg0"

lemma store_snap_state: "ps_state store_snap = policy_state1" "ps_failed store_snap = False"
  by (simp_all add: store_snap_def policy_next_def msg0_def step0 policy_commit_def store0_def del: policy_step.simps)

lemma store_snap_serves: "policy_revocations ctx0 store_snap now0 = Inr (Some (snap0, revocations0, lease_r0))"
proof -
  have "policy_check_clock store_snap now0 = Inr ()"
    by (rule clock0) (simp_all add: store_snap_state policy_state1_def)
  then show ?thesis
    using snap0_verifies valid_r0
    by (simp add: policy_revocations_def store_snap_state policy_state1_def policy_state0_def ctx0_simps auth_a_key)
qed

lemma store0_accept: "\<exists>x. accept_revocations ctx0 commit_ok store0 snap0 now0 = (store_snap, Inr x)"
proof -
  have "forget (accept_revocations ctx0 commit_ok store0 snap0 now0) = (store_snap, Inr ())"
    using step0 [of store0 commit_ok]
    by (simp add: store_snap_def policy_next_def msg0_def store0_def policy_commit_def)
  then show ?thesis
    by (auto simp: forget_def split: prod.splits sum.splits)
qed

lemma feed0_start: "feed_start ctx0 store0 revocation_default (from_secs 5) (Inr now0) 1 = (feed0, Inr ())"
proof -
  have "policy_revocations ctx0 store0 now0 = Inr None"
    using clock0 [of store0] by (simp add: policy_revocations_def store0_def policy_state0_def)
  then show ?thesis
    by (simp add: feed_start_def claim_feed_def revocation_default_def feed0_def from_secs_def nanos_per_sec_def)
qed

lemma feed0_poll: "feed_polls ctx0 1 (store0, feed0) [turn0] = (store_snap, feed1)"
proof -
  obtain x where "accept_revocations ctx0 commit_ok store0 snap0 now0 = (store_snap, Inr x)"
    using store0_accept ..
  then show ?thesis
    using store_snap_serves
    by (simp add: feed_poll_def turn0_def revocation_worker_def publish_payload_def publish_revocations_def
        update_feed_def feed0_def feed1_def revocation_default_def stamp_order_def)
qed

theorem feed_fresh_is_signed_witness:
  "fresh feed1 (Inr now0) \<and> (\<exists>snap p. dl_ids feed1 = fset (rv_revoked p) \<and>
     revocations_verify crypto0 (px_revocations ctx0) snap (a_key (po_authority (ps_state store_snap))) = Inr p)"
proof -
  have f: "fresh feed1 (Inr now0)"
    using valid_r0 by (simp add: fresh_def lease_valid_def feed1_def)
  from feed_fresh_is_signed [OF store0_inv feed0_start feed0_poll f, of "[]"] f show ?thesis
    by (auto simp: ctx0_simps)
qed

section \<open>Validated policies\<close>

lemma each_ok_Inr: "each_ok c xs = Inr () \<longleftrightarrow> (\<forall>x\<in>set xs. c x = Inr ())"
  by (induction xs) (auto simp: res_simps)

lemma validate_kind_Inr_iff:
  "validate_kind desktop pol k = Inr () \<longleftrightarrow>
     k = Tcp \<or> k = Desktop \<and> desktop \<or> k = Sync \<and> ap_sync_dir pol \<noteq> None"
  by (cases k) (simp_all add: validate_kind_def res_simps)

text \<open>
  C37. What a validated policy guarantees: an explicit service set is answered in full, with the
  always-on control plane and nothing else; no service without its prerequisite is ever answered,
  and the reserved audio service never is; every deadline is positive and at most an hour; and a
  pinned tenant or policy revision is never silently unenforced, because grants are then required.
\<close>

theorem validated_policy_honest:
  assumes "agent_validate desktop pol = Inr ()"
  shows "(\<forall>kinds. ap_services pol = Some kinds \<longrightarrow> effective_services desktop pol = {Ping, Info} \<union> kinds) \<and>
         (Desktop \<in> effective_services desktop pol \<longrightarrow> desktop) \<and>
         (Sync \<in> effective_services desktop pol \<longrightarrow> ap_sync_dir pol \<noteq> None) \<and>
         effective_services desktop pol \<subseteq> {Ping, Info, Tcp, Desktop, Sync} \<and>
         (\<forall>t\<in>{tm_handshake (ap_timeouts pol), tm_hello (ap_timeouts pol), tm_authz (ap_timeouts pol),
              tm_shutdown (ap_timeouts pol)}. 0 < t \<and> t \<le> max_timeout) \<and>
         (ap_tenant pol \<noteq> None \<or> ap_min_policy_revision pol \<noteq> None \<longrightarrow> grants_required pol)"
proof -
  have kinds: "\<forall>k\<in>kinds. k = Tcp \<or> k = Desktop \<and> desktop \<or> k = Sync \<and> ap_sync_dir pol \<noteq> None"
    if "ap_services pol = Some kinds" for kinds
    using assms that by (auto simp: agent_validate_def Let_def res_simps each_ok_Inr validate_kind_Inr_iff)
  have rest: "(\<forall>t\<in>{tm_handshake (ap_timeouts pol), tm_hello (ap_timeouts pol), tm_authz (ap_timeouts pol),
              tm_shutdown (ap_timeouts pol)}. 0 < t \<and> t \<le> max_timeout) \<and>
         (ap_tenant pol \<noteq> None \<or> ap_min_policy_revision pol \<noteq> None \<longrightarrow> grants_required pol)"
    using assms by (auto simp: agent_validate_def Let_def res_simps grants_required_def)
  show ?thesis
    using rest kinds by (cases "ap_services pol") (auto simp: effective_services_def)
qed

definition policy_ssh :: agent_policy where
  "policy_ssh = (ssh_only (''localhost'', 22))\<lparr>ap_issuers := {replicate 32 7}, ap_tenant := Some ''estate'',
     ap_min_policy_revision := Some 4, ap_services := Some {Tcp}\<rparr>"

theorem validated_policy_honest_witness:
  "effective_services False policy_ssh = {Ping, Info, Tcp} \<and> grants_required policy_ssh"
proof -
  have "agent_validate False policy_ssh = Inr ()"
    by (simp add: agent_validate_def policy_ssh_def ssh_only_def timeout_default_def max_timeout_def
        from_secs_def nanos_per_sec_def validate_kind_def max_tenant_len_def tenant_byte_bad_def Let_def)
  from validated_policy_honest [OF this] show ?thesis
    by (auto simp: policy_ssh_def)
qed

section \<open>Diagnostics and the process budget\<close>

text \<open>The exported freshness is the one admission uses, and computing the metrics never panics.\<close>

lemma remaining_at_total: "\<exists>r. remaining_at l now = Some r"
  by (cases "valid_at l now") (simp_all add: remaining_at_valid remaining_at_invalid)

lemma revocation_metrics_total: "\<exists>m. revocation_metrics v now required = Some m"
proof (cases now)
  case (Some n)
  have "\<exists>d. (case dl_lease v of None \<Rightarrow> Some 0 | Some l \<Rightarrow> map_option as_secs (remaining_at l n)) = Some d"
    using remaining_at_total [of _ n] by (auto split: option.splits)
  then show ?thesis
    using Some by (auto simp: revocation_metrics_def Let_def)
qed (simp add: revocation_metrics_def Let_def)

text \<open>A refusal of the process gate is a recent refusal or an observed excess.\<close>

lemma gate_refusal:
  assumes "snd (gate_allows g t fds rss t1) = False"
  shows "(\<exists>t0. rg_cache g = (Some t0, False) \<and> t - t0 < sample_interval) \<or>
         (\<exists>m n. rg_max_fds g = Some m \<and> fds = Some n \<and> m \<le> n) \<or>
         (\<exists>m n. rg_max_rss_bytes g = Some m \<and> rss = Some n \<and> m \<le> n)"
  using assms
  by (auto simp: gate_allows_def observe_bound_def Let_def not_less split: option.splits prod.splits if_splits)

lemma stream_counter_balanced: "exit_stream (enter_stream n) = n"
  by (simp add: enter_stream_def exit_stream_def)

end
