(* ===== verification/Rds_Agent_Authz.thy ===== *)
theory Rds_Agent_Authz
  imports Rds_Agent_Policy
begin

text \<open>
  Grant admission of the agent (\<open>rds-agent/src/authz.rs\<close>): the authorization state of one
  connection, the replay reservation it owns, the authorize transaction in its segments between
  awaits, renewal, scope queries and the grant watchdog. The segments take the pair of the shared
  set of active grant ids and the connection's state. What another thread may change in between
  (whether the connection is closed, the denylist, the clocks) is an argument for each read.
\<close>

section \<open>State\<close>

record active_grant =
  ag_grant :: verified_grant
  ag_validity :: lease

text \<open>
  \<open>gl_updates\<close> is the value in the channel the watchdog reads, \<open>gl_slot\<close> the id of the
  reservation that is released when the lease is dropped.
\<close>

record grant_lease =
  gl_current :: active_grant
  gl_updates :: active_grant
  gl_slot :: bytes

datatype authz_state =
    Open
  | Pending
  | Authorizing "grant_lease option"
  | Granted grant_lease
  | Renewing grant_lease
  | Closed

record conn_authz =
  ca_audience :: bytes
  ca_state :: authz_state
  ca_sync_busy :: bool
  ca_service_slots :: usize

definition conn_authz_new :: "bool \<Rightarrow> bytes \<Rightarrow> usize \<Rightarrow> conn_authz" where
  "conn_authz_new required audience streams =
     \<lparr>ca_audience = audience, ca_state = (if required then Pending else Open),
      ca_sync_busy = False,
      ca_service_slots = streams - of_bool (required \<or> streams > 1)\<rparr>"

section \<open>The replay reservation and an accepted grant\<close>

definition slot_claim :: "bytes set \<Rightarrow> bytes \<Rightarrow> bytes set \<times> (string, bytes) result" where
  "slot_claim active i =
     (if i \<in> active then (active, Inl ''grant already in use'') else (insert i active, Inr i))"

definition slot_release :: "bytes set \<Rightarrow> bytes \<Rightarrow> bytes set" where
  "slot_release active i = active - {i}"

definition active_grant_new :: "verified_grant \<Rightarrow> reading \<Rightarrow> (string, active_grant) result" where
  "active_grant_new g now =
     rbind (ensure (grant_live_at g (as_secs (r_wall now))) ''grant expired'') (\<lambda>_.
     rbind (map_err (\<lambda>_. ''grant lease invalid'')
             (lease_new (as_secs (r_wall now)) (g_expires_at (vg_payload g)) now)) (\<lambda>validity.
     Inr \<lparr>ag_grant = g, ag_validity = validity\<rparr>))"

definition active_live_at :: "active_grant \<Rightarrow> reading \<Rightarrow> bool" where
  "active_live_at a now \<longleftrightarrow>
     grant_live_at (ag_grant a) (as_secs (r_wall now)) \<and> valid_at (ag_validity a) now"

definition active_live :: "active_grant \<Rightarrow> clock \<Rightarrow> bool" where
  "active_live a clk = (case clk of Inl _ \<Rightarrow> False | Inr now \<Rightarrow> active_live_at a now)"

section \<open>The transaction's segments\<close>

text \<open>The lease a state owns; dropping the state drops it and releases its reservation.\<close>

fun held :: "authz_state \<Rightarrow> grant_lease option" where
  "held (Authorizing l) = l"
| "held (Granted l) = Some l"
| "held (Renewing l) = Some l"
| "held _ = None"

definition drop_state :: "bytes set \<Rightarrow> authz_state \<Rightarrow> bytes set" where
  "drop_state active st =
     (case held st of None \<Rightarrow> active | Some l \<Rightarrow> slot_release active (gl_slot l))"

definition authz_begin :: "conn_authz \<Rightarrow> conn_authz \<times> (string, unit) result" where
  "authz_begin a =
     (case ca_state a of
        Pending \<Rightarrow> (a\<lparr>ca_state := Authorizing None\<rparr>, Inr ())
      | Open \<Rightarrow> (a, Inl ''agent does not require grants'')
      | Closed \<Rightarrow> (a, Inl ''connection closed'')
      | _ \<Rightarrow> (a, Inl ''already authorizing or authorized''))"

definition install ::
  "bool \<Rightarrow> revocation_policy \<Rightarrow> clock \<Rightarrow> revocation_policy \<Rightarrow> clock \<Rightarrow> verified_grant \<Rightarrow>
     bytes set \<times> conn_authz \<Rightarrow> (bytes set \<times> conn_authz) \<times> (string, unit) result" where
  "install closed deny1 clk1 deny2 clk2 verified s =
     (case s of (active, a) \<Rightarrow>
       attempt s (ensure (ca_state a = Authorizing None \<and> \<not> closed) ''authorization interrupted'') (\<lambda>_.
       attempt s (ensure (fresh deny1 clk1) ''revocation policy unavailable or stale'') (\<lambda>_.
       attempt s (ensure (\<not> contains deny2 (vg_id verified)) ''grant revoked'') (\<lambda>_.
       attempt s (ensure (g_audience (vg_payload verified) = ca_audience a) ''grant destination mismatch'') (\<lambda>_.
       attempt s (map_err (\<lambda>_. ''grant clock unavailable'') clk2) (\<lambda>now.
       case slot_claim active (vg_id verified) of
         (active1, Inl e) \<Rightarrow> ((active1, a), Inl e)
       | (active1, Inr slot) \<Rightarrow>
           (case active_grant_new verified now of
              Inl e \<Rightarrow> ((slot_release active1 slot, a), Inl e)
            | Inr current \<Rightarrow>
                ((active1, a\<lparr>ca_state := Authorizing (Some
                    \<lparr>gl_current = current, gl_updates = current, gl_slot = slot\<rparr>)\<rparr>), Inr ()))))))))"

definition authz_commit ::
  "bool \<Rightarrow> revocation_policy \<Rightarrow> clock \<Rightarrow> clock \<Rightarrow>
     bytes set \<times> conn_authz \<Rightarrow> (bytes set \<times> conn_authz) \<times> (string, unit) result" where
  "authz_commit closed deny clk1 clk2 s =
     (case s of (active, a) \<Rightarrow>
       let refused = ((drop_state active (ca_state a), a\<lparr>ca_state := Closed\<rparr>),
                      Inl ''authorization interrupted'') in
       (case ca_state a of
          Authorizing (Some lease) \<Rightarrow>
            if \<not> closed \<and> active_live (gl_current lease) clk1
               \<and> revocations_permit deny (vg_id (ag_grant (gl_current lease))) clk2
            then ((active, a\<lparr>ca_state := Granted lease\<rparr>), Inr ())
            else refused
        | _ \<Rightarrow> refused))"

definition begin_renewal :: "conn_authz \<Rightarrow> conn_authz \<times> (string, unit) result" where
  "begin_renewal a =
     (case ca_state a of
        Granted lease \<Rightarrow> (a\<lparr>ca_state := Renewing lease\<rparr>, Inr ())
      | _ \<Rightarrow> (a, Inl ''renewal requires a granted idle authorization transaction''))"

definition prepare_renewal ::
  "verified_grant \<Rightarrow> clock \<Rightarrow> conn_authz \<Rightarrow> (string, active_grant) result" where
  "prepare_renewal nxt clk a =
     (case ca_state a of
        Renewing lease \<Rightarrow>
          rbind (map_err (\<lambda>_. ''grant clock unavailable'') clk) (\<lambda>now.
          rbind (ensure (active_live_at (gl_current lease) now) ''previous grant expired'') (\<lambda>_.
          rbind (map_err (\<lambda>_. ''invalid grant renewal'')
                  (permits_renewal (ag_grant (gl_current lease)) nxt)) (\<lambda>advance.
          if advance then active_grant_new nxt now else Inr (gl_current lease))))
      | _ \<Rightarrow> Inl ''renewal interrupted'')"

definition commit_renewal ::
  "active_grant \<Rightarrow> bool \<Rightarrow> bool \<Rightarrow> revocation_policy \<Rightarrow> clock \<Rightarrow> clock \<Rightarrow> clock \<Rightarrow>
     bytes set \<times> conn_authz \<Rightarrow> (bytes set \<times> conn_authz) \<times> (string, unit) result" where
  "commit_renewal nxt closed closed_after deny clk1 clk2 clk3 s =
     (case s of (active, a) \<Rightarrow>
       let refused = ((drop_state active (ca_state a), a\<lparr>ca_state := Closed\<rparr>), Inl ''renewal interrupted'') in
       (case ca_state a of
          Renewing lease \<Rightarrow>
            if \<not> closed \<and> active_live (gl_current lease) clk1 \<and> active_live nxt clk2
               \<and> revocations_permit deny (vg_id (ag_grant nxt)) clk3
            then
              let lease1 = lease\<lparr>gl_updates := nxt\<rparr> in
              if closed_after then refused
              else ((active, a\<lparr>ca_state := Granted (lease1\<lparr>gl_current := nxt\<rparr>)\<rparr>), Inr ())
            else refused
        | _ \<Rightarrow> refused))"

text \<open>
  \<open>close\<close>, and \<open>close_and_wait\<close> up to the join of the watchdog. The code replaces the state
  under its lock and drops the previous one, with its reservation, right after it let go of that
  lock. Both are one step here: in between, the only operation that can see the difference is a
  \<open>claim\<close> of the same id by another connection, which is refused as in use, as it would have been
  had it come before the close.
\<close>

definition authz_close :: "bytes set \<times> conn_authz \<Rightarrow> bytes set \<times> conn_authz" where
  "authz_close s =
     (case s of (active, a) \<Rightarrow> (drop_state active (ca_state a), a\<lparr>ca_state := Closed\<rparr>))"

section \<open>Scope queries and service slots\<close>

datatype scope_error =
    ScopePending
  | ScopeAuthorizing
  | ScopeAuthorizationTimeout
  | ScopeClosed
  | ScopeExpired
  | ScopeRevoked
  | ScopePolicyStale

primrec scope_message :: "scope_error \<Rightarrow> string" where
  "scope_message ScopePending = ''grant required: send Authz first''"
| "scope_message ScopeAuthorizing = ''authorization in progress''"
| "scope_message ScopeAuthorizationTimeout = ''authorization completion timed out''"
| "scope_message ScopeClosed = ''connection closed''"
| "scope_message ScopeExpired = ''grant expired''"
| "scope_message ScopeRevoked = ''grant revoked''"
| "scope_message ScopePolicyStale = ''revocation policy unavailable or stale''"

definition scope_terminal :: "scope_error \<Rightarrow> bool" where
  "scope_terminal e \<longleftrightarrow> \<not> (e = ScopePending \<or> e = ScopeAuthorizing)"

definition authz_scope ::
  "revocation_policy \<Rightarrow> clock \<Rightarrow> clock \<Rightarrow> conn_authz \<Rightarrow> (scope_error, verified_grant option) result" where
  "authz_scope deny clk1 clk2 a =
     (let query = (\<lambda>lease.
            rbind (ensure (active_live (gl_current lease) clk1) ScopeExpired) (\<lambda>_.
            rbind (ensure (fresh deny clk2) ScopePolicyStale) (\<lambda>_.
            rbind (ensure (\<not> contains deny (vg_id (ag_grant (gl_current lease)))) ScopeRevoked) (\<lambda>_.
            Inr (Some (ag_grant (gl_current lease)))))))
      in case ca_state a of
           Open \<Rightarrow> Inr None
         | Pending \<Rightarrow> Inl ScopePending
         | Authorizing _ \<Rightarrow> Inl ScopeAuthorizing
         | Closed \<Rightarrow> Inl ScopeClosed
         | Granted lease \<Rightarrow> query lease
         | Renewing lease \<Rightarrow> query lease)"

text \<open>
  \<open>service_scope\<close> on the values it finds each time the change notification wakes it, up to the
  deadline; \<open>None\<close> is a notification channel that was closed.
\<close>

fun service_scope ::
  "(revocation_policy \<times> clock \<times> clock \<times> conn_authz) option list \<Rightarrow>
     (scope_error, verified_grant option) result" where
  "service_scope [] = Inl ScopeAuthorizationTimeout"
| "service_scope (None # rest) = Inl ScopeClosed"
| "service_scope (Some (deny, clk1, clk2, a) # rest) =
     (case authz_scope deny clk1 clk2 a of
        Inl ScopeAuthorizing \<Rightarrow> service_scope rest
      | result \<Rightarrow> result)"

definition try_service_slot :: "conn_authz \<Rightarrow> conn_authz option" where
  "try_service_slot a =
     (if ca_service_slots a = 0 then None
      else Some (a\<lparr>ca_service_slots := ca_service_slots a - 1\<rparr>))"

definition drop_service_slot :: "conn_authz \<Rightarrow> conn_authz" where
  "drop_service_slot a = a\<lparr>ca_service_slots := ca_service_slots a + 1\<rparr>"

definition try_sync_slot :: "conn_authz \<Rightarrow> conn_authz \<times> bool" where
  "try_sync_slot a = (a\<lparr>ca_sync_busy := True\<rparr>, \<not> ca_sync_busy a)"

definition drop_sync_slot :: "conn_authz \<Rightarrow> conn_authz" where
  "drop_sync_slot a = a\<lparr>ca_sync_busy := False\<rparr>"

section \<open>The authorize transaction\<close>

text \<open>The checks on the presented grant: verification, then the deployment binding.\<close>

definition authorize_checks ::
  "crypto \<Rightarrow> grant_codecs \<Rightarrow> agent_policy \<Rightarrow> grant \<Rightarrow> bytes \<Rightarrow> bytes \<Rightarrow> u64 \<Rightarrow> (grant_error, verified_grant) result" where
  "authorize_checks cr gc pol g remote audience now =
     rbind (grant_verify cr gc g (ap_issuers pol) remote audience (ap_grant_max_ttl pol) now) (\<lambda>verified.
     rbind (case ap_tenant pol of
              None \<Rightarrow> Inr ()
            | Some tenant \<Rightarrow> ensure (g_tenant (vg_payload verified) = Some tenant) TenantMismatch) (\<lambda>_.
     rbind (case ap_min_policy_revision pol of
              None \<Rightarrow> Inr ()
            | Some least \<Rightarrow>
                ensure (\<not> (case g_policy_revision (vg_payload verified) of None \<Rightarrow> True | Some r \<Rightarrow> r < least))
                  PolicyRevisionStale) (\<lambda>_.
     Inr verified)))"

text \<open>
  Where an authorize task stands after its transaction began: before the checks, while the reply
  is being written (with the prepared grant of a renewal), before the stream is finished, and
  ended. \<open>Admission\<close> lives from the first to the last of these.
\<close>

datatype authz_task =
    Verifying grant bool
  | Replying "active_grant option"
  | Finishing
  | Ended

text \<open>What one segment reads and how its input and output goes.\<close>

record authz_env =
  te_closed :: bool
  te_closed_after :: bool
  te_deny1 :: revocation_policy
  te_deny2 :: revocation_policy
  te_clock1 :: clock
  te_clock2 :: clock
  te_clock3 :: clock
  te_now :: u64
  te_written :: bool

text \<open>Dropping an uncommitted \<open>Admission\<close>: the authorization closes, and the connection does.\<close>

definition admission_drop ::
  "bytes set \<times> conn_authz \<Rightarrow> (bytes set \<times> conn_authz) \<times> authz_task \<times> bool" where
  "admission_drop s = (authz_close s, Ended, True)"

definition or_drop ::
  "(bytes set \<times> conn_authz) \<times> (string, unit) result \<Rightarrow> authz_task \<Rightarrow>
     (bytes set \<times> conn_authz) \<times> authz_task \<times> bool" where
  "or_drop m t =
     (case m of (s, Inl _) \<Rightarrow> admission_drop s | (s, Inr _) \<Rightarrow> (s, t, False))"

text \<open>
  One segment of \<open>authorize\<close> after its begin; the flag says that it closed the connection. A
  reply that is not written in time, or whose task is cancelled, is \<open>te_written\<close> false.
\<close>

fun authorize_turn ::
  "crypto \<Rightarrow> grant_codecs \<Rightarrow> agent_policy \<Rightarrow> bytes \<Rightarrow> authz_env \<Rightarrow> authz_task \<Rightarrow>
     bytes set \<times> conn_authz \<Rightarrow> (bytes set \<times> conn_authz) \<times> authz_task \<times> bool" where
  "authorize_turn cr gc pol remote env (Verifying g renewal) s =
     (case authorize_checks cr gc pol g remote (ca_audience (snd s)) (te_now env) of
        Inl _ \<Rightarrow> admission_drop s
      | Inr verified \<Rightarrow>
          if renewal then
            (case prepare_renewal verified (te_clock1 env) (snd s) of
               Inl _ \<Rightarrow> admission_drop s
             | Inr nxt \<Rightarrow> (s, Replying (Some nxt), False))
          else
            or_drop (install (te_closed env) (te_deny1 env) (te_clock1 env) (te_deny2 env)
                       (te_clock2 env) verified s) (Replying None))"
| "authorize_turn cr gc pol remote env (Replying prepared) s =
     (if \<not> te_written env then admission_drop s
      else case prepared of
             Some nxt \<Rightarrow>
               or_drop (commit_renewal nxt (te_closed env) (te_closed_after env) (te_deny1 env)
                          (te_clock1 env) (te_clock2 env) (te_clock3 env) s) Finishing
           | None \<Rightarrow>
               or_drop (authz_commit (te_closed env) (te_deny1 env) (te_clock1 env) (te_clock2 env) s)
                 Finishing)"
| "authorize_turn cr gc pol remote env Finishing s =
     (if \<not> te_written env then admission_drop s else (s, Ended, False))"
| "authorize_turn cr gc pol remote env Ended s = (s, Ended, False)"

definition authorize_begin :: "bool \<Rightarrow> conn_authz \<Rightarrow> conn_authz \<times> (string, unit) result" where
  "authorize_begin renewal a = (if renewal then begin_renewal a else authz_begin a)"

section \<open>The watchdog\<close>

datatype watch_action = WatchClose nat string | WatchWait duration

text \<open>One turn of \<open>watch_grant\<close>; \<open>None\<close> is the panic of \<open>remaining_at\<close>.\<close>

definition watch_turn ::
  "revocation_policy \<Rightarrow> clock \<Rightarrow> clock \<Rightarrow> active_grant \<Rightarrow> watch_action option" where
  "watch_turn snapshot clk1 clk2 active =
     (if \<not> fresh snapshot clk1 then Some (WatchClose 4 ''revocation policy stale'')
      else if contains snapshot (vg_id (ag_grant active)) then Some (WatchClose 4 ''grant revoked'')
      else
        (case clk2 of
           Inl _ \<Rightarrow> Some (WatchClose 3 ''grant clock unavailable'')
         | Inr now \<Rightarrow>
             if \<not> active_live_at active now then Some (WatchClose 3 ''grant expired'')
             else map_option (\<lambda>d. WatchWait (min d (from_secs 1))) (remaining_at (ag_validity active) now)))"

text \<open>What ends the wait: the connection closed, the wait elapsed, or one of the channels moved or closed.\<close>

datatype watch_wake = WokeClosed | WokeSlept | WokeCurrent bool | WokeDenied bool

fun watch_grant ::
  "(revocation_policy \<times> clock \<times> clock \<times> active_grant \<times> watch_wake) list \<Rightarrow> (nat \<times> string) option" where
  "watch_grant [] = None"
| "watch_grant ((snapshot, clk1, clk2, active, woke) # rest) =
     (case watch_turn snapshot clk1 clk2 active of
        None \<Rightarrow> None
      | Some (WatchClose code why) \<Rightarrow> Some (code, why)
      | Some (WatchWait d) \<Rightarrow>
          (case woke of
             WokeClosed \<Rightarrow> None
           | WokeSlept \<Rightarrow> watch_grant rest
           | WokeCurrent ok \<Rightarrow> if ok then watch_grant rest else Some (3, ''grant owner unavailable'')
           | WokeDenied ok \<Rightarrow> if ok then watch_grant rest else Some (4, ''revocation policy unavailable'')))"

section \<open>What a segment can do\<close>

lemma slot_claim_Inr_iff:
  "slot_claim active i = (active1, Inr j) \<longleftrightarrow> i \<notin> active \<and> active1 = insert i active \<and> j = i"
  by (auto simp: slot_claim_def)

lemma active_grant_new_Inr_iff:
  "active_grant_new g now = Inr ag \<longleftrightarrow>
     grant_live_at g (as_secs (r_wall now)) \<and> ag_grant ag = g \<and>
     lease_new (as_secs (r_wall now)) (g_expires_at (vg_payload g)) now = Inr (ag_validity ag)"
  by (cases ag) (auto simp: active_grant_new_def res_simps)

lemma active_grant_new_live: "active_grant_new g now = Inr ag \<Longrightarrow> active_live_at ag now"
  by (auto simp: active_grant_new_Inr_iff active_live_at_def intro: lease_new_valid)

text \<open>A refused install changes nothing: a claimed slot was released again.\<close>

lemma install_Inl: "install closed d1 c1 d2 c2 v s = (s1, Inl e) \<Longrightarrow> s1 = s"
  by (cases s; cases c2; cases "active_grant_new v (projr c2)")
    (auto simp: install_def attempt_eq_iff slot_claim_def slot_release_def res_simps split: if_splits)

lemma install_Inr_iff:
  "install closed d1 c1 d2 c2 v (active, a) = (s1, Inr ()) \<longleftrightarrow>
     ca_state a = Authorizing None \<and> \<not> closed \<and> fresh d1 c1 \<and> \<not> contains d2 (vg_id v) \<and>
     g_audience (vg_payload v) = ca_audience a \<and> vg_id v \<notin> active \<and>
     (\<exists>now cur. c2 = Inr now \<and> active_grant_new v now = Inr cur \<and>
        s1 = (insert (vg_id v) active, a\<lparr>ca_state := Authorizing (Some
               \<lparr>gl_current = cur, gl_updates = cur, gl_slot = vg_id v\<rparr>)\<rparr>))"
  by (cases c2; cases "active_grant_new v (projr c2)")
    (auto simp: install_def attempt_eq_iff slot_claim_def res_simps split: if_splits)

lemma authz_close_simp: "authz_close (active, a) = (drop_state active (ca_state a), a\<lparr>ca_state := Closed\<rparr>)"
  by (simp add: authz_close_def)

lemma authz_close_idem [simp]: "authz_close (authz_close s) = authz_close s"
  by (cases s) (simp add: authz_close_simp drop_state_def)

lemma authz_commit_Inl: "authz_commit closed d c1 c2 s = (s1, Inl e) \<Longrightarrow> s1 = authz_close s"
  by (cases s) (auto simp: authz_commit_def authz_close_simp Let_def split: authz_state.splits option.splits if_splits)

lemma authz_commit_Inr_iff:
  "authz_commit closed d c1 c2 (active, a) = (s1, Inr ()) \<longleftrightarrow>
     (\<exists>l. ca_state a = Authorizing (Some l) \<and> \<not> closed \<and> active_live (gl_current l) c1 \<and>
        revocations_permit d (vg_id (ag_grant (gl_current l))) c2 \<and>
        s1 = (active, a\<lparr>ca_state := Granted l\<rparr>))"
  by (auto simp: authz_commit_def Let_def split: authz_state.splits option.splits if_splits)

lemma commit_renewal_Inl:
  "commit_renewal n closed closed1 d c1 c2 c3 s = (s1, Inl e) \<Longrightarrow> s1 = authz_close s"
  by (cases s) (auto simp: commit_renewal_def authz_close_simp Let_def split: authz_state.splits option.splits if_splits)

lemma commit_renewal_Inr_iff:
  "commit_renewal n closed closed1 d c1 c2 c3 (active, a) = (s1, Inr ()) \<longleftrightarrow>
     (\<exists>l. ca_state a = Renewing l \<and> \<not> closed \<and> \<not> closed1 \<and> active_live (gl_current l) c1 \<and>
        active_live n c2 \<and> revocations_permit d (vg_id (ag_grant n)) c3 \<and>
        s1 = (active, a\<lparr>ca_state := Granted (l\<lparr>gl_updates := n, gl_current := n\<rparr>)\<rparr>))"
  by (auto simp: commit_renewal_def Let_def split: authz_state.splits option.splits if_splits)

lemma prepare_renewal_Inr_iff:
  "prepare_renewal v clk a = Inr n \<longleftrightarrow>
     (\<exists>l now. ca_state a = Renewing l \<and> clk = Inr now \<and> active_live_at (gl_current l) now \<and>
        (permits_renewal (ag_grant (gl_current l)) v = Inr True \<and> active_grant_new v now = Inr n \<or>
         permits_renewal (ag_grant (gl_current l)) v = Inr False \<and> n = gl_current l))"
  by (auto simp: prepare_renewal_def res_simps split: authz_state.splits if_splits)

lemma or_drop_cases:
  assumes "or_drop m t = (s1, t1, closes)"
  obtains (ok) "m = (s1, Inr ())" "t1 = t" "\<not> closes"
  | (dropped) s e where "m = (s, Inl e)" "s1 = authz_close s" "t1 = Ended" "closes"
  using assms by (auto simp: or_drop_def admission_drop_def split: prod.splits sum.splits)

lemma authorize_turn_cases:
  assumes "authorize_turn cr gc pol remote env t (active, a) = ((active1, a1), t1, closes)"
  obtains (closed) "(active1, a1) = authz_close (active, a)" "t1 = Ended" "closes"
  | (ended) "active1 = active" "a1 = a" "t = Finishing \<or> t = Ended" "t1 = Ended" "\<not> closes"
  | (prepared) g v n where "t = Verifying g True" "active1 = active" "a1 = a" "t1 = Replying (Some n)" "\<not> closes"
      "authorize_checks cr gc pol g remote (ca_audience a) (te_now env) = Inr v"
      "prepare_renewal v (te_clock1 env) a = Inr n"
  | (installed) g v where "t = Verifying g False" "t1 = Replying None" "\<not> closes"
      "authorize_checks cr gc pol g remote (ca_audience a) (te_now env) = Inr v"
      "install (te_closed env) (te_deny1 env) (te_clock1 env) (te_deny2 env) (te_clock2 env) v (active, a)
         = ((active1, a1), Inr ())"
  | (committed) "t = Replying None" "t1 = Finishing" "\<not> closes" "te_written env"
      "authz_commit (te_closed env) (te_deny1 env) (te_clock1 env) (te_clock2 env) (active, a) = ((active1, a1), Inr ())"
  | (renewed) n where "t = Replying (Some n)" "t1 = Finishing" "\<not> closes" "te_written env"
      "commit_renewal n (te_closed env) (te_closed_after env) (te_deny1 env) (te_clock1 env) (te_clock2 env)
         (te_clock3 env) (active, a) = ((active1, a1), Inr ())"
proof (cases t)
  case (Verifying g renewal)
  then show ?thesis
    using assms closed prepared installed
    by (cases renewal)
      (auto simp: admission_drop_def dest!: install_Inl elim!: or_drop_cases split: sum.splits)
next
  case (Replying prep)
  then show ?thesis
    using assms closed committed renewed
    by (cases prep)
      (auto simp: admission_drop_def dest!: authz_commit_Inl commit_renewal_Inl elim!: or_drop_cases split: if_splits)
next
  case Finishing
  then show ?thesis using assms closed ended by (auto simp: admission_drop_def split: if_splits)
next
  case Ended
  then show ?thesis using assms ended by auto
qed

end
