(* ===== verification/Rds_Agent_Sessions.thy ===== *)
theory Rds_Agent_Sessions
  imports Rds_Agent_Authz
begin

text \<open>
  The agent's connections together: authorize tasks of any number of connections interleaved over
  the shared set of active grants, with peers, watchdogs, cancellations and denylist updates acting
  at any moment. The lemmas show what holds of every reachable state: a held grant was verified
  for its connection, reservations are exclusive and never leak, and renewal only extends.
\<close>

section \<open>Connections and steps\<close>

record agent_conn =
  ac_remote :: bytes
  ac_closed :: bool
  ac_authz :: conn_authz
  ac_tasks :: "authz_task list"

record agent_state =
  as_policy :: agent_policy
  as_conns :: "nat \<Rightarrow> agent_conn option"

definition set_active :: "bytes set \<Rightarrow> agent_state \<Rightarrow> agent_state" where
  "set_active active s = s\<lparr>as_policy := (as_policy s)\<lparr>ap_active_grants := active\<rparr>\<rparr>"

definition set_conn :: "nat \<Rightarrow> agent_conn \<Rightarrow> agent_state \<Rightarrow> agent_state" where
  "set_conn i c s = s\<lparr>as_conns := (as_conns s)(i \<mapsto> c)\<rparr>"

text \<open>The start of \<open>serve_connection\<close> for a peer of the allowlist.\<close>

definition admit_conn :: "agent_policy \<Rightarrow> bytes \<Rightarrow> usize \<Rightarrow> bytes \<Rightarrow> agent_conn option" where
  "admit_conn pol audience streams peer =
     (if peer \<notin> ap_allow pol then None
      else Some \<lparr>ac_remote = peer, ac_closed = False,
                 ac_authz = conn_authz_new (grants_required pol) audience streams, ac_tasks = []\<rparr>)"

text \<open>One segment of the \<open>k\<close>-th authorize task of connection \<open>i\<close>.\<close>

definition conn_turn ::
  "crypto \<Rightarrow> grant_codecs \<Rightarrow> authz_env \<Rightarrow> nat \<Rightarrow> agent_policy \<Rightarrow> agent_conn \<Rightarrow> bytes set \<times> agent_conn" where
  "conn_turn cr gc env k pol c =
     (case authorize_turn cr gc pol (ac_remote c) env (ac_tasks c ! k) (ap_active_grants pol, ac_authz c) of
        ((active, a), t, closes) \<Rightarrow>
          (active, c\<lparr>ac_authz := a, ac_tasks := (ac_tasks c)[k := t], ac_closed := ac_closed c \<or> closes\<rparr>))"

inductive agent_step :: "crypto \<Rightarrow> grant_codecs \<Rightarrow> bytes \<Rightarrow> agent_state \<Rightarrow> agent_state \<Rightarrow> bool"
  for cr gc audience where
  step_accept:
    "as_conns s i = None \<Longrightarrow> admit_conn (as_policy s) audience streams peer = Some c \<Longrightarrow>
       agent_step cr gc audience s (set_conn i c s)"
| step_begin:
    "as_conns s i = Some c \<Longrightarrow> authorize_begin renewal (ac_authz c) = (a, Inr ()) \<Longrightarrow>
       agent_step cr gc audience s
         (set_conn i (c\<lparr>ac_authz := a, ac_tasks := ac_tasks c @ [Verifying g renewal]\<rparr>) s)"
| step_turn:
    "as_conns s i = Some c \<Longrightarrow> k < length (ac_tasks c) \<Longrightarrow>
       conn_turn cr gc env k (as_policy s) c = (active, c1) \<Longrightarrow>
       agent_step cr gc audience s (set_active active (set_conn i c1 s))"
| step_closed:
    "as_conns s i = Some c \<Longrightarrow>
       agent_step cr gc audience s (set_conn i (c\<lparr>ac_closed := True\<rparr>) s)"
| step_teardown:
    "as_conns s i = Some c \<Longrightarrow>
       authz_close (ap_active_grants (as_policy s), ac_authz c) = (active, a) \<Longrightarrow>
       agent_step cr gc audience s
         (set_active active (set_conn i (c\<lparr>ac_authz := a, ac_closed := True\<rparr>) s))"
| step_slots:
    "as_conns s i = Some c \<Longrightarrow> ca_state a = ca_state (ac_authz c) \<Longrightarrow>
       ca_audience a = ca_audience (ac_authz c) \<Longrightarrow>
       agent_step cr gc audience s (set_conn i (c\<lparr>ac_authz := a\<rparr>) s)"
| step_denylist:
    "agent_step cr gc audience s
       (s\<lparr>as_policy := (as_policy s)\<lparr>ap_denylist := deny\<rparr>\<rparr>)"

definition agent_init :: "agent_policy \<Rightarrow> agent_state \<Rightarrow> bool" where
  "agent_init pol s \<longleftrightarrow>
     as_policy s = pol \<and> ap_active_grants pol = {} \<and> as_conns s = (\<lambda>_. None)"

section \<open>What a connection holds\<close>

text \<open>A grant that passed the checks for this peer and this device.\<close>

definition authorized_for ::
  "crypto \<Rightarrow> grant_codecs \<Rightarrow> agent_policy \<Rightarrow> bytes \<Rightarrow> bytes \<Rightarrow> active_grant \<Rightarrow> bool" where
  "authorized_for cr gc pol remote audience ag \<longleftrightarrow>
     (\<exists>g t. authorize_checks cr gc pol g remote audience t = Inr (ag_grant ag)) \<and>
     (\<exists>now. active_grant_new (ag_grant ag) now = Inr ag)"

definition lease_ok ::
  "crypto \<Rightarrow> grant_codecs \<Rightarrow> agent_policy \<Rightarrow> bytes \<Rightarrow> bytes \<Rightarrow> grant_lease \<Rightarrow> bool" where
  "lease_ok cr gc pol remote audience l \<longleftrightarrow>
     authorized_for cr gc pol remote audience (gl_current l) \<and>
     gl_updates l = gl_current l \<and> gl_slot l = vg_id (ag_grant (gl_current l))"

text \<open>The grant after a renewal: the same one, or one of a later revision with the same id and scope.\<close>

definition renews :: "active_grant \<Rightarrow> active_grant \<Rightarrow> bool" where
  "renews old new \<longleftrightarrow> new = old \<or> permits_renewal (ag_grant old) (ag_grant new) = Inr True"

text \<open>The tasks whose transaction is open, and the state that goes with them.\<close>

fun is_open :: "authz_task \<Rightarrow> bool" where
  "is_open (Verifying g r) = True"
| "is_open (Replying n) = True"
| "is_open _ = False"

fun tasks_ok ::
  "crypto \<Rightarrow> grant_codecs \<Rightarrow> agent_policy \<Rightarrow> bytes \<Rightarrow> bytes \<Rightarrow> authz_state \<Rightarrow> authz_task list \<Rightarrow> bool" where
  "tasks_ok cr gc pol remote audience (Authorizing None) ts = (\<exists>g. ts = [Verifying g False])"
| "tasks_ok cr gc pol remote audience (Authorizing (Some l)) ts = (ts = [Replying None])"
| "tasks_ok cr gc pol remote audience (Renewing l) ts =
     ((\<exists>g. ts = [Verifying g True]) \<or>
      (\<exists>n. ts = [Replying (Some n)] \<and> authorized_for cr gc pol remote audience n \<and> renews (gl_current l) n))"
| "tasks_ok cr gc pol remote audience Closed ts = True"
| "tasks_ok cr gc pol remote audience _ ts = (ts = [])"

definition conn_inv :: "crypto \<Rightarrow> grant_codecs \<Rightarrow> bytes \<Rightarrow> agent_policy \<Rightarrow> agent_conn \<Rightarrow> bool" where
  "conn_inv cr gc audience pol c \<longleftrightarrow>
     ac_remote c \<in> ap_allow pol \<and> ca_audience (ac_authz c) = audience \<and>
     (grants_required pol \<longrightarrow> ca_state (ac_authz c) \<noteq> Open) \<and>
     (\<forall>l. held (ca_state (ac_authz c)) = Some l \<longrightarrow> lease_ok cr gc pol (ac_remote c) audience l) \<and>
     tasks_ok cr gc pol (ac_remote c) audience (ca_state (ac_authz c)) (filter is_open (ac_tasks c))"

text \<open>The reservations: the set of active ids is exactly what the connections hold, each by one of them.\<close>

definition slot_of :: "agent_state \<Rightarrow> nat \<Rightarrow> bytes option" where
  "slot_of s i = Option.bind (as_conns s i) (\<lambda>c. map_option gl_slot (held (ca_state (ac_authz c))))"

definition slots_ok :: "bytes set \<Rightarrow> (nat \<Rightarrow> bytes option) \<Rightarrow> bool" where
  "slots_ok active slots \<longleftrightarrow>
     active = ran slots \<and> (\<forall>i j x. slots i = Some x \<longrightarrow> slots j = Some x \<longrightarrow> i = j)"

definition agent_inv :: "crypto \<Rightarrow> grant_codecs \<Rightarrow> bytes \<Rightarrow> agent_state \<Rightarrow> bool" where
  "agent_inv cr gc audience s \<longleftrightarrow>
     (\<forall>i c. as_conns s i = Some c \<longrightarrow> conn_inv cr gc audience (as_policy s) c) \<and>
     slots_ok (ap_active_grants (as_policy s)) (slot_of s)"

section \<open>The reservations\<close>

abbreviation slot_held :: "conn_authz \<Rightarrow> bytes option" where
  "slot_held a \<equiv> map_option gl_slot (held (ca_state a))"

text \<open>A connection keeps what it holds, gives it up, or takes an id that nobody holds.\<close>

definition slot_move :: "bytes set \<Rightarrow> bytes option \<Rightarrow> bytes set \<Rightarrow> bytes option \<Rightarrow> bool" where
  "slot_move active h active1 h1 \<longleftrightarrow>
     h1 = h \<and> active1 = active \<or>
     (\<exists>x. h = Some x \<and> h1 = None \<and> active1 = active - {x}) \<or>
     (\<exists>x. h = None \<and> h1 = Some x \<and> x \<notin> active \<and> active1 = insert x active)"

lemma slot_move_ok:
  assumes ok: "slots_ok active slots" and move: "slot_move active (slots i) active1 h"
  shows "slots_ok active1 (slots(i := h))"
proof -
  have ran: "active = ran slots" and inj: "\<And>j k y. slots j = Some y \<Longrightarrow> slots k = Some y \<Longrightarrow> j = k"
    using ok unfolding slots_ok_def by blast+
  from move consider "h = slots i" "active1 = active"
    | x where "slots i = Some x" "h = None" "active1 = active - {x}"
    | x where "slots i = None" "h = Some x" "x \<notin> active" "active1 = insert x active"
    unfolding slot_move_def by blast
  then show ?thesis
  proof cases
    case 1
    then show ?thesis using ok by simp
  next
    case (2 x)
    have "y \<in> ran (slots(i := None)) \<longleftrightarrow> y \<in> ran slots - {x}" for y
      using 2(1) inj unfolding ran_def by (auto split: if_splits) (metis option.inject)+
    then have "active1 = ran (slots(i := h))" using ran 2 by blast
    then show ?thesis using inj 2(2) unfolding slots_ok_def by (metis fun_upd_apply option.distinct(1))
  next
    case (3 x)
    have "slots j \<noteq> Some x" for j using ran 3(3) by (auto simp: ran_def)
    then have "\<forall>j k y. (slots(i := h)) j = Some y \<longrightarrow> (slots(i := h)) k = Some y \<longrightarrow> j = k"
      using inj 3(2) by (metis fun_upd_apply option.inject)
    moreover have "active1 = ran (slots(i := h))" using ran 3 by simp
    ultimately show ?thesis unfolding slots_ok_def by (intro conjI)
  qed
qed

lemma close_move:
  assumes "authz_close (active, a) = (active1, a1)"
  shows "slot_move active (slot_held a) active1 (slot_held a1)"
  using assms
  by (cases "held (ca_state a)") (auto simp: authz_close_simp drop_state_def slot_release_def slot_move_def)

lemma turn_move:
  assumes "authorize_turn cr gc pol remote env t (active, a) = ((active1, a1), t1, closes)"
  shows "slot_move active (slot_held a) active1 (slot_held a1)"
  using assms
proof (cases rule: authorize_turn_cases)
  case closed
  then show ?thesis using close_move [OF closed(1) [symmetric]] by simp
qed (auto simp: slot_move_def install_Inr_iff authz_commit_Inr_iff commit_renewal_Inr_iff)

section \<open>The invariant of a connection\<close>

text \<open>Only the fixed part of the policy enters the invariant.\<close>

lemma checks_policy_upd [simp]:
  "authorize_checks cr gc (pol\<lparr>ap_active_grants := x\<rparr>) = authorize_checks cr gc pol"
  "authorize_checks cr gc (pol\<lparr>ap_denylist := d\<rparr>) = authorize_checks cr gc pol"
  by (simp_all add: fun_eq_iff authorize_checks_def)

lemma authorized_for_policy_upd [simp]:
  "authorized_for cr gc (pol\<lparr>ap_active_grants := x\<rparr>) = authorized_for cr gc pol"
  "authorized_for cr gc (pol\<lparr>ap_denylist := d\<rparr>) = authorized_for cr gc pol"
  by (simp_all add: fun_eq_iff authorized_for_def)

lemma tasks_ok_policy_upd [simp]:
  "tasks_ok cr gc (pol\<lparr>ap_active_grants := x\<rparr>) remote aud st ts = tasks_ok cr gc pol remote aud st ts"
  "tasks_ok cr gc (pol\<lparr>ap_denylist := d\<rparr>) remote aud st ts = tasks_ok cr gc pol remote aud st ts"
  by (cases "(cr, gc, pol, remote, aud, st, ts)" rule: tasks_ok.cases; simp)+

lemma conn_inv_policy_upd [simp]:
  "conn_inv cr gc aud (pol\<lparr>ap_active_grants := x\<rparr>) = conn_inv cr gc aud pol"
  "conn_inv cr gc aud (pol\<lparr>ap_denylist := d\<rparr>) = conn_inv cr gc aud pol"
  by (simp_all add: fun_eq_iff conn_inv_def lease_ok_def grants_required_def)

text \<open>In a list with one element that satisfies \<open>P\<close>, replacing that element replaces the filtered list.\<close>

lemma filter_update_single:
  assumes "k < length ts" "P (ts ! k)" "filter P ts = [x]"
  shows "ts ! k = x" and "filter P (ts[k := y]) = (if P y then [y] else [])"
proof -
  have split: "ts = take k ts @ ts ! k # drop (Suc k) ts" using assms(1) by (rule id_take_nth_drop)
  have f: "filter P (take k ts) @ ts ! k # filter P (drop (Suc k) ts) = [x]"
    using assms(2,3) split by (metis filter.simps(2) filter_append)
  then have e: "filter P (take k ts) = []" "filter P (drop (Suc k) ts) = []" "ts ! k = x"
    by (auto simp: append_eq_Cons_conv)
  then show "ts ! k = x" by simp
  have "filter P (ts[k := y]) = filter P (take k ts) @ (if P y then [y] else []) @ filter P (drop (Suc k) ts)"
    using assms(1) by (simp add: upd_conv_take_nth_drop)
  with e show "filter P (ts[k := y]) = (if P y then [y] else [])" by simp
qed

lemma filter_update_outside:
  "\<not> P (ts ! k) \<Longrightarrow> \<not> P y \<Longrightarrow> filter P (ts[k := y]) = filter P ts"
  by (induction ts arbitrary: k) (auto split: nat.splits simp: nth_Cons)

lemma authorized_forI:
  "authorize_checks cr gc pol g remote aud t = Inr v \<Longrightarrow> active_grant_new v now = Inr ag \<Longrightarrow>
     authorized_for cr gc pol remote aud ag"
  by (auto simp: authorized_for_def active_grant_new_Inr_iff)

text \<open>While a transaction is open and its state is not closed, it is the only one.\<close>

lemma tasks_ok_single:
  assumes "tasks_ok cr gc pol remote aud st (filter is_open ts)" and "st \<noteq> Closed"
    and "k < length ts" and "is_open (ts ! k)"
  shows "filter is_open ts = [ts ! k]"
proof -
  have mem: "ts ! k \<in> set (filter is_open ts)" using assms(3,4) by simp
  then have "filter is_open ts \<noteq> []" by force
  then have "\<exists>x. filter is_open ts = [x]"
    using assms(1,2) by (cases "(cr, gc, pol, remote, aud, st, filter is_open ts)" rule: tasks_ok.cases) auto
  with mem show ?thesis by (metis empty_iff list.set(1) set_ConsD)
qed

lemma renews_id: "renews old new \<Longrightarrow> vg_id (ag_grant new) = vg_id (ag_grant old)"
  by (auto simp: renews_def permits_renewal_True_iff)

lemma renews_trans: "renews a b \<Longrightarrow> renews b c \<Longrightarrow> renews a c"
  by (auto simp: renews_def intro: permits_renewal_trans)

lemma prepared_renews:
  assumes "prepare_renewal v clk a = Inr n" and "ca_state a = Renewing l"
  shows "renews (gl_current l) n"
  using assms by (auto simp: prepare_renewal_Inr_iff renews_def active_grant_new_Inr_iff)

lemma conn_turn_inv:
  assumes inv: "conn_inv cr gc aud pol c" and k: "k < length (ac_tasks c)"
    and turn: "conn_turn cr gc env k pol c = (active1, c1)"
  shows "conn_inv cr gc aud pol c1"
proof -
  let ?a = "ac_authz c" and ?ts = "ac_tasks c"
  obtain a1 t1 closes where t: "authorize_turn cr gc pol (ac_remote c) env (?ts ! k)
      (ap_active_grants pol, ?a) = ((active1, a1), t1, closes)"
    and c1: "c1 = c\<lparr>ac_authz := a1, ac_tasks := ?ts[k := t1], ac_closed := ac_closed c \<or> closes\<rparr>"
    using turn by (auto simp: conn_turn_def split: prod.splits)
  have allow: "ac_remote c \<in> ap_allow pol" and aud: "ca_audience ?a = aud" and st: "grants_required pol \<longrightarrow> ca_state ?a \<noteq> Open"
    and lo: "\<And>l. held (ca_state ?a) = Some l \<Longrightarrow> lease_ok cr gc pol (ac_remote c) aud l"
    and ts: "tasks_ok cr gc pol (ac_remote c) aud (ca_state ?a) (filter is_open ?ts)"
    using inv by (simp_all add: conn_inv_def)
  have one: "filter is_open (?ts[k := t1]) = (if is_open t1 then [t1] else [])" "filter is_open ?ts = [?ts ! k]"
    if "is_open (?ts ! k)" "ca_state ?a \<noteq> Closed"
    using filter_update_single(2) [of k ?ts is_open] k that(1) tasks_ok_single [OF ts that(2) k that(1)] by simp_all
  from t show ?thesis
  proof (cases rule: authorize_turn_cases)
    case closed
    then show ?thesis using allow aud by (simp add: c1 conn_inv_def authz_close_simp)
  next
    case ended
    then have "filter is_open (?ts[k := t1]) = filter is_open ?ts"
      by (intro filter_update_outside) auto
    then show ?thesis using ended(2) inv by (simp add: c1 conn_inv_def)
  next
    case (prepared g v n)
    then obtain l where l: "ca_state ?a = Renewing l" by (auto simp: prepare_renewal_Inr_iff)
    have "authorized_for cr gc pol (ac_remote c) aud n"
      using prepared(6,7) l lo [of l] by (auto simp: prepare_renewal_Inr_iff lease_ok_def aud intro: authorized_forI)
    then show ?thesis
      using one prepared l prepared_renews [OF prepared(7) l] allow aud st lo by (simp add: c1 conn_inv_def)
  next
    case (installed g v)
    then show ?thesis
      using one allow aud st authorized_forI [OF installed(4)]
      by (auto simp: c1 conn_inv_def install_Inr_iff lease_ok_def active_grant_new_Inr_iff)
  next
    case committed
    then show ?thesis
      using one allow aud st lo by (auto simp: c1 conn_inv_def authz_commit_Inr_iff)
  next
    case (renewed n)
    then obtain l where l: "ca_state ?a = Renewing l"
      "a1 = ?a\<lparr>ca_state := Granted (l\<lparr>gl_updates := n, gl_current := n\<rparr>)\<rparr>"
      by (auto simp: commit_renewal_Inr_iff)
    have "authorized_for cr gc pol (ac_remote c) aud n \<and> renews (gl_current l) n"
      using ts one(2) renewed(1) l(1) by simp
    then have "lease_ok cr gc pol (ac_remote c) aud (l\<lparr>gl_updates := n, gl_current := n\<rparr>)"
      using lo [of l] l(1) renews_id [of "gl_current l" n] by (simp add: lease_ok_def)
    then show ?thesis using one renewed(1,2) l allow aud st by (simp add: c1 conn_inv_def)
  qed
qed

lemma conn_inv_closed: "conn_inv cr gc aud pol (c\<lparr>ac_closed := b\<rparr>) = conn_inv cr gc aud pol c"
  by (simp add: conn_inv_def)

lemma conn_inv_slots:
  assumes "ca_state a = ca_state (ac_authz c)" and "ca_audience a = ca_audience (ac_authz c)"
  shows "conn_inv cr gc aud pol (c\<lparr>ac_authz := a\<rparr>) = conn_inv cr gc aud pol c"
  using assms by (simp add: conn_inv_def)

section \<open>The invariant of the agent\<close>

lemma begin_inv:
  assumes "conn_inv cr gc aud pol c" and "authorize_begin renewal (ac_authz c) = (a, Inr ())"
  shows "conn_inv cr gc aud pol (c\<lparr>ac_authz := a, ac_tasks := ac_tasks c @ [Verifying g renewal]\<rparr>)"
    and "slot_held a = slot_held (ac_authz c)"
  using assms
  by (auto simp: authorize_begin_def authz_begin_def begin_renewal_def conn_inv_def
      split: if_splits authz_state.splits)

lemma slot_of_set_conn:
  "slot_of (set_conn i c s) = (slot_of s)(i := slot_held (ac_authz c))"
  by (auto simp: slot_of_def set_conn_def)

lemma slot_of_policy [simp]:
  "slot_of (set_active active s) = slot_of s"
  "slot_of (s\<lparr>as_policy := pol\<rparr>) = slot_of s"
  by (auto simp: slot_of_def set_active_def)

lemma agent_invD:
  assumes "agent_inv cr gc aud s"
  shows "as_conns s i = Some c \<Longrightarrow> conn_inv cr gc aud (as_policy s) c"
    and "slots_ok (ap_active_grants (as_policy s)) (slot_of s)"
  using assms unfolding agent_inv_def by blast+

text \<open>A step of one connection: its own invariant, and a move of its reservation.\<close>

lemma agent_inv_set_conn:
  assumes inv: "agent_inv cr gc aud s" and c: "conn_inv cr gc aud (as_policy s) c1"
    and move: "slot_move (ap_active_grants (as_policy s)) (slot_of s i) active1 (slot_held (ac_authz c1))"
  shows "agent_inv cr gc aud (set_active active1 (set_conn i c1 s))"
proof -
  have "slots_ok active1 ((slot_of s)(i := slot_held (ac_authz c1)))"
    using slot_move_ok [OF agent_invD(2) [OF inv] move] .
  moreover have "conn_inv cr gc aud (as_policy s) d" if "as_conns (set_conn i c1 s) j = Some d" for j d
    using that c agent_invD(1) [OF inv] by (auto simp: set_conn_def split: if_splits)
  ultimately show ?thesis
    unfolding agent_inv_def by (simp add: set_active_def slot_of_set_conn) (simp add: set_conn_def)
qed

lemma set_active_same [simp]:
  "set_active (ap_active_grants (as_policy s)) (set_conn i c s) = set_conn i c s"
  by (simp add: set_active_def set_conn_def)

lemma agent_inv_keep:
  assumes "agent_inv cr gc aud s" and "conn_inv cr gc aud (as_policy s) c1"
    and "slot_held (ac_authz c1) = slot_of s i"
  shows "agent_inv cr gc aud (set_conn i c1 s)"
  using agent_inv_set_conn [OF assms(1,2), of i "ap_active_grants (as_policy s)"] assms(3)
  by (simp add: slot_move_def)

lemma agent_step_inv:
  assumes "agent_inv cr gc aud s" and "agent_step cr gc aud s t"
  shows "agent_inv cr gc aud t"
  using assms(2)
proof cases
  case (step_accept i streams peer c)
  then show ?thesis
    by (auto intro!: agent_inv_keep [OF assms(1)] simp: slot_of_def admit_conn_def conn_inv_def
        conn_authz_new_def split: if_splits)
next
  case (step_begin i c renewal a g)
  then show ?thesis
    using begin_inv [OF agent_invD(1) [OF assms(1) step_begin(2)] step_begin(3)]
    by (auto intro!: agent_inv_keep [OF assms(1)] simp: slot_of_def)
next
  case (step_turn i c k env active c1)
  have "slot_move (ap_active_grants (as_policy s)) (slot_held (ac_authz c)) active (slot_held (ac_authz c1))"
    using step_turn(4) turn_move by (auto simp: conn_turn_def split: prod.splits)
  then show ?thesis
    using step_turn conn_turn_inv [OF agent_invD(1) [OF assms(1) step_turn(2)]]
    by (auto intro!: agent_inv_set_conn [OF assms(1)] simp: slot_of_def)
next
  case (step_closed i c)
  then show ?thesis
    using agent_invD(1) [OF assms(1) step_closed(2)]
    by (auto intro!: agent_inv_keep [OF assms(1)] simp: slot_of_def conn_inv_closed)
next
  case (step_teardown i c active a)
  have "conn_inv cr gc aud (as_policy s) (c\<lparr>ac_authz := a, ac_closed := True\<rparr>)"
    using agent_invD(1) [OF assms(1) step_teardown(2)] step_teardown(3)
    by (auto simp: conn_inv_def authz_close_simp)
  then show ?thesis
    using step_teardown close_move [OF step_teardown(3)]
    by (auto intro!: agent_inv_set_conn [OF assms(1)] simp: slot_of_def)
next
  case (step_slots i c a)
  then show ?thesis
    using agent_invD(1) [OF assms(1) step_slots(2)]
    by (auto intro!: agent_inv_keep [OF assms(1)] simp: slot_of_def conn_inv_slots)
next
  case (step_denylist deny)
  then show ?thesis
    using assms(1) by (simp add: agent_inv_def)
qed

lemma agent_init_inv: "agent_init pol s \<Longrightarrow> agent_inv cr gc aud s"
  by (auto simp: agent_init_def agent_inv_def slots_ok_def slot_of_def ran_def)

interpretation agent_sys: inductive_invariant
  "agent_init pol" "agent_step cr gc audience" "agent_inv cr gc audience"
  for pol cr gc audience
  by unfold_locales (auto intro: agent_init_inv agent_step_inv)

text \<open>The policy's fixed part never changes.\<close>

definition same_policy :: "agent_policy \<Rightarrow> agent_policy \<Rightarrow> bool" where
  "same_policy pol pol1 \<longleftrightarrow>
     pol1 = pol\<lparr>ap_active_grants := ap_active_grants pol1, ap_denylist := ap_denylist pol1\<rparr>"

lemma agent_step_policy: "agent_step cr gc aud s t \<Longrightarrow> same_policy (as_policy s) (as_policy t)"
  by (auto simp: same_policy_def set_active_def set_conn_def elim!: agent_step.cases)

lemma same_policy_refl [simp]: "same_policy pol pol"
  by (simp add: same_policy_def)

lemma same_policy_trans: "same_policy a b \<Longrightarrow> same_policy b c \<Longrightarrow> same_policy a c"
  by (cases a; cases b; cases c) (simp add: same_policy_def)

lemma same_policyD:
  assumes "same_policy pol pol1"
  shows "authorize_checks cr gc pol1 = authorize_checks cr gc pol" and "ap_allow pol1 = ap_allow pol"
    and "grants_required pol1 = grants_required pol"
  using assms by (cases pol; cases pol1; simp add: same_policy_def fun_eq_iff authorize_checks_def grants_required_def)+

lemma reach_same_policy:
  "reach (agent_init pol) (agent_step cr gc aud) s \<Longrightarrow> same_policy pol (as_policy s)"
  by (induction rule: reach.induct) (auto simp: agent_init_def intro: agent_step_policy same_policy_trans)

section \<open>What is served\<close>

lemma authz_scope_Inr_iff:
  "authz_scope deny clk1 clk2 a = Inr r \<longleftrightarrow>
     ca_state a = Open \<and> r = None \<or>
     (\<exists>l. (ca_state a = Granted l \<or> ca_state a = Renewing l) \<and> r = Some (ag_grant (gl_current l)) \<and>
        active_live (gl_current l) clk1 \<and> fresh deny clk2 \<and>
        \<not> contains deny (vg_id (ag_grant (gl_current l))))"
  by (auto simp: authz_scope_def Let_def res_simps split: authz_state.splits)

lemma authorize_checks_Inr_iff:
  "authorize_checks cr gc pol g remote aud t = Inr v \<longleftrightarrow>
     grant_verify cr gc g (ap_issuers pol) remote aud (ap_grant_max_ttl pol) t = Inr v \<and>
     (\<forall>tenant. ap_tenant pol = Some tenant \<longrightarrow> g_tenant (vg_payload v) = Some tenant) \<and>
     (\<forall>least. ap_min_policy_revision pol = Some least \<longrightarrow>
        (\<exists>r. g_policy_revision (vg_payload v) = Some r \<and> least \<le> r))"
  by (auto simp: authorize_checks_def res_simps not_less split: option.splits)

lemma held_scope:
  assumes "authz_scope deny clk1 clk2 a = Inr (Some v)"
  shows "\<exists>l. held (ca_state a) = Some l \<and> v = ag_grant (gl_current l)"
  using assms by (auto simp: authz_scope_Inr_iff)

text \<open>
  C2. No service without authorization. In every reachable state of an agent that requires grants,
  whatever interleaving of authorizations, renewals, cancellations, teardowns and denylist updates
  led there, a scope query that lets a stream of a connection through returns a grant which: was
  verified for that connection's peer, which is on the allowlist, and for this device, under a
  trusted issuer; carries the tenant and policy revision the deployment pins; is live at the
  reading of the query; is not on the current denylist, which is itself fresh; and is used by no
  other connection.
\<close>

theorem served_scope_authorized:
  assumes reach: "reach (agent_init pol) (agent_step cr gc audience) s"
    and required: "grants_required pol" and conn: "as_conns s i = Some c"
    and scope: "authz_scope (ap_denylist (as_policy s)) clk1 clk2 (ac_authz c) = Inr r"
  shows "\<exists>v g t. r = Some v \<and> ac_remote c \<in> ap_allow pol \<and>
           grant_verify cr gc g (ap_issuers pol) (ac_remote c) audience (ap_grant_max_ttl pol) t = Inr v \<and>
           (\<forall>tenant. ap_tenant pol = Some tenant \<longrightarrow> g_tenant (vg_payload v) = Some tenant) \<and>
           (\<forall>least. ap_min_policy_revision pol = Some least \<longrightarrow>
              (\<exists>n. g_policy_revision (vg_payload v) = Some n \<and> least \<le> n)) \<and>
           (\<exists>now. clk1 = Inr now \<and> grant_live_at v (as_secs (r_wall now))) \<and>
           fresh (ap_denylist (as_policy s)) clk2 \<and> vg_id v \<notin> dl_ids (ap_denylist (as_policy s)) \<and>
           (\<forall>j d d1 d2 w. as_conns s j = Some d \<longrightarrow>
              authz_scope (ap_denylist (as_policy s)) d1 d2 (ac_authz d) = Inr (Some w) \<longrightarrow>
              vg_id w = vg_id v \<longrightarrow> j = i)"
proof -
  note inv = agent_sys.reach_inv [OF reach]
  note same = same_policyD [OF reach_same_policy [OF reach]]
  have ci: "conn_inv cr gc audience (as_policy s) c" by (rule agent_invD(1) [OF inv conn])
  have "ca_state (ac_authz c) \<noteq> Open" using ci required same(3) by (simp add: conn_inv_def)
  then obtain l where l: "held (ca_state (ac_authz c)) = Some l" "r = Some (ag_grant (gl_current l))"
    "active_live (gl_current l) clk1" "fresh (ap_denylist (as_policy s)) clk2"
    "\<not> contains (ap_denylist (as_policy s)) (vg_id (ag_grant (gl_current l)))"
    using scope by (auto simp: authz_scope_Inr_iff)
  let ?v = "ag_grant (gl_current l)"
  have slot: "gl_slot k = vg_id (ag_grant (gl_current k))"
    if "as_conns s j = Some d" "held (ca_state (ac_authz d)) = Some k" for j d k
    using agent_invD(1) [OF inv that(1)] that(2) by (simp add: conn_inv_def lease_ok_def)
  obtain g t where "authorize_checks cr gc pol g (ac_remote c) audience t = Inr ?v"
    using ci l(1) same(1) by (auto simp: conn_inv_def lease_ok_def authorized_for_def)
  moreover have "j = i" if d: "as_conns s j = Some d" "authz_scope (ap_denylist (as_policy s)) d1 d2 (ac_authz d) = Inr (Some w)"
      "vg_id w = vg_id ?v" for j d d1 d2 w
  proof -
    obtain k where k: "held (ca_state (ac_authz d)) = Some k" "w = ag_grant (gl_current k)"
      using held_scope [OF d(2)] by blast
    then have "slot_of s j = Some (vg_id ?v)" "slot_of s i = Some (vg_id ?v)"
      using d l(1) conn slot [OF d(1) k(1)] slot [OF conn l(1)] by (simp_all add: slot_of_def)
    then show ?thesis using agent_invD(2) [OF inv] unfolding slots_ok_def by blast
  qed
  moreover have "ac_remote c \<in> ap_allow pol" using ci same(2) by (simp add: conn_inv_def)
  moreover have "\<exists>now. clk1 = Inr now \<and> grant_live_at ?v (as_secs (r_wall now))"
    using l(3) by (auto simp: active_live_def active_live_at_def split: sum.splits)
  ultimately show ?thesis
    using l(2,4,5) unfolding authorize_checks_Inr_iff contains_def by blast
qed

text \<open>
  C9. Reservations are exclusive and never leak: in every reachable state the shared set of active
  grant ids is exactly the set of ids that connections hold, each held by one connection, so the
  same grant never runs two sessions, and the id of a session that failed, was cancelled or was
  torn down can be used again.
\<close>

theorem reservations_exclusive:
  assumes "reach (agent_init pol) (agent_step cr gc audience) s"
  shows "ap_active_grants (as_policy s) = ran (slot_of s) \<and>
         (\<forall>i j x. slot_of s i = Some x \<longrightarrow> slot_of s j = Some x \<longrightarrow> i = j) \<and>
         (\<forall>i c. as_conns s i = Some c \<longrightarrow> ca_state (ac_authz c) = Closed \<longrightarrow> slot_of s i = None)"
  using agent_invD(2) [OF agent_sys.reach_inv [OF assms]] unfolding slots_ok_def
  by (simp add: slot_of_def)

section \<open>Sessions over time\<close>

text \<open>How the authorization of one connection may move on.\<close>

definition follows :: "conn_authz \<Rightarrow> conn_authz \<Rightarrow> bool" where
  "follows a a1 \<longleftrightarrow>
     (ca_state a = Closed \<longrightarrow> ca_state a1 = Closed) \<and>
     (\<forall>l. held (ca_state a) = Some l \<longrightarrow>
        ca_state a1 = Closed \<or> (\<exists>l1. held (ca_state a1) = Some l1 \<and> renews (gl_current l) (gl_current l1)))"

lemma renews_refl [simp]: "renews a a"
  by (simp add: renews_def)

lemma follows_refl [simp]: "follows a a"
  by (simp add: follows_def)

lemma follows_same: "ca_state a1 = ca_state a \<Longrightarrow> follows a a1"
  by (simp add: follows_def)

lemma follows_Closed: "ca_state a1 = Closed \<Longrightarrow> follows a a1"
  by (simp add: follows_def)

lemma follows_trans:
  assumes "follows a b" and "follows b c"
  shows "follows a c"
  unfolding follows_def
proof (intro conjI allI impI)
  fix l assume l: "held (ca_state a) = Some l"
  show "ca_state c = Closed \<or> (\<exists>l1. held (ca_state c) = Some l1 \<and> renews (gl_current l) (gl_current l1))"
  proof (cases "ca_state b = Closed")
    case True
    then show ?thesis using assms(2) by (simp add: follows_def)
  next
    case False
    then obtain l1 where "held (ca_state b) = Some l1" "renews (gl_current l) (gl_current l1)"
      using assms(1) l by (auto simp: follows_def)
    then show ?thesis using assms(2) renews_trans unfolding follows_def by blast
  qed
qed (use assms in \<open>simp add: follows_def\<close>)

lemma conn_turn_follows:
  assumes inv: "conn_inv cr gc aud pol c" and k: "k < length (ac_tasks c)"
    and turn: "conn_turn cr gc env k pol c = (active1, c1)"
  shows "follows (ac_authz c) (ac_authz c1)"
proof -
  let ?a = "ac_authz c" and ?ts = "ac_tasks c"
  obtain a1 t1 closes where t: "authorize_turn cr gc pol (ac_remote c) env (?ts ! k)
      (ap_active_grants pol, ?a) = ((active1, a1), t1, closes)" and c1: "ac_authz c1 = a1"
    using turn by (auto simp: conn_turn_def split: prod.splits)
  have "follows ?a a1"
    using t
  proof (cases rule: authorize_turn_cases)
    case closed
    then show ?thesis by (intro follows_Closed) (simp add: authz_close_simp)
  next
    case (renewed n)
    then obtain l where l: "ca_state ?a = Renewing l"
      "ca_state a1 = Granted (l\<lparr>gl_updates := n, gl_current := n\<rparr>)"
      by (auto simp: commit_renewal_Inr_iff)
    have "filter is_open ?ts = [?ts ! k]"
      by (rule tasks_ok_single [OF _ _ k]) (use inv l(1) renewed(1) in \<open>auto simp: conn_inv_def\<close>)
    then have "renews (gl_current l) n"
      using inv l(1) renewed(1) by (simp add: conn_inv_def)
    then show ?thesis using l by (simp add: follows_def)
  qed (auto simp: follows_def install_Inr_iff authz_commit_Inr_iff)
  then show ?thesis by (simp add: c1)
qed

lemma agent_step_follows:
  assumes inv: "agent_inv cr gc aud s" and step: "agent_step cr gc aud s t" and c: "as_conns s i = Some c"
  shows "\<exists>c1. as_conns t i = Some c1 \<and> follows (ac_authz c) (ac_authz c1)"
  using step
proof cases
  case (step_begin j d renewal a g)
  then have "follows (ac_authz d) a"
    by (auto simp: authorize_begin_def authz_begin_def begin_renewal_def follows_def
        split: if_splits authz_state.splits)
  then show ?thesis using step_begin c by (auto simp: set_conn_def)
next
  case (step_turn j d k env active c1)
  then have "follows (ac_authz d) (ac_authz c1)"
    using conn_turn_follows agent_invD(1) [OF inv] by blast
  then show ?thesis using step_turn c by (auto simp: set_conn_def set_active_def)
next
  case (step_teardown j d active a)
  then have "follows (ac_authz d) a" by (auto simp: authz_close_simp intro: follows_Closed)
  then show ?thesis using step_teardown c by (auto simp: set_conn_def set_active_def)
qed (use c in \<open>auto simp: set_conn_def set_active_def intro: follows_same\<close>)

lemma run_follows:
  assumes "(agent_step cr gc aud)\<^sup>*\<^sup>* s t" and "agent_inv cr gc aud s" and "as_conns s i = Some c"
  shows "agent_inv cr gc aud t \<and> (\<exists>c1. as_conns t i = Some c1 \<and> follows (ac_authz c) (ac_authz c1))"
  using assms
proof (induction rule: rtranclp_induct)
  case (step t u)
  then obtain c1 where c1: "agent_inv cr gc aud t" "as_conns t i = Some c1" "follows (ac_authz c) (ac_authz c1)"
    by blast
  then show ?case
    using agent_step_inv [OF c1(1) step(2)] agent_step_follows [OF c1(1) step(2) c1(2)] follows_trans by blast
qed auto

text \<open>
  C5. A session never widens: whatever happens between two states of a run, the grant a connection
  serves later has the same id, services, constraints, tenant and policy revision as the one it
  served before, is the very same payload or a strictly later revision that expires later, and was
  not replaced by another grant. A connection whose authorization closed never holds one again.
\<close>

theorem session_never_widens:
  assumes reach: "reach (agent_init pol) (agent_step cr gc audience) s"
    and run: "(agent_step cr gc audience)\<^sup>*\<^sup>* s t"
    and before: "as_conns s i = Some c" and after: "as_conns t i = Some c1"
  shows "(ca_state (ac_authz c) = Closed \<longrightarrow> ca_state (ac_authz c1) = Closed) \<and>
         (\<forall>v w deny1 deny2 k1 k2 k3 k4.
            authz_scope deny1 k1 k2 (ac_authz c) = Inr (Some v) \<longrightarrow>
            authz_scope deny2 k3 k4 (ac_authz c1) = Inr (Some w) \<longrightarrow>
            vg_id w = vg_id v \<and>
            g_services (vg_payload w) = g_services (vg_payload v) \<and>
            g_constraints (vg_payload w) = g_constraints (vg_payload v) \<and>
            g_tenant (vg_payload w) = g_tenant (vg_payload v) \<and>
            g_policy_revision (vg_payload w) = g_policy_revision (vg_payload v) \<and>
            (w = v \<or> g_revision (vg_payload v) < g_revision (vg_payload w) \<and>
                     g_expires_at (vg_payload v) < g_expires_at (vg_payload w)))"
proof -
  have f: "follows (ac_authz c) (ac_authz c1)"
    using run_follows [OF run agent_sys.reach_inv [OF reach] before] after by auto
  have later: "renews (gl_current l) (gl_current l1)"
    if "held (ca_state (ac_authz c)) = Some l" "held (ca_state (ac_authz c1)) = Some l1" for l l1
    using f that by (auto simp: follows_def)
  show ?thesis
  proof (intro conjI [of "_ \<longrightarrow> _"] allI impI)
    assume "ca_state (ac_authz c) = Closed"
    then show "ca_state (ac_authz c1) = Closed" using f by (simp add: follows_def)
  next
    fix v w deny1 deny2 k1 k2 k3 k4
    assume "authz_scope deny1 k1 k2 (ac_authz c) = Inr (Some v)" "authz_scope deny2 k3 k4 (ac_authz c1) = Inr (Some w)"
    then obtain l l1 where l: "held (ca_state (ac_authz c)) = Some l" "held (ca_state (ac_authz c1)) = Some l1"
      and vw: "v = ag_grant (gl_current l)" "w = ag_grant (gl_current l1)"
      using held_scope by blast
    have "w = v \<or> permits_renewal v w = Inr True"
      using later [OF l] by (auto simp: renews_def vw)
    then show "vg_id w = vg_id v \<and> g_services (vg_payload w) = g_services (vg_payload v) \<and>
        g_constraints (vg_payload w) = g_constraints (vg_payload v) \<and>
        g_tenant (vg_payload w) = g_tenant (vg_payload v) \<and>
        g_policy_revision (vg_payload w) = g_policy_revision (vg_payload v) \<and>
        (w = v \<or> g_revision (vg_payload v) < g_revision (vg_payload w) \<and>
                 g_expires_at (vg_payload v) < g_expires_at (vg_payload w))"
      by (elim disjE) (simp_all add: permits_renewal_True_iff)
  qed
qed

section \<open>Admission succeeds\<close>

lemma active_live_advance:
  assumes "active_grant_new v now = Inr ag"
    and "r_wall now + d < from_secs (g_expires_at (vg_payload v))"
  shows "active_live_at ag (advance now d d)"
proof -
  have n: "grant_live_at v (as_secs (r_wall now))" "ag_grant ag = v"
    and l: "lease_new (as_secs (r_wall now)) (g_expires_at (vg_payload v)) now = Inr (ag_validity ag)"
    using assms(1) by (simp_all add: active_grant_new_Inr_iff)
  have "valid_at (ag_validity ag) (advance now d d)"
    using valid_at_advance_iff [OF lease_new_valid [OF l]] lease_new_Inr_fields [OF l] assms(2) by simp
  moreover have "as_secs (r_wall now) \<le> as_secs (r_wall now + d)" by (rule as_secs_mono) simp
  ultimately show ?thesis
    using n assms(2) by (auto simp: active_live_at_def grant_live_at_def as_secs_less_iff sat_add64_def)
qed

lemma authorization_flow:
  assumes pend: "ca_state a = Pending" and free: "vg_id v \<notin> active"
    and checks: "authorize_checks cr gc pol g remote (ca_audience a) (te_now env1) = Inr v"
    and live: "grant_live_at v (as_secs (r_wall now))"
      "r_continuous now + (from_secs (g_expires_at (vg_payload v)) - r_wall now) \<le> dur_max"
    and env1: "\<not> te_closed env1" "fresh (te_deny1 env1) (te_clock1 env1)"
      "\<not> contains (te_deny2 env1) (vg_id v)" "te_clock2 env1 = Inr now"
    and env2: "\<not> te_closed env2" "te_written env2" "te_clock1 env2 = Inr (advance now d d)"
      "revocations_permit (te_deny1 env2) (vg_id v) (te_clock2 env2)"
    and time: "r_wall now + d < from_secs (g_expires_at (vg_payload v))"
  shows "\<exists>a1 a2 a3. authorize_begin False a = (a1, Inr ()) \<and>
           authorize_turn cr gc pol remote env1 (Verifying g False) (active, a1)
             = ((insert (vg_id v) active, a2), Replying None, False) \<and>
           authorize_turn cr gc pol remote env2 (Replying None) (insert (vg_id v) active, a2)
             = ((insert (vg_id v) active, a3), Finishing, False) \<and>
           (\<forall>e deny clk. r_wall now + e < from_secs (g_expires_at (vg_payload v)) \<and>
              revocations_permit deny (vg_id v) clk \<longrightarrow>
              authz_scope deny (Inr (advance now e e)) clk a3 = Inr (Some v))"
proof -
  have "r_wall now < from_secs (g_expires_at (vg_payload v))" using time by simp
  then obtain cur where cur: "active_grant_new v now = Inr cur" and grant: "ag_grant cur = v"
    using live by (force simp: active_grant_new_def lease_new_Inr_iff res_simps)
  let ?l = "\<lparr>gl_current = cur, gl_updates = cur, gl_slot = vg_id v\<rparr>"
  let ?a1 = "a\<lparr>ca_state := Authorizing None\<rparr>" and ?a2 = "a\<lparr>ca_state := Authorizing (Some ?l)\<rparr>"
    and ?a3 = "a\<lparr>ca_state := Granted ?l\<rparr>"
  have aud: "g_audience (vg_payload v) = ca_audience a"
    using checks by (auto simp: authorize_checks_Inr_iff grant_verify_Inr_iff)
  have i: "install (te_closed env1) (te_deny1 env1) (te_clock1 env1) (te_deny2 env1) (te_clock2 env1) v (active, ?a1)
      = ((insert (vg_id v) active, ?a2), Inr ())"
    using env1 cur free aud by (simp add: install_Inr_iff)
  have c: "authz_commit (te_closed env2) (te_deny1 env2) (te_clock1 env2) (te_clock2 env2) (insert (vg_id v) active, ?a2)
      = ((insert (vg_id v) active, ?a3), Inr ())"
    using env2 active_live_advance [OF cur time] grant by (simp add: authz_commit_Inr_iff active_live_def)
  have "authz_scope deny (Inr (advance now e e)) clk ?a3 = Inr (Some v)"
    if "r_wall now + e < from_secs (g_expires_at (vg_payload v))" "revocations_permit deny (vg_id v) clk" for e deny clk
    using that active_live_advance [OF cur that(1)] grant
    by (simp add: authz_scope_Inr_iff active_live_def revocations_permit_def)
  then show ?thesis
    using pend checks i c env2(2)
    by (intro exI [of _ ?a1] exI [of _ ?a2] exI [of _ ?a3])
      (simp add: authorize_begin_def authz_begin_def or_drop_def)
qed

text \<open>
  C16. A legitimate peer gets in. On a connection that still awaits its grant, a grant that passes
  the checks, is not revoked under a fresh denylist and is in use nowhere goes through the whole
  transaction: begin, install and the committed reply succeed, and from then on until the grant's
  expiry every scope query under a fresh denylist without it returns that grant.
\<close>

theorem authorization_succeeds:
  assumes pend: "ca_state a = Pending" and free: "vg_id v \<notin> active"
    and checks: "authorize_checks cr gc pol g remote (ca_audience a) (te_now env1) = Inr v"
    and live: "grant_live_at v (as_secs (r_wall now))"
      "r_continuous now + (from_secs (g_expires_at (vg_payload v)) - r_wall now) \<le> dur_max"
    and env1: "\<not> te_closed env1" "fresh (te_deny1 env1) (te_clock1 env1)"
      "\<not> contains (te_deny2 env1) (vg_id v)" "te_clock2 env1 = Inr now"
    and env2: "\<not> te_closed env2" "te_written env2" "te_clock1 env2 = Inr (advance now d d)"
      "revocations_permit (te_deny1 env2) (vg_id v) (te_clock2 env2)"
    and time: "r_wall now + d < from_secs (g_expires_at (vg_payload v))"
  shows "\<exists>a1 a2 a3. authorize_begin False a = (a1, Inr ()) \<and>
           authorize_turn cr gc pol remote env1 (Verifying g False) (active, a1)
             = ((insert (vg_id v) active, a2), Replying None, False) \<and>
           authorize_turn cr gc pol remote env2 (Replying None) (insert (vg_id v) active, a2)
             = ((insert (vg_id v) active, a3), Finishing, False) \<and>
           (\<forall>e deny clk. r_wall now + e < from_secs (g_expires_at (vg_payload v)) \<and>
              revocations_permit deny (vg_id v) clk \<longrightarrow>
              authz_scope deny (Inr (advance now e e)) clk a3 = Inr (Some v))"
  using assms by (rule authorization_flow)

section \<open>The watchdog enforces\<close>

lemma watch_turn_total: "\<exists>act. watch_turn deny clk1 clk2 ag = Some act"
  using remaining_at_total [of "ag_validity ag"]
  by (auto simp: watch_turn_def split: sum.splits)

text \<open>A turn lets the session go on only while everything holds, and sleeps at most to its end.\<close>

lemma watch_turn_wait_iff:
  "watch_turn deny clk1 clk2 ag = Some (WatchWait w) \<longleftrightarrow>
     revocations_permit deny (vg_id (ag_grant ag)) clk1 \<and>
     (\<exists>now r. clk2 = Inr now \<and> active_live_at ag now \<and> remaining_at (ag_validity ag) now = Some r \<and>
        w = min r (from_secs 1))"
  by (auto simp: watch_turn_def revocations_permit_def split: sum.splits)

lemma watch_turn_close:
  assumes "\<not> revocations_permit deny (vg_id (ag_grant ag)) clk1 \<or> \<not> active_live ag clk2"
  shows "\<exists>code why. watch_turn deny clk1 clk2 ag = Some (WatchClose code why) \<and> (code = 3 \<or> code = 4)"
  using assms
  by (auto simp: watch_turn_def revocations_permit_def active_live_def split: sum.splits)

text \<open>The session of one turn may go on.\<close>

definition may_continue :: "revocation_policy \<times> clock \<times> clock \<times> active_grant \<times> watch_wake \<Rightarrow> bool" where
  "may_continue ev =
     (case ev of (deny, clk1, clk2, ag, woke) \<Rightarrow>
        revocations_permit deny (vg_id (ag_grant ag)) clk1 \<and> active_live ag clk2)"

definition woke_of :: "revocation_policy \<times> clock \<times> clock \<times> active_grant \<times> watch_wake \<Rightarrow> watch_wake" where
  "woke_of ev = snd (snd (snd (snd ev)))"

lemma watch_grant_closes:
  assumes "k < length evs" and "\<not> may_continue (evs ! k)" and "\<forall>j<k. woke_of (evs ! j) \<noteq> WokeClosed"
  shows "\<exists>code why. watch_grant evs = Some (code, why) \<and> (code = 3 \<or> code = 4)"
  using assms
proof (induction evs arbitrary: k)
  case (Cons ev evs)
  obtain deny clk1 clk2 ag woke where ev: "ev = (deny, clk1, clk2, ag, woke)" by (cases ev)
  show ?case
  proof (cases "may_continue ev")
    case False
    then show ?thesis
      using watch_turn_close [of deny ag clk1 clk2] by (auto simp: ev may_continue_def)
  next
    case True
    then obtain k1 where k: "k = Suc k1" using Cons.prems(2) by (cases k) auto
    have woke: "woke \<noteq> WokeClosed" using Cons.prems(3) k by (auto simp: ev woke_of_def)
    have "\<forall>j<k1. woke_of (evs ! j) \<noteq> WokeClosed" using Cons.prems(3) k by force
    then have "\<exists>code why. watch_grant evs = Some (code, why) \<and> (code = 3 \<or> code = 4)"
      using Cons.IH [of k1] Cons.prems(1,2) k by simp
    moreover obtain w where "watch_turn deny clk1 clk2 ag = Some (WatchWait w)"
      using True remaining_at_total [of "ag_validity ag"]
      by (auto simp: ev may_continue_def watch_turn_wait_iff active_live_def split: sum.splits)
    ultimately show ?thesis
      using woke by (auto simp: ev split: watch_wake.splits)
  qed
qed simp

text \<open>
  C17. The watchdog enforces. In a run of its loop in which the connection does not close by itself
  first, a turn that finds the denylist stale, the grant revoked, the clock unavailable or the
  grant expired closes the connection. While it lets the session go on it sleeps no longer than a
  second and no longer than the grant lives: the grant is valid throughout the sleep, and where
  the sleep is shorter than a second the grant is over at its end.
\<close>

theorem watchdog_enforces:
  "(\<forall>evs k. k < length evs \<and> \<not> may_continue (evs ! k) \<and> (\<forall>j<k. woke_of (evs ! j) \<noteq> WokeClosed) \<longrightarrow>
      (\<exists>code why. watch_grant evs = Some (code, why) \<and> (code = 3 \<or> code = 4))) \<and>
   (\<forall>deny clk1 now ag w. watch_turn deny clk1 (Inr now) ag = Some (WatchWait w) \<longrightarrow>
      revocations_permit deny (vg_id (ag_grant ag)) clk1 \<and> 0 < w \<and> w \<le> from_secs 1 \<and>
      (\<forall>d<w. valid_at (ag_validity ag) (advance now d d)) \<and>
      (w < from_secs 1 \<longrightarrow> \<not> valid_at (ag_validity ag) (advance now w w)))"
proof (intro conjI [of "\<forall>evs k. _ evs k"] allI impI)
  fix evs :: "(revocation_policy \<times> clock \<times> clock \<times> active_grant \<times> watch_wake) list" and k
  assume "k < length evs \<and> \<not> may_continue (evs ! k) \<and> (\<forall>j<k. woke_of (evs ! j) \<noteq> WokeClosed)"
  then show "\<exists>code why. watch_grant evs = Some (code, why) \<and> (code = 3 \<or> code = 4)"
    using watch_grant_closes by blast
next
  fix deny clk1 now ag w assume "watch_turn deny clk1 (Inr now) ag = Some (WatchWait w)"
  then obtain r where p: "revocations_permit deny (vg_id (ag_grant ag)) clk1" and v: "valid_at (ag_validity ag) now"
    and r: "remaining_at (ag_validity ag) now = Some r" and w: "w = min r (from_secs 1)"
    by (auto simp: watch_turn_wait_iff active_live_at_def)
  have r1: "r = min (from_secs (l_expires_at (ag_validity ag)) - r_wall now) (l_deadline (ag_validity ag) - r_continuous now)"
    using r remaining_at_valid [OF v] by simp
  have "0 < r" using v r1 by (auto simp: valid_at_def as_secs_less_iff)
  moreover have "valid_at (ag_validity ag) (advance now d d) \<longleftrightarrow> d < r" for d
    using valid_at_advance_iff [OF v, of d d] r1 by auto
  moreover have "0 < from_secs 1" by (simp add: from_secs_def nanos_per_sec_def)
  ultimately show "revocations_permit deny (vg_id (ag_grant ag)) clk1 \<and> 0 < w \<and> w \<le> from_secs 1 \<and>
      (\<forall>d<w. valid_at (ag_validity ag) (advance now d d)) \<and>
      (w < from_secs 1 \<longrightarrow> \<not> valid_at (ag_validity ag) (advance now w w))"
    using p w by auto
qed

section \<open>A concrete agent\<close>

definition device0 :: bytes where "device0 = replicate 32 2"
definition peer0 :: bytes where "peer0 = replicate 32 1"
definition deny0 :: revocation_policy where "deny0 = use_local_revocations revocation_default"

definition policy_w :: agent_policy where
  "policy_w = policy_ssh\<lparr>ap_allow := {peer0}, ap_denylist := deny0\<rparr>"

definition grant_w :: grant where
  "grant_w = grant_issue_at crypto0 codecs0 (replicate 32 7) payload0"

definition renewal_w :: grant where
  "renewal_w = grant_issue_at crypto0 codecs0 (replicate 32 7) payload1"

definition env_w :: authz_env where
  "env_w = \<lparr>te_closed = False, te_closed_after = False, te_deny1 = deny0, te_deny2 = deny0,
     te_clock1 = Inr now0, te_clock2 = Inr now0, te_clock3 = Inr now0, te_now = 1010, te_written = True\<rparr>"

definition authz_w :: conn_authz where
  "authz_w = conn_authz_new True device0 4"

definition conn_w :: agent_conn where
  "conn_w = \<lparr>ac_remote = peer0, ac_closed = False, ac_authz = authz_w, ac_tasks = []\<rparr>"

definition agent_w :: agent_state where
  "agent_w = \<lparr>as_policy = policy_w, as_conns = (\<lambda>_. None)\<rparr>"

lemma policy_w_simps:
  "ap_allow policy_w = {peer0}" "grants_required policy_w" "ap_denylist policy_w = deny0"
  "ap_active_grants policy_w = {}"
  by (simp_all add: policy_w_def policy_ssh_def ssh_only_def grants_required_def)

lemma deny0_permits: "revocations_permit deny0 i clk"
  by (simp add: revocations_permit_def fresh_def contains_def deny0_def use_local_revocations_def revocation_default_def)

lemma checks_w:
  "authorize_checks crypto0 codecs0 policy_w grant_w peer0 device0 1010 = Inr verified0"
  "authorize_checks crypto0 codecs0 policy_w renewal_w peer0 device0 1010 = Inr verified1"
  using verified0_verifies
  by (simp_all add: authorize_checks_Inr_iff grant_w_def renewal_w_def peer0_def device0_def policy_w_def
      policy_ssh_def ssh_only_def verified0_def verified1_def payload1_def payload0_def)

lemma verified0_time:
  "grant_live_at verified0 (as_secs (r_wall now0))"
  "r_continuous now0 + (from_secs (g_expires_at (vg_payload verified0)) - r_wall now0) \<le> dur_max"
  "r_wall now0 + 0 < from_secs (g_expires_at (vg_payload verified0))"
  by (simp_all add: grant_live_at_def verified0_def payload0_def now0_def as_secs_def from_secs_def
      nanos_per_sec_def dur_max_def sat_add64_def u64_max_def skew_secs_def)

lemma advance_zero [simp]: "advance now 0 0 = now"
  by (simp add: advance_def)

lemmas flow_w_facts = checks_w(1) verified0_time deny0_permits

lemma env_w_simps:
  "te_closed env_w = False" "te_written env_w" "te_deny1 env_w = deny0" "te_deny2 env_w = deny0"
  "te_clock1 env_w = Inr now0" "te_clock2 env_w = Inr now0" "te_now env_w = 1010"
  by (simp_all add: env_w_def)

lemma deny0_simps: "fresh deny0 clk" "\<not> contains deny0 i"
  using deny0_permits by (simp_all add: revocations_permit_def)

lemma authz_w_simps: "ca_state authz_w = Pending" "ca_audience authz_w = device0"
  by (simp_all add: authz_w_def conn_authz_new_def)

theorem authorization_succeeds_witness:
  "\<exists>a3 active. authorize_turn crypto0 codecs0 policy_w peer0 env_w (Replying None) active = (a3, Finishing, False) \<and>
     authz_scope deny0 (Inr now0) (Inr now0) (snd a3) = Inr (Some verified0)"
proof -
  have "\<exists>a1 a2 a3. authorize_begin False authz_w = (a1, Inr ()) \<and>
      authorize_turn crypto0 codecs0 policy_w peer0 env_w (Verifying grant_w False) ({}, a1)
        = ((insert (vg_id verified0) {}, a2), Replying None, False) \<and>
      authorize_turn crypto0 codecs0 policy_w peer0 env_w (Replying None) (insert (vg_id verified0) {}, a2)
        = ((insert (vg_id verified0) {}, a3), Finishing, False) \<and>
      (\<forall>e deny clk. r_wall now0 + e < from_secs (g_expires_at (vg_payload verified0)) \<and>
         revocations_permit deny (vg_id verified0) clk \<longrightarrow>
         authz_scope deny (Inr (advance now0 e e)) clk a3 = Inr (Some verified0))"
    by (rule authorization_succeeds [where d = 0])
      (simp_all add: env_w_simps deny0_simps authz_w_simps flow_w_facts [simplified])
  then obtain a2 a3 where
    "authorize_turn crypto0 codecs0 policy_w peer0 env_w (Replying None) (insert (vg_id verified0) {}, a2)
        = ((insert (vg_id verified0) {}, a3), Finishing, False)"
    and "\<forall>e deny clk. r_wall now0 + e < from_secs (g_expires_at (vg_payload verified0)) \<and>
         revocations_permit deny (vg_id verified0) clk \<longrightarrow>
         authz_scope deny (Inr (advance now0 e e)) clk a3 = Inr (Some verified0)"
    by blast
  moreover from this(2) [rule_format, of 0 deny0 "Inr now0"]
  have "authz_scope deny0 (Inr now0) (Inr now0) a3 = Inr (Some verified0)"
    using verified0_time(3) deny0_permits by simp
  ultimately show ?thesis by force
qed

text \<open>The same transaction as steps of the agent: a reachable state that serves the peer.\<close>

lemma flow_w:
  obtains a1 a2 a3 where "authorize_begin False authz_w = (a1, Inr ())"
    "authorize_turn crypto0 codecs0 policy_w peer0 env_w (Verifying grant_w False) ({}, a1)
       = (({vg_id verified0}, a2), Replying None, False)"
    "\<And>pol. authorize_turn crypto0 codecs0 pol peer0 env_w (Replying None) ({vg_id verified0}, a2)
       = (({vg_id verified0}, a3), Finishing, False)"
    "authz_scope deny0 (Inr now0) (Inr now0) a3 = Inr (Some verified0)" "\<exists>l. ca_state a3 = Granted l"
proof -
  have "\<exists>a1 a2 a3. authorize_begin False authz_w = (a1, Inr ()) \<and>
      authorize_turn crypto0 codecs0 policy_w peer0 env_w (Verifying grant_w False) ({}, a1)
        = ((insert (vg_id verified0) {}, a2), Replying None, False) \<and>
      authorize_turn crypto0 codecs0 policy_w peer0 env_w (Replying None) (insert (vg_id verified0) {}, a2)
        = ((insert (vg_id verified0) {}, a3), Finishing, False) \<and>
      (\<forall>e deny clk. r_wall now0 + e < from_secs (g_expires_at (vg_payload verified0)) \<and>
         revocations_permit deny (vg_id verified0) clk \<longrightarrow>
         authz_scope deny (Inr (advance now0 e e)) clk a3 = Inr (Some verified0))"
    by (rule authorization_flow [where d = 0])
      (simp_all add: env_w_simps deny0_simps authz_w_simps flow_w_facts [simplified])
  then obtain a1 a2 a3 where f: "authorize_begin False authz_w = (a1, Inr ())"
    "authorize_turn crypto0 codecs0 policy_w peer0 env_w (Verifying grant_w False) ({}, a1)
       = (({vg_id verified0}, a2), Replying None, False)"
    "authorize_turn crypto0 codecs0 policy_w peer0 env_w (Replying None) ({vg_id verified0}, a2)
       = (({vg_id verified0}, a3), Finishing, False)"
    "\<forall>e deny clk. r_wall now0 + e < from_secs (g_expires_at (vg_payload verified0)) \<and>
       revocations_permit deny (vg_id verified0) clk \<longrightarrow>
       authz_scope deny (Inr (advance now0 e e)) clk a3 = Inr (Some verified0)"
    by blast
  show thesis
  proof (rule that [OF f(1,2)])
    show "authorize_turn crypto0 codecs0 pol peer0 env_w (Replying None) ({vg_id verified0}, a2)
       = (({vg_id verified0}, a3), Finishing, False)" for pol
      using f(3) by simp
    show "authz_scope deny0 (Inr now0) (Inr now0) a3 = Inr (Some verified0)"
      using f(4) [rule_format, of 0 deny0 "Inr now0"] verified0_time(3) deny0_permits by simp
    show "\<exists>l. ca_state a3 = Granted l"
      using f(3) by (cases rule: authorize_turn_cases) (auto simp: authz_commit_Inr_iff)
  qed
qed

lemma served_w:
  obtains s c where "reach (agent_init policy_w) (agent_step crypto0 codecs0 device0) s"
    and "as_conns s 0 = Some c" "ac_remote c = peer0" "ap_denylist (as_policy s) = deny0"
    and "authz_scope deny0 (Inr now0) (Inr now0) (ac_authz c) = Inr (Some verified0)"
    and "slot_of s 0 = Some (vg_id verified0)" "\<exists>l. ca_state (ac_authz c) = Granted l"
proof -
  obtain a1 a2 a3 where f: "authorize_begin False authz_w = (a1, Inr ())"
    "authorize_turn crypto0 codecs0 policy_w peer0 env_w (Verifying grant_w False) ({}, a1)
       = (({vg_id verified0}, a2), Replying None, False)"
    "\<And>pol. authorize_turn crypto0 codecs0 pol peer0 env_w (Replying None) ({vg_id verified0}, a2)
       = (({vg_id verified0}, a3), Finishing, False)"
    "authz_scope deny0 (Inr now0) (Inr now0) a3 = Inr (Some verified0)" "\<exists>l. ca_state a3 = Granted l"
    using flow_w by blast
  let ?step = "agent_step crypto0 codecs0 device0" and ?reach = "reach (agent_init policy_w) (agent_step crypto0 codecs0 device0)"
  let ?c1 = "conn_w\<lparr>ac_authz := a1, ac_tasks := [Verifying grant_w False]\<rparr>"
  let ?c2 = "conn_w\<lparr>ac_authz := a2, ac_tasks := [Replying None]\<rparr>"
  let ?c3 = "conn_w\<lparr>ac_authz := a3, ac_tasks := [Finishing]\<rparr>"
  let ?s3 = "set_active {vg_id verified0} (set_conn 0 ?c2 (set_conn 0 ?c1 (set_conn 0 conn_w agent_w)))"
  let ?s4 = "set_active {vg_id verified0} (set_conn 0 ?c3 ?s3)"
  have "?reach agent_w" by (rule reach_init) (simp add: agent_init_def agent_w_def policy_w_simps)
  moreover have "?step agent_w (set_conn 0 conn_w agent_w)"
    by (rule step_accept [where streams = 4 and peer = peer0])
      (simp_all add: agent_w_def admit_conn_def policy_w_simps conn_w_def authz_w_def)
  moreover have "?step (set_conn 0 conn_w agent_w) (set_conn 0 ?c1 (set_conn 0 conn_w agent_w))"
    using step_begin [of "set_conn 0 conn_w agent_w" 0 conn_w False a1 crypto0 codecs0 device0 grant_w] f(1)
    by (simp add: set_conn_def conn_w_def)
  moreover have "?step (set_conn 0 ?c1 (set_conn 0 conn_w agent_w)) ?s3"
    by (rule step_turn [where c = ?c1 and k = 0 and env = env_w])
      (use f(2) in \<open>simp_all add: set_conn_def agent_w_def conn_turn_def policy_w_simps conn_w_def\<close>)
  moreover have "?step ?s3 ?s4"
    by (rule step_turn [where c = ?c2 and k = 0 and env = env_w])
      (use f(3) in \<open>simp_all add: set_conn_def set_active_def conn_turn_def conn_w_def\<close>)
  ultimately have r: "?reach ?s4" by (meson reach_step)
  have at0: "slot_of ?s4 0 = map_option gl_slot (held (ca_state a3))"
    by (simp add: slot_of_def set_conn_def set_active_def)
  obtain x where x: "slot_of ?s4 0 = Some x" using held_scope [OF f(4)] at0 by auto
  have "ran (slot_of ?s4) = {vg_id verified0}"
    using agent_invD(2) [OF agent_sys.reach_inv [OF r]] by (simp add: slots_ok_def set_active_def)
  then have h: "map_option gl_slot (held (ca_state a3)) = Some (vg_id verified0)"
    using ranI [of "slot_of ?s4" 0 x] x at0 by simp
  show thesis
    by (rule that [OF r, of ?c3]) (use f(4,5) h in \<open>simp_all add: set_conn_def set_active_def conn_w_def slot_of_def agent_w_def policy_w_simps\<close>)
qed

theorem served_scope_authorized_witness:
  "\<exists>s c g t. reach (agent_init policy_w) (agent_step crypto0 codecs0 device0) s \<and> as_conns s 0 = Some c \<and>
     authz_scope (ap_denylist (as_policy s)) (Inr now0) (Inr now0) (ac_authz c) = Inr (Some verified0) \<and>
     grant_verify crypto0 codecs0 g (ap_issuers policy_w) (ac_remote c) device0 (ap_grant_max_ttl policy_w) t = Inr verified0"
proof -
  obtain s c where s: "reach (agent_init policy_w) (agent_step crypto0 codecs0 device0) s" "as_conns s 0 = Some c"
    "ap_denylist (as_policy s) = deny0" "authz_scope deny0 (Inr now0) (Inr now0) (ac_authz c) = Inr (Some verified0)"
    using served_w by blast
  then have q: "authz_scope (ap_denylist (as_policy s)) (Inr now0) (Inr now0) (ac_authz c) = Inr (Some verified0)"
    by simp
  from served_scope_authorized [OF s(1) policy_w_simps(2) s(2) q] s q show ?thesis by blast
qed

theorem reservations_exclusive_witness:
  "\<exists>s. reach (agent_init policy_w) (agent_step crypto0 codecs0 device0) s \<and>
     vg_id verified0 \<in> ap_active_grants (as_policy s)"
proof -
  obtain s where s: "reach (agent_init policy_w) (agent_step crypto0 codecs0 device0) s"
    "slot_of s 0 = Some (vg_id verified0)"
    using served_w by blast
  from reservations_exclusive [OF s(1)] s show ?thesis by (auto simp: ran_def)
qed

text \<open>The served peer renews its grant: the later revision replaces the first one.\<close>

lemma verified1_time:
  "grant_live_at verified1 (as_secs (r_wall now0))"
  "r_continuous now0 + (from_secs (g_expires_at (vg_payload verified1)) - r_wall now0) \<le> dur_max"
  "r_wall now0 < from_secs (g_expires_at (vg_payload verified1))"
  by (simp_all add: grant_live_at_def verified1_def payload1_def payload0_def now0_def as_secs_def from_secs_def
      nanos_per_sec_def dur_max_def sat_add64_def u64_max_def skew_secs_def)

lemma step_turn_keep:
  assumes "as_conns s i = Some c" and "k < length (ac_tasks c)"
    and "conn_turn cr gc env k (as_policy s) c = (ap_active_grants (as_policy s), c1)"
  shows "agent_step cr gc aud s (set_conn i c1 s)"
  using step_turn [OF assms, of aud] by simp

lemma set_conn_simps [simp]: "as_policy (set_conn i c s) = as_policy s" "as_conns (set_conn i c s) i = Some c"
  by (simp_all add: set_conn_def)

lemma renewal_w_steps:
  assumes inv: "agent_inv crypto0 codecs0 device0 s" and pol: "same_policy policy_w (as_policy s)"
    and c: "as_conns s 0 = Some c" "ac_remote c = peer0" "ca_state (ac_authz c) = Granted l"
    and live: "active_live (gl_current l) (Inr now0)" and cur: "ag_grant (gl_current l) = verified0"
  shows "\<exists>t c1. (agent_step crypto0 codecs0 device0)\<^sup>*\<^sup>* s t \<and> as_conns t 0 = Some c1 \<and>
     authz_scope deny0 (Inr now0) (Inr now0) (ac_authz c1) = Inr (Some verified1)"
proof -
  let ?step = "agent_step crypto0 codecs0 device0"
  let ?a = "ac_authz c" and ?ts = "ac_tasks c"
  obtain n where n: "active_grant_new verified1 now0 = Inr n" "ag_grant n = verified1"
    using verified1_time by (force simp: active_grant_new_def lease_new_Inr_iff res_simps)
  have ok: "permits_renewal verified0 verified1 = Inr True"
    by (simp add: permits_renewal_True_iff verified0_def verified1_def payload1_def payload0_def grant_payload_id_def)
  let ?c1 = "c\<lparr>ac_authz := ?a\<lparr>ca_state := Renewing l\<rparr>, ac_tasks := ?ts @ [Verifying renewal_w True]\<rparr>"
  let ?c2 = "?c1\<lparr>ac_tasks := ?ts @ [Replying (Some n)]\<rparr>"
  let ?a3 = "?a\<lparr>ca_state := Granted (l\<lparr>gl_updates := n, gl_current := n\<rparr>)\<rparr>"
  let ?c3 = "c\<lparr>ac_authz := ?a3, ac_tasks := ?ts @ [Finishing]\<rparr>"
  let ?act = "ap_active_grants (as_policy s)"
  have aud: "ca_audience ?a = device0" using agent_invD(1) [OF inv c(1)] by (simp add: conn_inv_def)
  have "?step s (set_conn 0 ?c1 s)"
    by (rule step_begin [where renewal = True]) (use c in \<open>simp_all add: authorize_begin_def begin_renewal_def\<close>)
  moreover have "conn_turn crypto0 codecs0 env_w (length ?ts) (as_policy s) ?c1 = (?act, ?c2)"
    using c aud checks_w(2) same_policyD(1) [OF pol] live cur n(1) ok
    by (simp add: conn_turn_def env_w_simps prepare_renewal_def active_live_def)
  then have "?step (set_conn 0 ?c1 s) (set_conn 0 ?c2 (set_conn 0 ?c1 s))"
    by (intro step_turn_keep [where c = ?c1 and k = "length ?ts" and env = env_w]) simp_all
  moreover have "conn_turn crypto0 codecs0 env_w (length ?ts) (as_policy s) ?c2 = (?act, ?c3)"
    using active_grant_new_live [OF n(1)] live deny0_permits
    by (simp add: conn_turn_def env_w_def or_drop_def commit_renewal_def Let_def active_live_def)
  then have "?step (set_conn 0 ?c2 (set_conn 0 ?c1 s)) (set_conn 0 ?c3 (set_conn 0 ?c2 (set_conn 0 ?c1 s)))"
    by (intro step_turn_keep [where c = ?c2 and k = "length ?ts" and env = env_w]) simp_all
  ultimately have "?step\<^sup>*\<^sup>* s (set_conn 0 ?c3 (set_conn 0 ?c2 (set_conn 0 ?c1 s)))"
    by (meson converse_rtranclp_into_rtranclp rtranclp.rtrancl_refl)
  moreover have "authz_scope deny0 (Inr now0) (Inr now0) ?a3 = Inr (Some verified1)"
    using active_grant_new_live [OF n(1)] n(2) deny0_simps by (simp add: authz_scope_def active_live_def)
  ultimately show ?thesis
    by (intro exI [of _ "set_conn 0 ?c3 (set_conn 0 ?c2 (set_conn 0 ?c1 s))"] exI [of _ ?c3]) simp
qed

theorem session_never_widens_witness:
  "\<exists>s t c c1. reach (agent_init policy_w) (agent_step crypto0 codecs0 device0) s \<and>
     (agent_step crypto0 codecs0 device0)\<^sup>*\<^sup>* s t \<and> as_conns s 0 = Some c \<and> as_conns t 0 = Some c1 \<and>
     authz_scope deny0 (Inr now0) (Inr now0) (ac_authz c) = Inr (Some verified0) \<and>
     authz_scope deny0 (Inr now0) (Inr now0) (ac_authz c1) = Inr (Some verified1) \<and> verified1 \<noteq> verified0 \<and>
     vg_id verified1 = vg_id verified0 \<and> g_revision (vg_payload verified0) < g_revision (vg_payload verified1) \<and>
     g_services (vg_payload verified1) = g_services (vg_payload verified0)"
proof -
  obtain s c where s: "reach (agent_init policy_w) (agent_step crypto0 codecs0 device0) s" "as_conns s 0 = Some c"
    "ac_remote c = peer0" "authz_scope deny0 (Inr now0) (Inr now0) (ac_authz c) = Inr (Some verified0)"
    "\<exists>l. ca_state (ac_authz c) = Granted l"
    using served_w by blast
  then obtain l where l: "ca_state (ac_authz c) = Granted l" "active_live (gl_current l) (Inr now0)"
    "ag_grant (gl_current l) = verified0"
    by (auto simp: authz_scope_Inr_iff)
  obtain t c1 where t: "(agent_step crypto0 codecs0 device0)\<^sup>*\<^sup>* s t" "as_conns t 0 = Some c1"
    "authz_scope deny0 (Inr now0) (Inr now0) (ac_authz c1) = Inr (Some verified1)"
    using renewal_w_steps [OF agent_sys.reach_inv [OF s(1)] reach_same_policy [OF s(1)] s(2,3) l] by blast
  have "verified1 \<noteq> verified0" by (simp add: verified0_def verified1_def payload1_def payload0_def)
  with session_never_widens [OF s(1) t(1) s(2) t(2)] s(4) t(3)
  have "vg_id verified1 = vg_id verified0 \<and> g_revision (vg_payload verified0) < g_revision (vg_payload verified1) \<and>
     g_services (vg_payload verified1) = g_services (vg_payload verified0)"
    by blast
  with s t \<open>verified1 \<noteq> verified0\<close> show ?thesis by blast
qed

definition active_w :: active_grant where
  "active_w = \<lparr>ag_grant = verified0, ag_validity = lease_r0\<rparr>"

theorem watchdog_enforces_witness:
  "\<exists>code why. watch_grant [(deny0, Inr now0, Inr now0, active_w, WokeDenied True),
     (revoke deny0 (vg_id verified0), Inr now0, Inr now0, active_w, WokeSlept)] = Some (code, why) \<and> (code = 3 \<or> code = 4)"
proof -
  let ?evs = "[(deny0, Inr now0, Inr now0, active_w, WokeDenied True),
     (revoke deny0 (vg_id verified0), Inr now0, Inr now0, active_w, WokeSlept)]"
  have "1 < length ?evs \<and> \<not> may_continue (?evs ! 1) \<and> (\<forall>j<1. woke_of (?evs ! j) \<noteq> WokeClosed)"
    by (simp add: may_continue_def woke_of_def revocations_permit_def contains_def revoke_def active_w_def)
  then show ?thesis using watchdog_enforces by blast
qed

end
