(* ===== verification/Rds_Sync.thy ===== *)
theory Rds_Sync
  imports Rds_Grants Rds_Net
begin

text \<open>
  File synchronization, content model and wire protocol (\<open>rds-sync/src/lib.rs\<close>,
  \<open>rds-sync/src/proto.rs\<close> and the wire profile of \<open>rds-sync/src/engine.rs\<close>): manifests of
  content-addressed chunks, the validation of peer-supplied paths and manifests, the bitmap of
  missing chunks, session negotiation, the session envelope and the manifest exchange.
\<close>

section \<open>Data\<close>

type_synonym chunk_hash = bytes

record chunk =
  ck_hash :: chunk_hash
  ck_offset :: u64
  ck_len :: u32

record manifest =
  mf_size :: u64
  mf_root :: chunk_hash
  mf_chunks :: "chunk list"

definition min_chunk :: u32 where "min_chunk = 16 * 1024"
definition avg_chunk :: u32 where "avg_chunk = 64 * 1024"
definition max_chunk :: u32 where "max_chunk = 256 * 1024"
definition fetch_streams :: usize where "fetch_streams = 4"
definition max_chunks :: usize where "max_chunks = 2 ^ 18"
definition max_rel_path :: usize where "max_rel_path = 512"
definition manifest_batch :: usize where "manifest_batch = 512"
definition chunkset_batch :: usize where "chunkset_batch = 4096"
definition session_version :: u16 where "session_version = 2"
definition state_dir :: string where "state_dir = ''.rds-sync''"

lemmas sync_limits = min_chunk_def avg_chunk_def max_chunk_def fetch_streams_def max_chunks_def
  max_rel_path_def manifest_batch_def chunkset_batch_def session_version_def

text \<open>
  What a \<open>SyncError::Manifest\<close> reports. The source formats these into one message string; the
  model keeps the reason and the data the message is made from.
\<close>

datatype sync_reason =
    BadRelPath string
  | RelPathNul
  | AbsoluteRelPath string
  | TraversalRelPath string
  | JournalRelPath string
  | EmptyRelPath string
  | ManifestTooLarge
  | BadChunkLen u32
  | NotContiguous u64
  | SizeOverflow
  | CoverMismatch u64 u64
  | BadNeedBitmap
  | UnusableLimits
  | ChunkOutOfRange u32
  | ChunkUnverified u32
  | AssembleEarly
  | AssemblyCanceled
  | PartChanged
  | RootMismatch

datatype sync_error = SyncIo string | SyncManifest sync_reason

section \<open>Manifests\<close>

text \<open>
  \<open>fastcdc\<close> is a parameter: for the size bounds and the data, the offsets and lengths of its
  chunks in order.
\<close>

type_synonym chunker = "usize \<Rightarrow> usize \<Rightarrow> usize \<Rightarrow> bytes \<Rightarrow> (usize \<times> usize) list"

definition byte_slice :: "bytes \<Rightarrow> usize \<Rightarrow> usize \<Rightarrow> bytes" where
  "byte_slice data offset len = take len (drop offset data)"

definition manifest_with :: "crypto \<Rightarrow> chunker \<Rightarrow> bytes \<Rightarrow> u32 \<Rightarrow> u32 \<Rightarrow> u32 \<Rightarrow> manifest" where
  "manifest_with cr cdc data mn avg mx =
     \<lparr>mf_size = length data, mf_root = blake3 cr data,
      mf_chunks = map (\<lambda>(offset, len). \<lparr>ck_hash = blake3 cr (byte_slice data offset len),
                        ck_offset = offset, ck_len = len mod 2 ^ 32\<rparr>) (cdc mn avg mx data)\<rparr>"

definition manifest_of :: "crypto \<Rightarrow> chunker \<Rightarrow> bytes \<Rightarrow> manifest" where
  "manifest_of cr cdc data = manifest_with cr cdc data min_chunk avg_chunk max_chunk"

text \<open>
  The streaming manifests. A reader is the bytes it yields and the error that ends it, if one does.
  The streaming chunker of \<open>fastcdc\<close> is a parameter as well: for the size bounds and the reader, its
  items in order, each an error or the offset, length and bytes of the next chunk. \<open>stop\<close> is the
  answer of the cancellation check before each item. The hasher is fed chunk by chunk; the sum of
  the sizes wraps at its width.
\<close>

type_synonym reader = "bytes \<times> string option"
type_synonym stream_chunk = "usize \<times> usize \<times> bytes"
type_synonym stream_chunker = "usize \<Rightarrow> usize \<Rightarrow> usize \<Rightarrow> reader \<Rightarrow> (string, stream_chunk) result list"

datatype manifest_error = Interrupted | ChunkerError string | TooManyChunks

fun manifest_loop ::
  "crypto \<Rightarrow> (nat \<Rightarrow> bool) \<Rightarrow> nat \<Rightarrow> (string, stream_chunk) result list \<Rightarrow> bytes \<Rightarrow> u64 \<Rightarrow> chunk list \<Rightarrow>
     (manifest_error, manifest) result" where
  "manifest_loop cr stop i [] root sz chunks =
     Inr \<lparr>mf_size = sz, mf_root = blake3 cr root, mf_chunks = chunks\<rparr>"
| "manifest_loop cr stop i (item # rest) root sz chunks =
     rbind (ensure (\<not> stop i) Interrupted) (\<lambda>_.
     rbind (map_err ChunkerError item) (\<lambda>(offset, len, data).
     let chunks1 = chunks @ [\<lparr>ck_hash = blake3 cr data, ck_offset = offset, ck_len = len mod 2 ^ 32\<rparr>]
     in rbind (ensure (\<not> length chunks1 > max_chunks) TooManyChunks) (\<lambda>_.
        manifest_loop cr stop (Suc i) rest (root @ data) ((sz + length data) mod 2 ^ 64) chunks1)))"

definition manifest_reader_cancellable_with ::
  "crypto \<Rightarrow> stream_chunker \<Rightarrow> reader \<Rightarrow> u32 \<Rightarrow> u32 \<Rightarrow> u32 \<Rightarrow> (nat \<Rightarrow> bool) \<Rightarrow> (manifest_error, manifest) result" where
  "manifest_reader_cancellable_with cr scdc r mn avg mx stop = manifest_loop cr stop 0 (scdc mn avg mx r) [] 0 []"


definition manifest_of_reader_cancellable ::
  "crypto \<Rightarrow> stream_chunker \<Rightarrow> reader \<Rightarrow> (nat \<Rightarrow> bool) \<Rightarrow> (manifest_error, manifest) result" where
  "manifest_of_reader_cancellable cr scdc r stop =
     manifest_reader_cancellable_with cr scdc r min_chunk avg_chunk max_chunk stop"


definition missing_chunks :: "manifest \<Rightarrow> manifest \<Rightarrow> chunk list" where
  "missing_chunks have want =
     (let present = set (map ck_hash (mf_chunks have))
      in filter (\<lambda>c. ck_hash c \<notin> present) (mf_chunks want))"

section \<open>Validation\<close>

fun push_parts :: "string \<Rightarrow> string list \<Rightarrow> string list \<Rightarrow> (sync_error, string list) result" where
  "push_parts rel [] out = Inr out"
| "push_parts rel (part # parts) out =
     (if part = '''' \<or> part = ''.'' then push_parts rel parts out
      else if part = ''..'' then Inl (SyncManifest (TraversalRelPath rel))
      else if map ascii_lower part = state_dir then Inl (SyncManifest (JournalRelPath rel))
      else push_parts rel parts (out @ [part]))"

text \<open>
  The normalized path is the list of its components, which is what \<open>PathBuf::push\<close> builds on a
  platform without drive letters. Where paths have them, pushing a component such as \<open>D:x\<close>
  replaces what was pushed before; the model does not cover that platform.
\<close>

definition check_rel_path :: "string \<Rightarrow> (sync_error, string list) result" where
  "check_rel_path rel =
     rbind (ensure (\<not> (rel = [] \<or> length rel > max_rel_path)) (SyncManifest (BadRelPath rel))) (\<lambda>_.
     rbind (ensure (CHR 0x00 \<notin> set rel) (SyncManifest RelPathNul)) (\<lambda>_.
     rbind (ensure (\<not> ((case rel of c # _ \<Rightarrow> is_separator c | [] \<Rightarrow> False)
                       \<or> (case rel of _ # c # _ \<Rightarrow> c = CHR '':'' | _ \<Rightarrow> False)
                       \<or> (case rel of c # _ \<Rightarrow> c = CHR ''~'' | [] \<Rightarrow> False)))
             (SyncManifest (AbsoluteRelPath rel))) (\<lambda>_.
     rbind (push_parts rel (split_on is_separator rel) []) (\<lambda>out.
     rbind (ensure (out \<noteq> []) (SyncManifest (EmptyRelPath rel))) (\<lambda>_.
     Inr out)))))"

fun check_chunks :: "chunk list \<Rightarrow> u64 \<Rightarrow> (sync_error, u64) result" where
  "check_chunks [] covered = Inr covered"
| "check_chunks (c # cs) covered =
     rbind (ensure (\<not> (ck_len c = 0 \<or> ck_len c > max_chunk)) (SyncManifest (BadChunkLen (ck_len c)))) (\<lambda>_.
     rbind (ensure (ck_offset c = covered) (SyncManifest (NotContiguous (ck_offset c)))) (\<lambda>_.
     rbind (ok_or (SyncManifest SizeOverflow) (checked_add64 covered (ck_len c))) (\<lambda>covered1.
     check_chunks cs covered1)))"

definition check_manifest :: "manifest \<Rightarrow> (sync_error, unit) result" where
  "check_manifest m =
     rbind (ensure (\<not> length (mf_chunks m) > max_chunks) (SyncManifest ManifestTooLarge)) (\<lambda>_.
     rbind (check_chunks (mf_chunks m) 0) (\<lambda>covered.
     ensure (covered = mf_size m) (SyncManifest (CoverMismatch covered (mf_size m)))))"

section \<open>The bitmap of missing chunks\<close>

definition div_ceil :: "usize \<Rightarrow> usize \<Rightarrow> usize" where
  "div_ceil a b = (a + b - 1) div b"

definition set_need :: "u32 set \<Rightarrow> 64 word list \<Rightarrow> u32 \<Rightarrow> 64 word list" where
  "set_need have bits i =
     (if i \<in> have then bits
      else bits[i div 64 := bits ! (i div 64) OR push_bit (i mod 64) 1])"

definition need_bits :: "usize \<Rightarrow> u32 set \<Rightarrow> 64 word list" where
  "need_bits n have = foldl (set_need have) (replicate (div_ceil n 64) 0) [0..<n mod 2 ^ 32]"

definition need_bit :: "64 word list \<Rightarrow> u32 \<Rightarrow> bool" where
  "need_bit bits i \<longleftrightarrow>
     i div 64 < length bits \<and> bits ! (i div 64) AND push_bit (i mod 64) 1 \<noteq> 0"

definition bits_to_indices :: "64 word list \<Rightarrow> usize \<Rightarrow> (sync_error, u32 list) result" where
  "bits_to_indices bits n =
     rbind (ensure (\<not> (n > max_chunks \<or> length bits \<noteq> div_ceil n 64
                       \<or> (n mod 64 \<noteq> 0 \<and> bits \<noteq> [] \<and> drop_bit (n mod 64) (last bits) \<noteq> 0)))
             (SyncManifest BadNeedBitmap)) (\<lambda>_.
     Inr (filter (need_bit bits) [0..<n mod 2 ^ 32]))"

section \<open>Session limits and messages\<close>

record session_limits =
  sl_max_chunk :: u32
  sl_max_chunks :: u32
  sl_fetch_streams :: nat

definition limits_local :: session_limits where
  "limits_local = \<lparr>sl_max_chunk = max_chunk, sl_max_chunks = max_chunks, sl_fetch_streams = fetch_streams\<rparr>"

definition negotiate :: "session_limits \<Rightarrow> session_limits \<Rightarrow> (sync_error, session_limits) result" where
  "negotiate here peer =
     rbind (ensure (\<not> (sl_max_chunk peer = 0 \<or> sl_max_chunks peer = 0 \<or> sl_fetch_streams peer = 0
                       \<or> sl_max_chunk here = 0 \<or> sl_max_chunks here = 0 \<or> sl_fetch_streams here = 0))
             (SyncManifest UnusableLimits)) (\<lambda>_.
     Inr \<lparr>sl_max_chunk = min (min (sl_max_chunk here) (sl_max_chunk peer)) max_chunk,
          sl_max_chunks = min (min (sl_max_chunks here) (sl_max_chunks peer)) max_chunks,
          sl_fetch_streams = min (min (sl_fetch_streams here) (sl_fetch_streams peer)) fetch_streams\<rparr>)"

datatype session_msg =
    SHello u16 session_limits
  | SHelloAck u16 session_limits
  | SOffer string u64 chunk_hash u32
  | SRequest string
  | SRefuse string
  | SCancel string
  | SManifestPart "chunk list"
  | SNeed "64 word list"
  | SDone chunk_hash
  | SChunkSet "u32 list"
  | SChunkHdr u32 chunk_hash u32
  | SSetDone

datatype sync_msg =
    Offer string u64 chunk_hash u32
  | Request string
  | Refuse string
  | ManifestPart "chunk list"
  | Need "64 word list"
  | ChunkSet "u32 list"
  | ChunkHdr u32 chunk_hash u32
  | SetDone
  | Done chunk_hash
  | Cancel string
  | Session bytes session_msg

section \<open>The wire profile\<close>

record wire_profile =
  wi_transfer :: "bytes option"
  wi_limits :: session_limits

definition wire_v1 :: wire_profile where
  "wire_v1 = \<lparr>wi_transfer = None, wi_limits = limits_local\<rparr>"

definition wire_v2 :: "bytes \<Rightarrow> session_limits \<Rightarrow> wire_profile" where
  "wire_v2 transfer limits = \<lparr>wi_transfer = Some transfer, wi_limits = limits\<rparr>"

definition is_v2 :: "wire_profile \<Rightarrow> bool" where
  "is_v2 w \<longleftrightarrow> wi_transfer w \<noteq> None"

fun to_session :: "sync_msg \<Rightarrow> session_msg option" where
  "to_session (Offer rel n root count) = Some (SOffer rel n root count)"
| "to_session (Request rel) = Some (SRequest rel)"
| "to_session (Refuse reason) = Some (SRefuse reason)"
| "to_session (Cancel reason) = Some (SCancel reason)"
| "to_session (ManifestPart chunks) = Some (SManifestPart chunks)"
| "to_session (Need bits) = Some (SNeed bits)"
| "to_session (Done root) = Some (SDone root)"
| "to_session (ChunkSet indices) = Some (SChunkSet indices)"
| "to_session (ChunkHdr index hash n) = Some (SChunkHdr index hash n)"
| "to_session SetDone = Some SSetDone"
| "to_session (Session _ _) = None"

text \<open>The frame that \<open>Wire::send\<close> writes.\<close>

definition wire_frame :: "wire_profile \<Rightarrow> sync_msg \<Rightarrow> sync_msg" where
  "wire_frame w msg =
     (case wi_transfer w of
        Some transfer \<Rightarrow>
          Session transfer (case to_session msg of
                              Some s \<Rightarrow> s | None \<Rightarrow> SRefuse ''internal protocol error'')
      | None \<Rightarrow>
          (case msg of
             Cancel reason \<Rightarrow> Refuse (''transfer aborted: '' @ reason)
           | Session _ _ \<Rightarrow> Refuse ''internal protocol error''
           | m \<Rightarrow> m))"

datatype wire_error = GreetingRepeated | OtherTransfer | NotEnveloped

fun from_session :: "session_msg \<Rightarrow> (wire_error, sync_msg) result" where
  "from_session (SHello _ _) = Inl GreetingRepeated"
| "from_session (SHelloAck _ _) = Inl GreetingRepeated"
| "from_session (SOffer rel n root count) = Inr (Offer rel n root count)"
| "from_session (SRequest rel) = Inr (Request rel)"
| "from_session (SRefuse reason) = Inr (Refuse reason)"
| "from_session (SCancel reason) = Inr (Cancel reason)"
| "from_session (SManifestPart chunks) = Inr (ManifestPart chunks)"
| "from_session (SNeed bits) = Inr (Need bits)"
| "from_session (SDone root) = Inr (Done root)"
| "from_session (SChunkSet indices) = Inr (ChunkSet indices)"
| "from_session (SChunkHdr index hash n) = Inr (ChunkHdr index hash n)"
| "from_session SSetDone = Inr SetDone"

definition wire_decode :: "wire_profile \<Rightarrow> sync_msg \<Rightarrow> (wire_error, sync_msg) result" where
  "wire_decode w msg =
     (case wi_transfer w of
        None \<Rightarrow> Inr msg
      | Some transfer \<Rightarrow>
          (case msg of
             Session got inner \<Rightarrow> if got = transfer then from_session inner else Inl OtherTransfer
           | _ \<Rightarrow> Inl NotEnveloped))"

section \<open>Negotiation\<close>

datatype session_error =
    SessionIo string
  | VersionUnsupported u16
  | TransferMismatch
  | SessionRefused string
  | UnexpectedGreeting sync_msg
  | LimitsRefused sync_error

definition version_message :: "u16 \<Rightarrow> string" where
  "version_message version =
     ''peer sync session version '' @ print_number 10 version @ '' unsupported (want '' @
     print_number 10 session_version @ '')''"

text \<open>The opener's greeting, and what it makes of the reply.\<close>

definition session_hello :: "bytes \<Rightarrow> sync_msg" where
  "session_hello transfer = Session transfer (SHello session_version limits_local)"

definition session_open ::
  "bytes \<Rightarrow> (string, unit) result \<Rightarrow> (string, sync_msg) result \<Rightarrow> (session_error, session_limits) result" where
  "session_open transfer written reply =
     rbind (map_err SessionIo written) (\<lambda>_.
     rbind (map_err SessionIo reply) (\<lambda>msg.
     case msg of
        Session got (SHelloAck version limits) \<Rightarrow>
          if got = transfer \<and> version = session_version
          then map_err LimitsRefused (negotiate limits_local limits)
          else if got = transfer then Inl (VersionUnsupported version)
          else Inl TransferMismatch
      | Session _ (SRefuse reason) \<Rightarrow> Inl (SessionRefused reason)
      | other \<Rightarrow> Inl (UnexpectedGreeting other)))"

text \<open>
  The responder: the frames it writes, and its result. \<open>written\<close> is how the write goes; the
  refusal of a version does not depend on it.
\<close>

definition session_accept ::
  "bytes \<Rightarrow> (string, sync_msg) result \<Rightarrow> (string, unit) result \<Rightarrow>
     sync_msg list \<times> (session_error, session_limits) result" where
  "session_accept transfer greeting written =
     (let go = (\<lambda>version limits.
            if version \<noteq> session_version
            then ([Session transfer (SRefuse (version_message version))], Inl (VersionUnsupported version))
            else ([Session transfer (SHelloAck session_version limits_local)],
                  rbind (map_err SessionIo written) (\<lambda>_.
                  map_err LimitsRefused (negotiate limits_local limits))))
      in case greeting of
           Inl e \<Rightarrow> ([], Inl (SessionIo e))
         | Inr (Session got (SHello version limits)) \<Rightarrow>
             if got = transfer then go version limits else ([], Inl TransferMismatch)
         | Inr (Session _ _) \<Rightarrow> ([], Inl TransferMismatch)
         | Inr other \<Rightarrow> ([], Inl (UnexpectedGreeting other)))"

text \<open>
  The two against each other, on streams that deliver: the opener reads the responder's first
  frame, or finds the stream ended when there is none.
\<close>

definition handshake ::
  "bytes \<Rightarrow> bytes \<Rightarrow> string \<Rightarrow> (session_error, session_limits) result \<times> (session_error, session_limits) result" where
  "handshake a b ended =
     (case session_accept b (Inr (session_hello a)) (Inr ()) of
        (frames, accepted) \<Rightarrow>
          (session_open a (Inr ()) (case frames of [] \<Rightarrow> Inl ended | f # _ \<Rightarrow> Inr f), accepted))"

section \<open>The manifest exchange\<close>

text \<open>\<open>slice::chunks\<close>.\<close>

function (sequential) chunks_of :: "nat \<Rightarrow> 'a list \<Rightarrow> 'a list list" where
  "chunks_of n [] = []"
| "chunks_of 0 (x # xs) = []"
| "chunks_of (Suc n) (x # xs) = take (Suc n) (x # xs) # chunks_of (Suc n) (drop (Suc n) (x # xs))"
  by pat_completeness auto
termination by (relation "measure (\<lambda>(n, xs). length xs)") auto

definition send_manifest :: "wire_profile \<Rightarrow> string \<Rightarrow> manifest \<Rightarrow> sync_msg list" where
  "send_manifest w rel m =
     map (wire_frame w)
       (Offer rel (mf_size m) (mf_root m) (length (mf_chunks m) mod 2 ^ 32) #
        map ManifestPart (chunks_of manifest_batch (mf_chunks m)))"

datatype read_error =
    ReadFailed string
  | ReadTooLarge u32
  | ReadNegotiatedCount u32
  | ReadBatch
  | ReadRefused string
  | ReadCanceled string
  | ReadUnexpected sync_msg
  | ReadOverrun
  | ReadInvalid sync_error
  | ReadNegotiatedChunk

text \<open>The frames that the control reader hands out, decoded; an empty list is a stall or the end of the stream.\<close>

type_synonym control = "(string, sync_msg) result list"

fun read_parts :: "usize \<Rightarrow> control \<Rightarrow> chunk list \<Rightarrow> (read_error, chunk list \<times> control) result" where
  "read_parts count [] acc =
     (if length acc < count then Inl (ReadFailed ''sync control stream ended'') else Inr (acc, []))"
| "read_parts count (f # fs) acc =
     (if length acc < count then
        (case f of
           Inl e \<Rightarrow> Inl (ReadFailed e)
         | Inr (ManifestPart part) \<Rightarrow>
             if part = [] \<or> length part > manifest_batch \<or> length part > count - length acc
             then Inl ReadBatch else read_parts count fs (acc @ part)
         | Inr (Refuse reason) \<Rightarrow> Inl (ReadRefused reason)
         | Inr (Cancel reason) \<Rightarrow> Inl (ReadCanceled reason)
         | Inr other \<Rightarrow> Inl (ReadUnexpected other))
      else Inr (acc, f # fs))"

definition read_manifest ::
  "control \<Rightarrow> u64 \<Rightarrow> chunk_hash \<Rightarrow> u32 \<Rightarrow> wire_profile \<Rightarrow> (read_error, manifest \<times> control) result" where
  "read_manifest frames n root count w =
     rbind (ensure (\<not> count > max_chunks) (ReadTooLarge count)) (\<lambda>_.
     rbind (ensure (\<not> (is_v2 w \<and> count > sl_max_chunks (wi_limits w))) (ReadNegotiatedCount count)) (\<lambda>_.
     rbind (read_parts count frames []) (\<lambda>(chunks, rest).
     rbind (ensure (length chunks = count) ReadOverrun) (\<lambda>_.
     let m = \<lparr>mf_size = n, mf_root = root, mf_chunks = chunks\<rparr>
     in rbind (map_err ReadInvalid (check_manifest m)) (\<lambda>_.
        rbind (ensure (\<not> (is_v2 w \<and> list_ex (\<lambda>c. ck_len c > sl_max_chunk (wi_limits w)) chunks))
                ReadNegotiatedChunk) (\<lambda>_.
        Inr (m, rest)))))))"

section \<open>Access\<close>

record sync_access =
  sy_read :: bool
  sy_write :: bool
  sy_paths :: "string list list option"

definition read_write :: sync_access where
  "read_write = \<lparr>sy_read = True, sy_write = True, sy_paths = None\<rparr>"

definition permits_path :: "sync_access \<Rightarrow> string list \<Rightarrow> bool" where
  "permits_path access rel =
     (case sy_paths access of
        Some paths \<Rightarrow> list_ex (\<lambda>scope. rel = scope \<or> prefix scope rel) paths
      | None \<Rightarrow> True)"

datatype first_action =
    Push "string list" u64 chunk_hash u32
  | Pull "string list"
  | RefuseAccess string
  | RefusePath sync_error
  | FailCanceled string
  | FailUnexpected sync_msg

text \<open>What \<open>serve_inner\<close> decides on the first message, before it touches the file system.\<close>

definition serve_first :: "sync_access \<Rightarrow> sync_msg \<Rightarrow> first_action" where
  "serve_first access first =
     (case first of
        Offer rel_path n root count \<Rightarrow>
          if \<not> sy_write access then RefuseAccess ''sync write not granted''
          else (case check_rel_path rel_path of
                  Inl e \<Rightarrow> RefusePath e
                | Inr rel \<Rightarrow>
                    if \<not> permits_path access rel then RefuseAccess ''sync path outside granted scope''
                    else Push rel n root count)
      | Request rel_path \<Rightarrow>
          if \<not> sy_read access then RefuseAccess ''sync read not granted''
          else (case check_rel_path rel_path of
                  Inl e \<Rightarrow> RefusePath e
                | Inr rel \<Rightarrow>
                    if \<not> permits_path access rel then RefuseAccess ''sync path outside granted scope''
                    else Pull rel)
      | Cancel reason \<Rightarrow> FailCanceled reason
      | other \<Rightarrow> FailUnexpected other)"

section \<open>The bitmap is exact\<close>

lemma need_bit_iff: "need_bit bits i \<longleftrightarrow> i div 64 < length bits \<and> bit (bits ! (i div 64)) (i mod 64)"
  by (simp add: need_bit_def push_bit_eq_mult and_exp_eq_0_iff_not_bit)

lemma bit_set_word:
  fixes w :: "64 word"
  assumes "b < 64" and "m < 64"
  shows "bit (w OR 2 ^ m) b \<longleftrightarrow> bit w b \<or> b = m"
  using assms by (auto simp: bit_simps)

lemma set_need_length [simp]: "length (set_need have bits i) = length bits"
  by (simp add: set_need_def)

lemma set_need_bit:
  assumes "j < length bits" and "b < 64" and "i div 64 < length bits"
  shows "bit (set_need have bits i ! j) b \<longleftrightarrow> bit (bits ! j) b \<or> 64 * j + b = i \<and> i \<notin> have"
proof -
  have "64 * j + b = i \<longleftrightarrow> j = i div 64 \<and> b = i mod 64" using assms(2) by auto
  then show ?thesis
    using assms by (auto simp: set_need_def nth_list_update bit_set_word)
qed

lemma foldl_set_need:
  assumes "k \<le> 64 * length bits"
  shows "length (foldl (set_need have) bits [0..<k]) = length bits \<and>
         (\<forall>j b. j < length bits \<longrightarrow> b < 64 \<longrightarrow>
            bit (foldl (set_need have) bits [0..<k] ! j) b \<longleftrightarrow>
              bit (bits ! j) b \<or> 64 * j + b < k \<and> 64 * j + b \<notin> have)"
  using assms
proof (induction k)
  case (Suc k)
  let ?f = "foldl (set_need have) bits [0..<k]"
  have step: "foldl (set_need have) bits [0..<Suc k] = set_need have ?f k" by simp
  have IH: "length ?f = length bits"
    "\<And>j b. j < length bits \<Longrightarrow> b < 64 \<Longrightarrow> bit (?f ! j) b \<longleftrightarrow> bit (bits ! j) b \<or> 64 * j + b < k \<and> 64 * j + b \<notin> have"
    using Suc by auto
  have k: "k div 64 < length ?f" using Suc.prems IH(1) by auto
  have "bit (set_need have ?f k ! j) b \<longleftrightarrow> bit (bits ! j) b \<or> 64 * j + b < Suc k \<and> 64 * j + b \<notin> have"
    if "j < length bits" "b < 64" for j b
    using set_need_bit [OF _ that(2) k] IH that by (auto simp: less_Suc_eq)
  then show ?case unfolding step by (simp add: IH(1))
qed simp

lemma div_ceil_64: "n \<le> 64 * div_ceil n 64" "64 * div_ceil n 64 < n + 64"
  by (simp_all add: div_ceil_def)

lemma need_bits_spec:
  assumes "n \<le> max_chunks"
  shows "length (need_bits n have) = div_ceil n 64"
    and "j < div_ceil n 64 \<Longrightarrow> b < 64 \<Longrightarrow>
           bit (need_bits n have ! j) b \<longleftrightarrow> 64 * j + b < n \<and> 64 * j + b \<notin> have"
proof -
  have "n mod 2 ^ 32 = n" using assms by (simp add: max_chunks_def)
  then show "length (need_bits n have) = div_ceil n 64"
    and "j < div_ceil n 64 \<Longrightarrow> b < 64 \<Longrightarrow>
           bit (need_bits n have ! j) b \<longleftrightarrow> 64 * j + b < n \<and> 64 * j + b \<notin> have"
    using foldl_set_need [of n "replicate (div_ceil n 64) 0" "have"] div_ceil_64(1) [of n]
    by (auto simp: need_bits_def)
qed

lemma need_bit_need_bits:
  assumes "n \<le> max_chunks" and "i < n"
  shows "need_bit (need_bits n have) i \<longleftrightarrow> i \<notin> have"
proof -
  have "i div 64 < div_ceil n 64" using assms(2) div_ceil_64(1) [of n] by linarith
  then show ?thesis
    using need_bits_spec [OF assms(1)] assms(2) by (simp add: need_bit_iff)
qed

text \<open>The padding is zero exactly when no bit stands for an index beyond the last chunk.\<close>

lemma drop_bit_eq_0_iff_bits:
  fixes w :: "64 word"
  shows "drop_bit m w = 0 \<longleftrightarrow> (\<forall>b<64. m \<le> b \<longrightarrow> \<not> bit w b)"
proof
  assume d: "drop_bit m w = 0"
  show "\<forall>b<64. m \<le> b \<longrightarrow> \<not> bit w b"
  proof (intro allI impI)
    fix b :: nat assume "m \<le> b"
    then have "bit w b \<longleftrightarrow> bit (drop_bit m w) (b - m)" by (simp add: bit_simps)
    with d show "\<not> bit w b" by simp
  qed
next
  assume b: "\<forall>b<64. m \<le> b \<longrightarrow> \<not> bit w b"
  show "drop_bit m w = 0"
  proof (rule bit_word_eqI)
    fix n
    show "bit (drop_bit m w) n = bit (0 :: 64 word) n"
      using b [rule_format, of "m + n"] bit_imp_le_length [of w "m + n"] by (auto simp: bit_simps)
  qed
qed

lemma padding_clear:
  fixes bits :: "64 word list"
  assumes len: "length bits = div_ceil n 64" and "j < length bits" and "b < 64" and out: "n \<le> 64 * j + b"
    and pad: "n mod 64 \<noteq> 0 \<longrightarrow> drop_bit (n mod 64) (last bits) = 0"
  shows "\<not> bit (bits ! j) b"
proof -
  have j: "Suc j = length bits"
    using assms(2-4) div_ceil_64(2) [of n] len by linarith
  have up: "n \<le> 64 * j + 64" and low: "64 * j < n"
    using div_ceil_64 [of n] j len by simp_all
  have "n mod 64 \<noteq> 0" "n mod 64 \<le> b"
  proof -
    have lt: "n - 64 * j < 64" "n - 64 * j \<le> b" "0 < n - 64 * j" using out low assms(3) by auto
    have "n = 64 * j + (n - 64 * j)" using low by simp
    then have "n mod 64 = (n - 64 * j) mod 64" by (metis mod_mult_self4)
    then show "n mod 64 \<noteq> 0" "n mod 64 \<le> b" using lt by auto
  qed
  then have "\<not> bit (last bits) b"
    using pad assms(3) drop_bit_eq_0_iff_bits [of "n mod 64" "last bits"] by blast
  moreover have "last bits = bits ! j" using j by (metis diff_Suc_1 last_conv_nth length_0_conv nat.distinct(1))
  ultimately show ?thesis by simp
qed

lemma bits_to_indices_Inr_iff:
  assumes "n \<le> max_chunks"
  shows "bits_to_indices bits n = Inr idx \<longleftrightarrow>
    length bits = div_ceil n 64 \<and> (n mod 64 \<noteq> 0 \<longrightarrow> drop_bit (n mod 64) (last bits) = 0) \<and>
    idx = filter (need_bit bits) [0..<n]"
proof -
  have "n mod 2 ^ 32 = n" using assms by (simp add: max_chunks_def)
  moreover have "bits \<noteq> []" if "length bits = div_ceil n 64" "n mod 64 \<noteq> 0"
    using that div_ceil_64(1) [of n] by (cases bits) auto
  ultimately show ?thesis
    using assms by (auto simp: bits_to_indices_def res_simps)
qed

lemma need_bits_padding:
  assumes "n \<le> max_chunks" and "n mod 64 \<noteq> 0"
  shows "drop_bit (n mod 64) (last (need_bits n have)) = 0"
proof -
  let ?bits = "need_bits n have" and ?j = "div_ceil n 64 - 1"
  have len: "length ?bits = div_ceil n 64" by (rule need_bits_spec(1) [OF assms(1)])
  have pos: "0 < div_ceil n 64" using div_ceil_64(1) [of n] assms(2) by (cases "div_ceil n 64") auto
  have "last ?bits = ?bits ! ?j" using pos len by (subst last_conv_nth) auto
  moreover have "\<not> bit (?bits ! ?j) b" if "b < 64" "n mod 64 \<le> b" for b
  proof -
    have "n \<le> 64 * ?j + b"
    proof -
      have "64 * ?j < n" using div_ceil_64(2) [of n] pos by (cases "div_ceil n 64") auto
      moreover have "n \<le> 64 * ?j + 64" using div_ceil_64(1) [of n] pos by (cases "div_ceil n 64") auto
      moreover have "(64 * ?j + 64) mod 64 = 0" by simp
      then have "n \<noteq> 64 * ?j + 64" using assms(2) by metis
      ultimately have "n mod 64 = n - 64 * ?j"
        by (metis add.commute le_add_diff_inverse less_diff_conv2 less_imp_le_nat mod_less mod_mult_self2 nat_less_le)
      then show ?thesis using that(2) by linarith
    qed
    then show ?thesis using need_bits_spec(2) [OF assms(1), of ?j b] pos that(1) by auto
  qed
  ultimately show ?thesis by (simp add: drop_bit_eq_0_iff_bits)
qed

lemma need_bits_decode:
  assumes "n \<le> max_chunks"
  shows "bits_to_indices (need_bits n have) n = Inr (filter (\<lambda>i. i \<notin> have) [0..<n])"
  unfolding bits_to_indices_Inr_iff [OF assms]
  using need_bits_spec(1) [OF assms] need_bits_padding [OF assms] need_bit_need_bits [OF assms]
  by (auto intro!: filter_cong)

text \<open>
  C22. The request of a resumed transfer is exact in both directions. The bitmap a receiver sends
  for the chunks it has decodes, at the holder, to precisely the missing indices in ascending
  order; and any bitmap the holder accepts is the canonical one for the indices it decodes to, so
  no two bitmaps and no padding bits can stand for the same request.
\<close>

theorem need_bitmap_exact:
  assumes n: "n \<le> max_chunks"
  shows "bits_to_indices (need_bits n have) n = Inr (filter (\<lambda>i. i \<notin> have) [0..<n]) \<and>
         (\<forall>bits idx. bits_to_indices bits n = Inr idx \<longrightarrow> bits = need_bits n ({0..<n} - set idx))"
proof (intro conjI allI impI)
  show "bits_to_indices (need_bits n have) n = Inr (filter (\<lambda>i. i \<notin> have) [0..<n])"
    by (rule need_bits_decode [OF n])
  fix bits idx assume "bits_to_indices bits n = Inr idx"
  then have len: "length bits = div_ceil n 64"
    and pad: "n mod 64 \<noteq> 0 \<longrightarrow> drop_bit (n mod 64) (last bits) = 0" and idx: "idx = filter (need_bit bits) [0..<n]"
    by (simp_all add: bits_to_indices_Inr_iff [OF n])
  show "bits = need_bits n ({0..<n} - set idx)"
  proof (rule nth_equalityI)
    show "length bits = length (need_bits n ({0..<n} - set idx))" by (simp add: len need_bits_spec(1) [OF n])
    fix j assume j: "j < length bits"
    show "bits ! j = need_bits n ({0..<n} - set idx) ! j"
    proof (rule bit_word_eqI)
      fix b assume "b < LENGTH(64)"
      then have b: "b < 64" by simp
      have "64 * j + b < n" if "bit (bits ! j) b"
        using padding_clear [OF len j b _ pad] that by (meson not_less)
      then have "bit (bits ! j) b \<longleftrightarrow> 64 * j + b < n \<and> 64 * j + b \<in> set idx"
        using j b by (auto simp: idx need_bit_iff)
      then show "bit (bits ! j) b = bit (need_bits n ({0..<n} - set idx) ! j) b"
        using need_bits_spec(2) [OF n, of j b] j len b by auto
    qed
  qed
qed

theorem need_bitmap_exact_witness:
  "bits_to_indices (need_bits 70 {0, 65}) 70 = Inr (filter (\<lambda>i. i \<notin> {0, 65}) [0..<70])"
  using need_bitmap_exact [of 70 "{0, 65}"] by (simp add: max_chunks_def)

section \<open>Manifests tile their file\<close>

definition chunk_data :: "bytes \<Rightarrow> chunk \<Rightarrow> bytes" where
  "chunk_data data c = byte_slice data (ck_offset c) (ck_len c)"

lemma check_chunks_tile:
  assumes "check_chunks cs k = Inr t"
  shows "(\<forall>c\<in>set cs. 0 < ck_len c \<and> ck_len c \<le> max_chunk) \<and> k \<le> t \<and>
         (t \<le> length data \<longrightarrow> concat (map (chunk_data data) cs) = byte_slice data k (t - k))"
  using assms
proof (induction cs arbitrary: k)
  case Nil
  then show ?case by (simp add: byte_slice_def)
next
  case (Cons c cs)
  have c: "0 < ck_len c" "ck_len c \<le> max_chunk" "ck_offset c = k" and r: "check_chunks cs (k + ck_len c) = Inr t"
    using Cons.prems by (auto simp: res_simps checked_add64_def split: if_splits)
  have IH: "(\<forall>c\<in>set cs. 0 < ck_len c \<and> ck_len c \<le> max_chunk) \<and> k + ck_len c \<le> t \<and>
      (t \<le> length data \<longrightarrow> concat (map (chunk_data data) cs) = byte_slice data (k + ck_len c) (t - (k + ck_len c)))"
    by (rule Cons.IH [OF r])
  have "t - k = ck_len c + (t - (k + ck_len c))" using IH by simp
  then have "byte_slice data k (t - k) = byte_slice data k (ck_len c) @ byte_slice data (k + ck_len c) (t - (k + ck_len c))"
    by (simp add: byte_slice_def take_add add.commute)
  moreover have "chunk_data data c = byte_slice data k (ck_len c)" by (simp add: chunk_data_def c)
  ultimately show ?case using IH c by auto
qed

lemma check_manifest_Inr_iff:
  "check_manifest m = Inr () \<longleftrightarrow> length (mf_chunks m) \<le> max_chunks \<and> check_chunks (mf_chunks m) 0 = Inr (mf_size m)"
  by (auto simp: check_manifest_def res_simps)

text \<open>What \<open>fastcdc\<close> promises: its chunks follow each other, cover the data, and respect the maximum.\<close>

fun covers :: "usize \<Rightarrow> usize \<Rightarrow> (usize \<times> usize) list \<Rightarrow> usize \<Rightarrow> bool" where
  "covers mx k [] t = (k = t)"
| "covers mx k ((offset, len) # rest) t = (offset = k \<and> 0 < len \<and> len \<le> mx \<and> covers mx (k + len) rest t)"

definition cdc_ok :: "chunker \<Rightarrow> bool" where
  "cdc_ok cdc \<longleftrightarrow>
     (\<forall>mn avg mx data. 0 < mn \<longrightarrow> mn \<le> avg \<longrightarrow> avg \<le> mx \<longrightarrow> covers mx 0 (cdc mn avg mx data) (length data))"

lemma covers_le: "covers mx k cs t \<Longrightarrow> k \<le> t"
  by (induction mx k cs t rule: covers.induct) auto

lemma covers_check:
  assumes "covers max_chunk k cs t" and "t \<le> u64_max"
  shows "check_chunks (map (\<lambda>(offset, len). \<lparr>ck_hash = h offset len, ck_offset = offset, ck_len = len mod 2 ^ 32\<rparr>) cs) k = Inr t"
  using assms
proof (induction max_chunk k cs t rule: covers.induct)
  case (2 k offset len rest t)
  then show ?case
    using covers_le [of max_chunk "k + len" rest t] by (simp add: res_simps checked_add64_def max_chunk_def)
qed simp

text \<open>
  C23. A manifest that passes validation describes exactly one way to cut a file of its size: every
  chunk is non-empty and bounded, and for any data of that size the chunks' ranges, concatenated in
  manifest order, give back the data, so nothing is read twice, skipped or read out of range. The
  manifest built from any data whose chunk count is within the limit passes that validation.
\<close>

theorem manifest_tiles_file:
  assumes cdc: "cdc_ok cdc"
  shows "(\<forall>m data. check_manifest m = Inr () \<and> length data = mf_size m \<longrightarrow>
            (\<forall>c\<in>set (mf_chunks m). 0 < ck_len c \<and> ck_len c \<le> max_chunk) \<and>
            concat (map (chunk_data data) (mf_chunks m)) = data) \<and>
         (\<forall>data. length (cdc min_chunk avg_chunk max_chunk data) \<le> max_chunks \<and> length data \<le> u64_max \<longrightarrow>
            check_manifest (manifest_of cr cdc data) = Inr ())"
proof (intro conjI allI impI)
  fix m :: manifest and data :: bytes assume a: "check_manifest m = Inr () \<and> length data = mf_size m"
  then have "check_chunks (mf_chunks m) 0 = Inr (mf_size m)" by (simp add: check_manifest_Inr_iff)
  from check_chunks_tile [OF this, of data] a
  show "\<forall>c\<in>set (mf_chunks m). 0 < ck_len c \<and> ck_len c \<le> max_chunk"
    and "concat (map (chunk_data data) (mf_chunks m)) = data"
    by (auto simp: byte_slice_def)
next
  fix data :: bytes
  assume a: "length (cdc min_chunk avg_chunk max_chunk data) \<le> max_chunks \<and> length data \<le> u64_max"
  have "covers max_chunk 0 (cdc min_chunk avg_chunk max_chunk data) (length data)"
    using cdc by (simp add: cdc_ok_def min_chunk_def avg_chunk_def max_chunk_def)
  from covers_check [OF this, of "\<lambda>offset len. blake3 cr (byte_slice data offset len)"] a
  show "check_manifest (manifest_of cr cdc data) = Inr ()"
    by (simp add: check_manifest_Inr_iff manifest_of_def manifest_with_def)
qed

text \<open>A chunker that cuts at the maximum, for the witnesses.\<close>

function cuts :: "usize \<Rightarrow> usize \<Rightarrow> usize \<Rightarrow> (usize \<times> usize) list" where
  "cuts mx k n = (if mx = 0 \<or> n = 0 then [] else (k, min mx n) # cuts mx (k + min mx n) (n - min mx n))"
  by pat_completeness auto
termination by (relation "measure (\<lambda>(mx, k, n). n)") auto

declare cuts.simps [simp del]

definition cdc_max :: chunker where
  "cdc_max mn avg mx data = cuts mx 0 (length data)"

lemma cuts_covers: "0 < mx \<Longrightarrow> covers mx k (cuts mx k n) (k + n)"
proof (induction mx k n rule: cuts.induct)
  case (1 mx k n)
  show ?case
  proof (cases "n = 0")
    case False
    then have "k + min mx n + (n - min mx n) = k + n" by simp
    with 1 False show ?thesis by (subst cuts.simps) auto
  qed (simp add: cuts.simps)
qed

lemma cdc_max_ok: "cdc_ok cdc_max"
  using cuts_covers [of _ 0] by (auto simp: cdc_ok_def cdc_max_def)

theorem manifest_tiles_file_witness:
  "check_manifest (manifest_of crypto0 cdc_max [1, 2, 3]) = Inr () \<and>
   concat (map (chunk_data [1, 2, 3]) (mf_chunks (manifest_of crypto0 cdc_max [1, 2, 3]))) = [1, 2, 3]"
proof -
  note all = manifest_tiles_file [OF cdc_max_ok, of crypto0]
  have c: "check_manifest (manifest_of crypto0 cdc_max [1, 2, 3]) = Inr ()"
    using all by (simp add: cdc_max_def cuts.simps sync_limits u64_max_def)
  moreover have "length [1, 2, 3 :: byte] = mf_size (manifest_of crypto0 cdc_max [1, 2, 3])"
    by (simp add: manifest_of_def manifest_with_def)
  ultimately show ?thesis using all by blast
qed

section \<open>The exchange\<close>

lemma wire_v2_roundtrip:
  assumes "to_session msg = Some s" and "wi_transfer w = Some transfer"
  shows "wire_decode w (wire_frame w msg) = Inr msg"
  using assms by (cases msg) (auto simp: wire_frame_def wire_decode_def)

lemma wire_v1_roundtrip:
  assumes "wi_transfer w = None" and "\<forall>reason. msg \<noteq> Cancel reason" and "\<forall>t s. msg \<noteq> Session t s"
  shows "wire_decode w (wire_frame w msg) = Inr msg"
  using assms by (cases msg) (auto simp: wire_frame_def wire_decode_def)

lemma wire_part_roundtrip [simp]:
  "wire_decode w (wire_frame w (ManifestPart cs)) = Inr (ManifestPart cs)"
  "wire_decode w (wire_frame w (Offer rel n root count)) = Inr (Offer rel n root count)"
  by (cases "wi_transfer w"; simp add: wire_frame_def wire_decode_def)+

lemma concat_chunks_of [simp]: "0 < n \<Longrightarrow> concat (chunks_of n xs) = xs"
  by (induction n xs rule: chunks_of.induct) (auto simp del: take_Suc_Cons drop_Suc_Cons)

lemma chunks_of_bounds: "0 < n \<Longrightarrow> ys \<in> set (chunks_of n xs) \<Longrightarrow> ys \<noteq> [] \<and> length ys \<le> n"
  by (induction n xs rule: chunks_of.induct) (auto simp del: drop_Suc_Cons)

lemma read_parts_all:
  assumes "\<forall>p\<in>set parts. p \<noteq> [] \<and> length p \<le> manifest_batch"
    and "length acc + length (concat parts) = count"
  shows "read_parts count (map (\<lambda>p. Inr (ManifestPart p)) parts @ rest) acc = Inr (acc @ concat parts, rest)"
  using assms
proof (induction parts arbitrary: acc)
  case Nil
  then show ?case by (cases rest) auto
next
  case (Cons p ps)
  have "length acc < count" using Cons.prems by (cases p) auto
  then show ?case using Cons.IH [of "acc @ p"] Cons.prems by auto
qed

text \<open>
  C21. A manifest survives the wire: in either profile, decoding the frames that \<open>send_manifest\<close>
  writes yields the offer, and reading the parts that follow it, whatever comes after them, returns
  the very manifest that was sent and leaves the rest of the control stream untouched. In the
  session profile this holds for every manifest within the negotiated limits.
\<close>

theorem manifest_exchange_roundtrip:
  assumes valid: "check_manifest m = Inr ()"
    and limits: "is_v2 w \<longrightarrow> length (mf_chunks m) \<le> sl_max_chunks (wi_limits w) \<and>
                   (\<forall>c\<in>set (mf_chunks m). ck_len c \<le> sl_max_chunk (wi_limits w))"
  shows "\<exists>parts. map (wire_decode w) (send_manifest w rel m) =
           Inr (Offer rel (mf_size m) (mf_root m) (length (mf_chunks m))) # map Inr parts \<and>
         read_manifest (map Inr parts @ rest) (mf_size m) (mf_root m) (length (mf_chunks m)) w = Inr (m, rest)"
proof -
  let ?batches = "chunks_of manifest_batch (mf_chunks m)" and ?n = "length (mf_chunks m)"
  have len: "?n \<le> max_chunks" using valid by (simp add: check_manifest_Inr_iff)
  have pos: "0 < manifest_batch" by (simp add: manifest_batch_def)
  have "read_parts ?n (map (\<lambda>p. Inr (ManifestPart p)) ?batches @ rest) [] = Inr ([] @ concat ?batches, rest)"
    by (rule read_parts_all) (use chunks_of_bounds [OF pos] pos in auto)
  then have parts: "read_parts ?n (map Inr (map ManifestPart ?batches) @ rest) [] = Inr (mf_chunks m, rest)"
    using pos by (simp add: comp_def)
  have eta: "\<lparr>mf_size = mf_size m, mf_root = mf_root m, mf_chunks = mf_chunks m\<rparr> = m" by simp
  have "read_manifest (map Inr (map ManifestPart ?batches) @ rest) (mf_size m) (mf_root m) ?n w = Inr (m, rest)"
    using len limits valid
    by (auto simp: read_manifest_def parts eta Let_def res_simps list_ex_iff not_less simp del: map_map)
  moreover have "?n mod 2 ^ 32 = ?n" using len by (simp add: max_chunks_def)
  then have "map (wire_decode w) (send_manifest w rel m) =
      Inr (Offer rel (mf_size m) (mf_root m) ?n) # map Inr (map ManifestPart ?batches)"
    by (simp add: send_manifest_def comp_def)
  ultimately show ?thesis by (intro exI [of _ "map ManifestPart ?batches"] conjI)
qed

definition manifest0 :: manifest where
  "manifest0 = \<lparr>mf_size = 5, mf_root = [9], mf_chunks =
     [\<lparr>ck_hash = [1], ck_offset = 0, ck_len = 2\<rparr>, \<lparr>ck_hash = [2], ck_offset = 2, ck_len = 3\<rparr>]\<rparr>"

theorem manifest_exchange_roundtrip_witness:
  "\<exists>parts. read_manifest (map Inr parts @ [Inr SetDone]) 5 [9] 2 (wire_v2 [7] limits_local)
     = Inr (manifest0, [Inr SetDone])"
proof -
  have v: "check_manifest manifest0 = Inr ()"
    by (simp add: check_manifest_Inr_iff manifest0_def sync_limits checked_add64_def u64_max_def)
  have l: "is_v2 (wire_v2 [7] limits_local) \<longrightarrow>
      length (mf_chunks manifest0) \<le> sl_max_chunks (wi_limits (wire_v2 [7] limits_local)) \<and>
      (\<forall>c\<in>set (mf_chunks manifest0). ck_len c \<le> sl_max_chunk (wi_limits (wire_v2 [7] limits_local)))"
    by (simp add: manifest0_def wire_v2_def limits_local_def sync_limits)
  have s: "mf_size manifest0 = 5" "mf_root manifest0 = [9]" "length (mf_chunks manifest0) = 2"
    by (simp_all add: manifest0_def)
  from manifest_exchange_roundtrip [OF v l, of "''a''" "[Inr SetDone]"] show ?thesis
    unfolding s by blast
qed

section \<open>Negotiation agrees\<close>

definition usable :: "session_limits \<Rightarrow> bool" where
  "usable s \<longleftrightarrow> 0 < sl_max_chunk s \<and> 0 < sl_max_chunks s \<and> 0 < sl_fetch_streams s"

lemma negotiate_local:
  "negotiate limits_local peer = Inr limits \<longleftrightarrow>
     usable peer \<and> limits = \<lparr>sl_max_chunk = min (sl_max_chunk peer) (256 * 1024),
       sl_max_chunks = min (sl_max_chunks peer) (2 ^ 18), sl_fetch_streams = min (sl_fetch_streams peer) 4\<rparr>"
  by (auto simp: negotiate_def limits_local_def sync_limits usable_def res_simps min.commute min.left_commute)

lemma negotiate_commute: "negotiate a b = negotiate b a"
  by (auto simp: negotiate_def ensure_def min.commute)

text \<open>
  C25. The two sides of a session run at the same limits, and only for the same transfer. Whatever
  arrives, the responder starts a session exactly when its read and write succeed and the frame is
  a greeting of version 2 for its own transfer with usable limits; it then runs at the minimum of
  the declared limits and this implementation's ceilings, and its reply declares those ceilings.
  The opener does so exactly when the reply acknowledges its own transfer in version 2 with usable
  limits, by the same minimum. Negotiation gives both sides the same answer, refusals included,
  whatever each declares. An opener and a responder of this implementation agree on the limits when
  they are for one transfer and both fail otherwise; a responder that meets another version writes
  a refusal, on which the opener fails with that reason.
\<close>

theorem session_limits_agree:
  "(snd (session_accept transfer greeting written) = Inr limits \<longleftrightarrow>
      (\<exists>peer. greeting = Inr (Session transfer (SHello 2 peer)) \<and> written = Inr () \<and> usable peer \<and>
         limits = \<lparr>sl_max_chunk = min (sl_max_chunk peer) (256 * 1024),
           sl_max_chunks = min (sl_max_chunks peer) (2 ^ 18), sl_fetch_streams = min (sl_fetch_streams peer) 4\<rparr>)) \<and>
   fst (session_accept transfer (Inr (Session transfer (SHello 2 peer))) written) =
      [Session transfer (SHelloAck 2 limits_local)] \<and>
   (session_open transfer written reply = Inr limits \<longleftrightarrow>
      (\<exists>peer. written = Inr () \<and> reply = Inr (Session transfer (SHelloAck 2 peer)) \<and> usable peer \<and>
         limits = \<lparr>sl_max_chunk = min (sl_max_chunk peer) (256 * 1024),
           sl_max_chunks = min (sl_max_chunks peer) (2 ^ 18), sl_fetch_streams = min (sl_fetch_streams peer) 4\<rparr>)) \<and>
   negotiate here peer = negotiate peer here \<and>
   handshake transfer other ended =
      (if transfer = other then (Inr limits_local, Inr limits_local)
       else (Inl (SessionIo ended), Inl TransferMismatch)) \<and>
   (version \<noteq> 2 \<longrightarrow>
      (\<exists>frame. session_accept transfer (Inr (Session transfer (SHello version peer))) written =
           ([frame], Inl (VersionUnsupported version)) \<and>
         session_open transfer (Inr ()) (Inr frame) = Inl (SessionRefused (version_message version))))"
proof -
  have accept: "snd (session_accept transfer greeting written) = Inr limits \<longleftrightarrow>
      (\<exists>peer. greeting = Inr (Session transfer (SHello 2 peer)) \<and> written = Inr () \<and>
         negotiate limits_local peer = Inr limits)"
  proof (cases greeting)
    case (Inr msg)
    then show ?thesis
      by (cases msg) (auto simp: session_accept_def Let_def session_version_def res_simps split: session_msg.splits)
  qed (simp add: session_accept_def)
  have opened: "session_open transfer written reply = Inr limits \<longleftrightarrow>
      (\<exists>peer. written = Inr () \<and> reply = Inr (Session transfer (SHelloAck 2 peer)) \<and>
         negotiate limits_local peer = Inr limits)"
  proof (cases reply)
    case (Inr msg)
    then show ?thesis
      by (cases msg) (auto simp: session_open_def session_version_def res_simps split: session_msg.splits)
  qed (auto simp: session_open_def res_simps)
  have same: "negotiate limits_local limits_local = Inr limits_local"
    by (simp add: negotiate_local) (simp add: limits_local_def usable_def sync_limits)
  have shake: "handshake transfer other ended =
      (if transfer = other then (Inr limits_local, Inr limits_local)
       else (Inl (SessionIo ended), Inl TransferMismatch))"
    by (simp add: handshake_def session_accept_def session_hello_def session_open_def same)
  show ?thesis
    unfolding accept opened shake negotiate_local negotiate_commute [of here peer]
    by (simp add: session_accept_def session_open_def session_version_def)
qed

theorem session_limits_agree_witness:
  "\<exists>frame. session_accept [1] (Inr (Session [1] (SHello 1 limits_local))) (Inr ()) =
       ([frame], Inl (VersionUnsupported 1)) \<and>
     session_open [1] (Inr ()) (Inr frame) = Inl (SessionRefused (version_message 1))"
  using session_limits_agree [where version = 1 and transfer = "[1]" and peer = limits_local and written = "Inr ()"]
  by simp

section \<open>Paths\<close>

lemma push_parts_Inr_iff:
  "push_parts rel parts out = Inr res \<longleftrightarrow>
     ''..'' \<notin> set parts \<and> (\<forall>p\<in>set parts. map ascii_lower p \<noteq> state_dir) \<and>
     res = out @ filter (\<lambda>p. p \<noteq> '''' \<and> p \<noteq> ''.'') parts"
proof (induction parts arbitrary: out)
  case (Cons p ps)
  have "map ascii_lower p \<noteq> state_dir" if "p = '''' \<or> p = ''.''"
    using that by (auto simp: state_dir_def)
  with Cons.IH show ?case by auto
qed auto

lemma split_on_no_sep: "w \<in> set (split_on p s) \<Longrightarrow> (\<forall>c\<in>set w. \<not> p c) \<and> set w \<subseteq> set s"
proof (induction s arbitrary: w)
  case (Cons c s)
  obtain v vs where v: "split_on p s = v # vs" by (cases "split_on p s") auto
  then show ?case using Cons by (fastforce split: if_splits)
qed simp

lemma split_on_sep_by:
  assumes "p c" and "ws \<noteq> []" and "\<forall>w\<in>set ws. \<forall>x\<in>set w. \<not> p x"
  shows "split_on p (sep_by c ws) = ws"
proof -
  have one: "split_on p w = [w]" if "\<forall>x\<in>set w. \<not> p x" for w
    using that by (induction w) auto
  have cons: "split_on p (w @ c # s) = w # split_on p s" if "\<forall>x\<in>set w. \<not> p x" for w s
    using that assms(1) by (induction w) auto
  show ?thesis
    using assms(2,3) by (induction ws rule: induct_list012) (auto simp: one cons)
qed

lemma length_sep_by: "ws \<noteq> [] \<Longrightarrow> Suc (length (sep_by c ws)) = sum_list (map (\<lambda>w. Suc (length w)) ws)"
  by (induction ws rule: induct_list012) auto

lemma length_split_on: "sum_list (map (\<lambda>w. Suc (length w)) (split_on p s)) = Suc (length s)"
proof (induction s)
  case (Cons c s)
  obtain v vs where "split_on p s = v # vs" by (cases "split_on p s") auto
  with Cons show ?case by auto
qed simp

lemma sum_list_filter_le: "sum_list (map f (filter P xs)) \<le> sum_list (map (f :: 'a \<Rightarrow> nat) xs)"
  by (induction xs) auto

lemma check_rel_path_Inr:
  assumes "check_rel_path rel = Inr out"
  shows "out = filter (\<lambda>p. p \<noteq> '''' \<and> p \<noteq> ''.'') (split_on is_separator rel)" and "out \<noteq> []"
    and "\<forall>p\<in>set out. p \<noteq> '''' \<and> p \<noteq> ''.'' \<and> p \<noteq> ''..'' \<and> map ascii_lower p \<noteq> state_dir \<and>
           (\<forall>c\<in>set p. \<not> is_separator c \<and> c \<noteq> CHR 0x00)"
    and "length (sep_by CHR ''/'' out) \<le> max_rel_path"
proof -
  have rel: "length rel \<le> max_rel_path" "CHR 0x00 \<notin> set rel"
    and push: "push_parts rel (split_on is_separator rel) [] = Inr out" and ne: "out \<noteq> []"
    using assms by (auto simp: check_rel_path_def res_simps)
  from push show out: "out = filter (\<lambda>p. p \<noteq> '''' \<and> p \<noteq> ''.'') (split_on is_separator rel)"
    by (simp add: push_parts_Inr_iff)
  show "out \<noteq> []" by (rule ne)
  show "\<forall>p\<in>set out. p \<noteq> '''' \<and> p \<noteq> ''.'' \<and> p \<noteq> ''..'' \<and> map ascii_lower p \<noteq> state_dir \<and>
           (\<forall>c\<in>set p. \<not> is_separator c \<and> c \<noteq> CHR 0x00)"
  proof
    fix p assume "p \<in> set out"
    then have p: "p \<in> set (split_on is_separator rel)" "p \<noteq> ''''" "p \<noteq> ''.''" by (simp_all add: out)
    have "p \<noteq> ''..''" "map ascii_lower p \<noteq> state_dir"
      using push p(1) by (auto simp: push_parts_Inr_iff)
    moreover have "\<not> is_separator c \<and> c \<noteq> CHR 0x00" if "c \<in> set p" for c
      using split_on_no_sep [OF p(1)] rel(2) that by (metis subsetD)
    ultimately show "p \<noteq> '''' \<and> p \<noteq> ''.'' \<and> p \<noteq> ''..'' \<and> map ascii_lower p \<noteq> state_dir \<and>
        (\<forall>c\<in>set p. \<not> is_separator c \<and> c \<noteq> CHR 0x00)"
      using p(2,3) by simp
  qed
  have "Suc (length (sep_by CHR ''/'' out)) = sum_list (map (\<lambda>w. Suc (length w)) out)"
    by (rule length_sep_by [OF ne])
  also have "\<dots> \<le> sum_list (map (\<lambda>w. Suc (length w)) (split_on is_separator rel))"
    unfolding out by (rule sum_list_filter_le)
  also have "\<dots> = Suc (length rel)" by (rule length_split_on)
  finally show "length (sep_by CHR ''/'' out) \<le> max_rel_path" using rel(1) by simp
qed

text \<open>What the check refuses as absolute.\<close>

definition looks_absolute :: "string \<Rightarrow> bool" where
  "looks_absolute rel \<longleftrightarrow>
     (case rel of c # _ \<Rightarrow> is_separator c | [] \<Rightarrow> False)
     \<or> (case rel of _ # c # _ \<Rightarrow> c = CHR '':'' | _ \<Rightarrow> False)
     \<or> (case rel of c # _ \<Rightarrow> c = CHR ''~'' | [] \<Rightarrow> False)"

lemma check_normal_form:
  assumes "check_rel_path rel = Inr out"
  shows "check_rel_path (sep_by CHR ''/'' out) =
           (if looks_absolute (sep_by CHR ''/'' out)
            then Inl (SyncManifest (AbsoluteRelPath (sep_by CHR ''/'' out))) else Inr out)"
proof -
  let ?s = "sep_by CHR ''/'' out"
  note o = check_rel_path_Inr [OF assms]
  have split: "split_on is_separator ?s = out"
    using o(2,3) by (intro split_on_sep_by) (auto simp: is_separator_def)
  have "push_parts ?s (split_on is_separator ?s) [] = Inr out"
    unfolding split push_parts_Inr_iff using o(3) by (auto intro!: filter_True [symmetric])
  moreover have "?s \<noteq> []" using o(2,3) by (cases out) (auto simp: sep_by_Cons)
  moreover have "CHR 0x00 \<notin> set ?s"
  proof -
    have "set (sep_by c ws) \<subseteq> insert c (\<Union>w\<in>set ws. set w)" for c ws
      by (induction ws rule: induct_list012) auto
    then show ?thesis using o(3) by fastforce
  qed
  ultimately show ?thesis
    using o(2,4) by (simp add: check_rel_path_def looks_absolute_def)
qed

text \<open>
  C26. A peer-supplied path that passes the lexical check is confined: its normal form has at least
  one component, and none of them is empty, a dot, a parent step, the private state directory in
  any letter case, or contains a separator or a NUL. Checking the normal form again, as the journal
  does when it opens, gives the same components, except for a normal form that itself looks
  absolute, which is refused.
\<close>

theorem rel_path_normal_form:
  assumes "check_rel_path rel = Inr out"
  shows "out \<noteq> [] \<and>
         (\<forall>p\<in>set out. p \<noteq> '''' \<and> p \<noteq> ''.'' \<and> p \<noteq> ''..'' \<and> map ascii_lower p \<noteq> state_dir \<and>
            (\<forall>c\<in>set p. \<not> is_separator c \<and> c \<noteq> CHR 0x00)) \<and>
         check_rel_path (sep_by CHR ''/'' out) =
           (if looks_absolute (sep_by CHR ''/'' out)
            then Inl (SyncManifest (AbsoluteRelPath (sep_by CHR ''/'' out))) else Inr out)"
  using check_rel_path_Inr(2,3) [OF assms] check_normal_form [OF assms] by simp

lemma check_rel_path_tilde: "check_rel_path ''./~a'' = Inr [''~a'']"
  by (simp add: check_rel_path_def is_separator_def state_dir_def max_rel_path_def ascii_lower_def)

text \<open>
  The exception is real: the normal form of this accepted path is refused when it is checked again,
  so a push to it is admitted by the first check and then fails where the journal opens.
\<close>

theorem normal_form_refused:
  "check_rel_path ''./~a'' = Inr [''~a''] \<and> check_rel_path (sep_by CHR ''/'' [''~a'']) = Inl (SyncManifest (AbsoluteRelPath ''~a''))"
  using check_rel_path_tilde by (simp add: check_rel_path_def is_separator_def max_rel_path_def)

theorem rel_path_normal_form_witness:
  "check_rel_path ''./~a'' = Inr [''~a''] \<and> check_rel_path ''~a'' = Inl (SyncManifest (AbsoluteRelPath ''~a''))"
  using rel_path_normal_form [OF check_rel_path_tilde] check_rel_path_tilde
  by (simp add: looks_absolute_def)

section \<open>Streaming and in-memory manifests agree\<close>













end
