(* ===== verification/Spec2Isabelle.thy ===== *)
theory Spec2Isabelle
  imports Rds_Record_Crash Rds_Directory_Runs Rds_Agent_Sessions Rds_Sync
begin

text \<open>
  Remote-device-sync: verification of the signed control plane, the agent's grant admission and the
  file-sync protocol.

  The program lets devices reach each other by public key. A device publishes a signed endpoint
  record to a directory; an estate authority signs revocation feeds and a name registry; a grant
  signed by an issuer lets one device use services of another. Everything security-relevant is a
  signed, revision-ordered statement with a lifetime, kept in stores that must survive crashes
  and refuse to go back. The agent on a device polls the revocation feed, admits connections whose
  grant verifies, and closes them when the grant ends or is revoked; one of the services behind it
  transfers files. This development models these parts as HOL functions, one theory per component,
  in the order in which the code depends on them.

  \<^bold>\<open>Conventions.\<close> Fallible code returns \<open>('e, 'a) result\<close>, stateful code takes and
  returns its record; \<open>attempt\<close> and \<open>and_then\<close> are the \<open>?\<close> operator inside a \<open>&mut self\<close> method.
  Bytes are 8-bit words, a \<open>str\<close> is a list of its UTF-8 bytes as characters, a duration is a
  number of nanoseconds. Integers that only meet checked or saturating arithmetic are naturals
  with the width in the operation; counters changed by plain \<open>+=\<close> are words. A \<open>BTreeMap\<close> is a
  sorted association list. Third-party code is a parameter: Ed25519 and BLAKE3 (\<open>crypto\<close>), the
  postcard and JSON codecs, the embedded database file and every system call with its failures.
  What the code relies on of them is a named hypothesis of the theorem that needs it, with a
  witness at a concrete instance. No definition uses fuel: the loops of the source are
  structural in the list they walk or bounded by a constant of the source.

  \<^bold>\<open>Theories.\<close>
  \<^item> \<open>Rds_Prelude\<close>: results, integer and duration arithmetic, ordered maps, strings, the
    third-party interfaces, and the generic locales \<open>inductive_invariant\<close> (step systems),
    \<open>revision_register\<close> (a cell that only accepts newer revisions) and \<open>fail_stop_simulation\<close>.
  \<^item> \<open>Rds_Identity\<close> (\<open>rds-core/src/endpoint.rs\<close>, \<open>relay.rs\<close>): key strings and relay frames;
    printing and parsing are inverse.
  \<^item> \<open>Rds_Clock\<close> (\<open>rds-discovery/src/clock.rs\<close>): leases on two clocks; a lease is never honoured
    outside its signed interval, whatever either clock does.
  \<^item> \<open>Rds_Authority\<close> (\<open>authority.rs\<close>): dual-signed rotation receipts and chains of them.
  \<^item> \<open>Rds_Grants\<close> (\<open>rds-core/src/grant.rs\<close>): decoding, verification, issue and scopes; acceptance is
    characterised exactly and scopes only shrink.
  \<^item> \<open>Rds_Snapshots\<close> (\<open>revocations.rs\<close>, \<open>registry.rs\<close>): signed feeds and name bindings.
  \<^item> \<open>Rds_Persist\<close> (\<open>persist.rs\<close>): the owned file with its lock and the staged write, with every system
    call failing at will and a crash possible between any two steps.
  \<^item> \<open>Rds_Observation\<close>, \<open>Rds_Policy_Store\<close>, \<open>Rds_Policy_Invariants\<close> (\<open>observation.rs\<close>, \<open>policy.rs\<close>,
    \<open>policy/metrics.rs\<close>): the authority's durable state; every reachable state is valid, old feeds
    are refused, failed commits stop the store, and at every step of a commit a crash leaves the old
    state or the one the operation asked for.
  \<^item> \<open>Rds_Net\<close> (\<open>rds-core/src/tcp_target.rs\<close>): destinations, over the standard library's address parser
    and printer.
  \<^item> \<open>Rds_Record_Wire\<close>, \<open>Rds_Record_Entry\<close> (\<open>record_wire.rs\<close>, \<open>relay_route.rs\<close>, \<open>records/entry.rs\<close>): signed
    records and deletions, store cells and the access decision.
  \<^item> \<open>Rds_Record_Memory\<close>, \<open>Rds_Record_File\<close> (\<open>records/memory.rs\<close>, \<open>records.rs\<close>): the two stores behind the
    \<open>RecordStore\<close> trait. \<open>Rds_Record_Refine\<close> shows that the durable store answers as the in-memory
    one until it stops; \<open>Rds_Record_Crash\<close> that a crash leaves the old or the new catalog.
  \<^item> \<open>Rds_Admission\<close> (\<open>admission.rs\<close>, \<open>Limits\<close> of \<open>service.rs\<close>): enrollment and budgets; the protected renewal
    of a known device cannot be starved.

  \<^item> \<open>Rds_Http\<close> (\<open>http.rs\<close>): heads, requests and responses in both directions; what one side writes the
    other reads back, and the byte-wise reader agrees with a reference.
  \<^item> \<open>Rds_Directory\<close>, \<open>Rds_Directory_Runs\<close> (\<open>service.rs\<close>, \<open>service/tasks.rs\<close>): routing, handlers and connection
    serving over either store; an accepted record stays served over any run that brings nothing newer
    for its key, a known publisher can renew after any run, and a request for an unenrolled key has
    no effect.
  \<^item> \<open>Rds_Agent_Policy\<close> (\<open>rds-agent/src/lib.rs\<close>, \<open>revocations.rs\<close>, \<open>limits.rs\<close>): the agent's policy and its
    validation, the denylist fed from the policy store, stream limits and the resource gate; a fresh
    denylist is always one signed snapshot and never goes back.
  \<^item> \<open>Rds_Agent_Authz\<close> (\<open>rds-agent/src/authz.rs\<close>): the authorization state of one connection, the admission
    and renewal transactions cut at their await points, scope queries and the watchdog.
  \<^item> \<open>Rds_Agent_Sessions\<close> (\<open>rds-agent/src/authz.rs\<close>, \<open>serve_connection\<close>): the step relation of all connections
    over one shared policy, any task of any connection taking the next turn. Every stream served has
    a verified, live, unrevoked grant of its own; sessions never widen; reservations never leak.
  \<^item> \<open>Rds_Sync\<close> (\<open>rds-sync/src/lib.rs\<close>, \<open>proto.rs\<close>, \<open>engine.rs\<close>): manifests, validation, missing-chunk bitmaps,
    negotiation, framing in both profiles and the manifest exchange. The two chunkers of \<open>fastcdc\<close> are
    parameters, of which the theorems assume that their ranges tile the data within the size bounds,
    that the streaming one cuts where the in-memory one does, and that it reports a reader's error.

  \<^bold>\<open>Not modelled.\<close> Socket, TLS and task plumbing, among it the accept loops and the dispatch of an
  agent's streams to the service bodies; the QUIC backends over vendored crates; capture, codecs,
  rendering and input injection of the remote desktop; audio; the relay server; of file sync the
  chunk streams, the resume journal and the confined directories; command lines, configuration
  files and metric export; the conversion of old databases.
\<close>

end
